(* ===== verification/Kernel_Prelude.thy ===== *)
theory Kernel_Prelude
  imports Main "HOL-Library.Word"
begin

text \<open>
  Shared vocabulary of the development: the C integer types of \<^verbatim>\<open>lib/stdint.h\<close> as words of
  their width, the ways a kernel routine can end, and the generic lemmas on words and byte
  memories that the component theories share.

  A kernel routine that can fail returns \<^typ>\<open>'e + 'a\<close> with the failure on the left, or, when
  it can also give up the processor, a value of the type \<open>outcome\<close> below: it fails, it has been
  switched out (another thread runs and the call has not returned yet), or it has returned.
\<close>

unbundle bit_operations_syntax

section \<open>C integers\<close>

type_synonym u8 = "8 word"
type_synonym u16 = "16 word"
type_synonym u32 = "32 word"
type_synonym u64 = "64 word"

text \<open>The byte memory of the C abstract machine, addressed by 32-bit pointers.\<close>

type_synonym memory = "u32 \<Rightarrow> u8"

section \<open>Failures\<close>

text \<open>
  \<open>Panic file line\<close>: an \<^verbatim>\<open>ASSERT\<close> or \<^verbatim>\<open>PANIC\<close> at that line of that file fired and
  \<^verbatim>\<open>panic_spin\<close> halts the machine. \<open>Fault a\<close>: a memory access through the linear address
  \<open>a\<close> hit no present page. \<open>Hang\<close>: a loop of the routine never ends.
  \<open>Overflow file line\<close>: that line writes past the end of an array inside a structure.
\<close>

datatype kerror = Panic string nat | Fault u32 | Hang | Overflow string nat

text \<open>
  The macro \<^verbatim>\<open>ASSERT(CONDITION)\<close> of \<^verbatim>\<open>kernel/debug.h\<close>: nothing when the condition holds,
  \<^verbatim>\<open>panic_spin\<close> otherwise.
\<close>

definition ASSERT :: "string \<Rightarrow> nat \<Rightarrow> bool \<Rightarrow> kerror + unit" where
  "ASSERT file line c = (if c then Inr () else Inl (Panic file line))"

definition sbind :: "'e + 'a \<Rightarrow> ('a \<Rightarrow> 'e + 'b) \<Rightarrow> 'e + 'b" where
  "sbind r f = (case r of Inl e \<Rightarrow> Inl e | Inr x \<Rightarrow> f x)"

text \<open>The value of a loop that may not return.\<close>

definition returns :: "'a option \<Rightarrow> kerror + 'a" where
  "returns r = (case r of None \<Rightarrow> Inl Hang | Some x \<Rightarrow> Inr x)"

lemma sbind_simps [simp]:
  "sbind (Inl e) f = Inl e"
  "sbind (Inr x) f = f x"
  by (simp_all add: sbind_def)

lemma sbind_Inr_iff: "sbind r f = Inr y \<longleftrightarrow> (\<exists>x. r = Inr x \<and> f x = Inr y)"
  by (cases r) simp_all

lemma sbind_Inl_iff: "sbind r f = Inl e \<longleftrightarrow> r = Inl e \<or> (\<exists>x. r = Inr x \<and> f x = Inl e)"
  by (cases r) simp_all

lemma ASSERT_simps [simp]:
  "ASSERT file line True = Inr ()"
  "ASSERT file line False = Inl (Panic file line)"
  by (simp_all add: ASSERT_def)

lemma ASSERT_Inr_iff [simp]: "ASSERT file line c = Inr u \<longleftrightarrow> c"
  by (simp add: ASSERT_def)

lemma returns_simps [simp]:
  "returns None = Inl Hang"
  "returns (Some x) = Inr x"
  by (simp_all add: returns_def)

lemma returns_Inr_iff [simp]: "returns r = Inr x \<longleftrightarrow> r = Some x"
  by (cases r) simp_all

text \<open>
  How a routine that may block ends: it fails, it has switched to another thread in state \<open>s\<close>
  with \<open>k\<close> left to remember where it has to continue, or it has returned.
\<close>

datatype ('s, 'k, 'a) outcome = Fail kerror | Switched 's 'k | Ret 's 'a

fun obind :: "('s, 'k, 'a) outcome \<Rightarrow> ('a \<Rightarrow> 's \<Rightarrow> ('s, 'k, 'b) outcome) \<Rightarrow> ('s, 'k, 'b) outcome" where
  "obind (Fail e) f = Fail e"
| "obind (Switched s k) f = Switched s k"
| "obind (Ret s a) f = f a s"

definition finish_state :: "kerror + 's \<Rightarrow> ('s, 'k, unit) outcome" where
  "finish_state r = (case r of Inl e \<Rightarrow> Fail e | Inr s \<Rightarrow> Ret s ())"

lemma finish_state_simps [simp]:
  "finish_state (Inl e) = Fail e"
  "finish_state (Inr s) = Ret s ()"
  by (simp_all add: finish_state_def)

lemma obind_Ret_iff: "obind r f = Ret s b \<longleftrightarrow> (\<exists>s1 a. r = Ret s1 a \<and> f a s1 = Ret s b)"
  by (cases r) simp_all

section \<open>Words\<close>

lemma unat_pred_less [simp]: "(x :: 'a::len word) \<noteq> 0 \<Longrightarrow> unat (x - 1) < unat x"
  by (simp add: unat_minus_one unat_gt_0)

lemma unat_Suc_pred: "(x :: 'a::len word) \<noteq> 0 \<Longrightarrow> unat x = Suc (unat (x - 1))"
  by (simp add: unat_minus_one unat_gt_0)

lemma unat_Suc_less:
  assumes "(i :: 'a::len word) < n"
  shows "unat (i + 1) = Suc (unat i)"
proof -
  have "1 + i \<noteq> 0"
  proof
    assume "1 + i = 0"
    then have "i = -1" by (simp add: add_eq_0_iff)
    with assms word_n1_ge [of n] show False by simp
  qed
  then show ?thesis using unatSuc [of i] by (simp add: add.commute)
qed

lemma unat_of_nat_u32 [simp]: "i < 4294967296 \<Longrightarrow> unat (of_nat i :: u32) = i"
  by (simp add: unat_of_nat)

lemma of_nat_u32_eq_iff: "i < 2 ^ 32 \<Longrightarrow> j < 2 ^ 32 \<Longrightarrow> (of_nat i :: u32) = of_nat j \<longleftrightarrow> i = j"
  by (auto dest: arg_cong [where f = unat])

lemma word_add_one_of_nat: "(p :: 'a::len word) + 1 + of_nat i = p + of_nat (Suc i)"
  by simp

subsection \<open>The bits of the masks the code uses\<close>

named_theorems mask_bits \<open>which bits the constant masks of the code have\<close>

text \<open>The simplifier reduces a bit of a word literal to a bit of the integer literal.\<close>

lemma bit_shifted_mask: "bit (push_bit k (mask l) :: int) n \<longleftrightarrow> k \<le> n \<and> n < k + l"
  by (auto simp: bit_push_bit_iff bit_mask_iff)

lemma bit_ffff [mask_bits]: "bit (0xFFFF :: int) n \<longleftrightarrow> n < 16"
  using bit_shifted_mask [of 0 16 n] by (auto simp: mask_eq_exp_minus_1)

lemma bit_fff [mask_bits]: "bit (0xFFF :: int) n \<longleftrightarrow> n < 12"
  using bit_shifted_mask [of 0 12 n] by (auto simp: mask_eq_exp_minus_1)

lemma bit_ffff0000 [mask_bits]: "bit (0xFFFF0000 :: int) n \<longleftrightarrow> 16 \<le> n \<and> n < 32"
  using bit_shifted_mask [of 16 16 n] by (auto simp: mask_eq_exp_minus_1)

lemma bit_fffff000 [mask_bits]: "bit (0xFFFFF000 :: int) n \<longleftrightarrow> 12 \<le> n \<and> n < 32"
  using bit_shifted_mask [of 12 20 n] by (auto simp: mask_eq_exp_minus_1)

lemma bit_ffc00000 [mask_bits]: "bit (0xFFC00000 :: int) n \<longleftrightarrow> 22 \<le> n \<and> n < 32"
  using bit_shifted_mask [of 22 10 n] by (auto simp: mask_eq_exp_minus_1)

lemma bit_003ff000 [mask_bits]: "bit (0x003FF000 :: int) n \<longleftrightarrow> 12 \<le> n \<and> n < 22"
  using bit_shifted_mask [of 12 10 n] by (auto simp: mask_eq_exp_minus_1)

lemma bit_00ff0000 [mask_bits]: "bit (0x00FF0000 :: int) n \<longleftrightarrow> 16 \<le> n \<and> n < 24"
  using bit_shifted_mask [of 16 8 n] by (auto simp: mask_eq_exp_minus_1)

lemma bit_000f0000 [mask_bits]: "bit (0x000F0000 :: int) n \<longleftrightarrow> 16 \<le> n \<and> n < 20"
  using bit_shifted_mask [of 16 4 n] by (auto simp: mask_eq_exp_minus_1)

lemma bit_200 [mask_bits]: "bit (0x200 :: int) n \<longleftrightarrow> n = 9"
  using bit_shifted_mask [of 9 1 n] by (auto simp: mask_eq_exp_minus_1)

lemma bit_e000 [mask_bits]: "bit (0xE000 :: int) n \<longleftrightarrow> 13 \<le> n \<and> n < 16"
  using bit_shifted_mask [of 13 3 n] by (auto simp: mask_eq_exp_minus_1)

lemma bit_80 [mask_bits]: "bit (0x80 :: int) n \<longleftrightarrow> n = 7"
  using bit_shifted_mask [of 7 1 n] by (auto simp: mask_eq_exp_minus_1)

lemma bit_ff [mask_bits]: "bit (0xFF :: int) n \<longleftrightarrow> n < 8"
  using bit_shifted_mask [of 0 8 n] by (auto simp: mask_eq_exp_minus_1)

lemma bit_3ff [mask_bits]: "bit (0x3FF :: int) n \<longleftrightarrow> n < 10"
  using bit_shifted_mask [of 0 10 n] by (auto simp: mask_eq_exp_minus_1)

lemma word_and_fff: "(x :: u32) AND 0xFFF = x mod 4096"
proof -
  have "(0xFFF :: u32) = mask 12" by (simp add: mask_eq_exp_minus_1)
  then show ?thesis by (simp only: flip: take_bit_eq_mask) (simp add: take_bit_eq_mod)
qed

lemma bit_7 [mask_bits]: "bit (0x7 :: int) n \<longleftrightarrow> n < 3"
  using bit_shifted_mask [of 0 3 n] by (auto simp: mask_eq_exp_minus_1)

lemma bit_f [mask_bits]: "bit (0xF :: int) n \<longleftrightarrow> n < 4"
  using bit_shifted_mask [of 0 4 n] by (auto simp: mask_eq_exp_minus_1)

lemma bit_f0 [mask_bits]: "bit (0xF0 :: int) n \<longleftrightarrow> 4 \<le> n \<and> n < 8"
  using bit_shifted_mask [of 4 4 n] by (auto simp: mask_eq_exp_minus_1)

lemma bit_mask_fff: "bit (0xFFF :: u32) n \<longleftrightarrow> n < 12"
  by (auto simp: mask_bits)

section \<open>Byte strings in memory\<close>

text \<open>The addresses of the \<open>n\<close> bytes from \<open>p\<close> on, wrapping at 4 GiB as the processor does.\<close>

definition span :: "u32 \<Rightarrow> nat \<Rightarrow> u32 set" where
  "span p n = (\<lambda>i. p + of_nat i) ` {..<n}"

lemma span_0 [simp]: "span p 0 = {}"
  by (simp add: span_def)

lemma span_Suc: "span p (Suc n) = insert p (span (p + 1) n)"
proof -
  have "span p (Suc n) = insert p ((\<lambda>i. p + of_nat (Suc i)) ` {..<n})"
    by (simp add: span_def lessThan_Suc_eq_insert_0 image_image)
  then show ?thesis by (simp add: span_def add.assoc)
qed

lemma span_numeral [simp]: "span p (numeral k) = insert p (span (p + 1) (pred_numeral k))"
  by (simp add: numeral_eq_Suc span_Suc)

lemma span_1 [simp]: "span p (Suc 0) = {p}"
  by (simp add: span_Suc)

lemma span_add: "span p (m + n) = span p m \<union> span (p + of_nat m) n"
proof (induction m arbitrary: p)
  case 0
  show ?case by simp
next
  case (Suc m)
  have "span p (Suc m + n) = insert p (span (p + 1) (m + n))" by (simp add: span_Suc)
  also have "\<dots> = insert p (span (p + 1) m \<union> span (p + 1 + of_nat m) n)" by (simp add: Suc)
  finally show ?case by (simp add: span_Suc add.assoc)
qed

lemma mem_span_iff: "a \<in> span p n \<longleftrightarrow> (\<exists>i<n. a = p + of_nat i)"
  by (auto simp: span_def)

lemma self_not_in_span_Suc: "n < 2 ^ 32 \<Longrightarrow> p \<notin> span (p + 1) (n - 1)"
proof
  assume n: "n < 2 ^ 32" and "p \<in> span (p + 1) (n - 1)"
  then obtain i where i: "i < n - 1" and eq: "p = p + 1 + of_nat i"
    by (auto simp: mem_span_iff)
  from eq have "(of_nat (Suc i) :: u32) = of_nat 0" by (simp add: add.assoc)
  moreover have "Suc i < 2 ^ 32" using i n by linarith
  ultimately show False using of_nat_u32_eq_iff [of "Suc i" 0] by simp
qed

text \<open>Writing a list of bytes from an address on.\<close>

fun write_bytes :: "memory \<Rightarrow> u32 \<Rightarrow> u8 list \<Rightarrow> memory" where
  "write_bytes m p [] = m"
| "write_bytes m p (b # bs) = write_bytes (m(p := b)) (p + 1) bs"

fun read_bytes :: "memory \<Rightarrow> u32 \<Rightarrow> nat \<Rightarrow> u8 list" where
  "read_bytes m p 0 = []"
| "read_bytes m p (Suc n) = m p # read_bytes m (p + 1) n"

lemma read_bytes_numeral [simp]:
  "read_bytes m p (numeral k) = m p # read_bytes m (p + 1) (pred_numeral k)"
  by (simp add: numeral_eq_Suc)

lemma write_bytes_outside [simp]:
  "a \<notin> span p (length bs) \<Longrightarrow> write_bytes m p bs a = m a"
  by (induction bs arbitrary: m p) (auto simp: span_Suc)

lemma length_read_bytes [simp]: "length (read_bytes m p n) = n"
  by (induction n arbitrary: p) auto

lemma nth_read_bytes: "i < n \<Longrightarrow> read_bytes m p n ! i = m (p + of_nat i)"
  by (induction n arbitrary: p i)
     (auto simp: less_Suc_eq_0_disj add.assoc)

lemma read_bytes_cong: "(\<And>a. a \<in> span p n \<Longrightarrow> m a = m' a) \<Longrightarrow> read_bytes m p n = read_bytes m' p n"
  by (induction n arbitrary: p) (auto simp: span_Suc)

lemma read_write_bytes:
  "length bs < 2 ^ 32 \<Longrightarrow> read_bytes (write_bytes m p bs) p (length bs) = bs"
proof (induction bs arbitrary: m p)
  case Nil
  show ?case by simp
next
  case (Cons b bs)
  have "p \<notin> span (p + 1) (length bs)"
    using self_not_in_span_Suc [of "length (b # bs)" p] Cons.prems by simp
  with Cons show ?case by simp
qed

lemma write_bytes_append:
  "write_bytes m p (as @ bs) = write_bytes (write_bytes m p as) (p + of_nat (length as)) bs"
  by (induction as arbitrary: m p) (simp_all add: add.assoc)

lemma write_bytes_nth:
  assumes "i < length bs" "length bs < 2 ^ 32"
  shows "write_bytes m p bs (p + of_nat i) = bs ! i"
  using nth_read_bytes [of i "length bs" "write_bytes m p bs" p] assms read_write_bytes [of bs m p]
  by simp

end
