(* ===== verification/CString.thy ===== *)
theory CString
  imports Kernel_Prelude
begin

text \<open>
  The string library, \<^verbatim>\<open>src/lib/string.c\<close>. Pointers are 32-bit addresses into a byte memory,
  \<^verbatim>\<open>char\<close> is signed (as gcc has it on x86), a loop over a byte count is a terminating function
  of the 32-bit counter and a loop that runs to the closing zero byte is a partial function, so
  that a string without a terminator is a routine that never returns. The lemmas compare each
  routine with its meaning on lists of bytes.
\<close>

section \<open>The routines of string.c\<close>

function memset_loop :: "memory \<Rightarrow> u32 \<Rightarrow> u8 \<Rightarrow> u32 \<Rightarrow> memory" where
  "memset_loop m dst v sz =
     (if sz = 0 then m else memset_loop (m(dst := v)) (dst + 1) v (sz - 1))"
  by pat_completeness auto
termination by (relation "measure (\<lambda>(m, dst, v, sz). unat sz)") auto

definition memset :: "memory \<Rightarrow> u32 \<Rightarrow> u8 \<Rightarrow> u32 \<Rightarrow> kerror + memory" where
  "memset m dst v sz =
     sbind (ASSERT ''lib/string.c'' 9 (dst \<noteq> 0)) (\<lambda>_. Inr (memset_loop m dst v sz))"

function memcpy_loop :: "memory \<Rightarrow> u32 \<Rightarrow> u32 \<Rightarrow> u32 \<Rightarrow> memory" where
  "memcpy_loop m dst src sz =
     (if sz = 0 then m
      else memcpy_loop (m(dst := m src)) (dst + 1) (src + 1) (sz - 1))"
  by pat_completeness auto
termination by (relation "measure (\<lambda>(m, dst, src, sz). unat sz)") auto

definition memcpy :: "memory \<Rightarrow> u32 \<Rightarrow> u32 \<Rightarrow> u32 \<Rightarrow> kerror + memory" where
  "memcpy m dst src sz =
     sbind (ASSERT ''lib/string.c'' 18 (dst \<noteq> 0 \<and> src \<noteq> 0))
       (\<lambda>_. Inr (memcpy_loop m dst src sz))"

function memcmp_loop :: "memory \<Rightarrow> u32 \<Rightarrow> u32 \<Rightarrow> u32 \<Rightarrow> int" where
  "memcmp_loop m a b sz =
     (if sz = 0 then 0
      else if m a \<noteq> m b then (if sint (m a) > sint (m b) then 1 else -1)
      else memcmp_loop m (a + 1) (b + 1) (sz - 1))"
  by pat_completeness auto
termination by (relation "measure (\<lambda>(m, a, b, sz). unat sz)") auto

definition memcmp :: "memory \<Rightarrow> u32 \<Rightarrow> u32 \<Rightarrow> u32 \<Rightarrow> kerror + int" where
  "memcmp m a b sz =
     sbind (ASSERT ''lib/string.c'' 31 (a \<noteq> 0 \<and> b \<noteq> 0)) (\<lambda>_. Inr (memcmp_loop m a b sz))"

declare memset_loop.simps [simp del] memcpy_loop.simps [simp del] memcmp_loop.simps [simp del]

partial_function (option) strcpy_loop :: "memory \<Rightarrow> u32 \<Rightarrow> u32 \<Rightarrow> memory option" where
  "strcpy_loop m dst src =
     (if m src = 0 then Some (m(dst := m src))
      else strcpy_loop (m(dst := m src)) (dst + 1) (src + 1))"

definition strcpy :: "memory \<Rightarrow> u32 \<Rightarrow> u32 \<Rightarrow> kerror + u32 \<times> memory" where
  "strcpy m dst src =
     sbind (ASSERT ''lib/string.c'' 44 (dst \<noteq> 0 \<and> src \<noteq> 0))
       (\<lambda>_. sbind (returns (strcpy_loop m dst src)) (\<lambda>m'. Inr (dst, m')))"

text \<open>\<^verbatim>\<open>while(*p++);\<close> leaves \<open>p\<close> one past the terminator.\<close>

partial_function (option) strend_loop :: "memory \<Rightarrow> u32 \<Rightarrow> u32 option" where
  "strend_loop m p = (if m p = 0 then Some (p + 1) else strend_loop m (p + 1))"

definition strlen :: "memory \<Rightarrow> u32 \<Rightarrow> kerror + u32" where
  "strlen m str =
     sbind (ASSERT ''lib/string.c'' 52 (str \<noteq> 0))
       (\<lambda>_. sbind (returns (strend_loop m str)) (\<lambda>p. Inr (p - str - 1)))"

partial_function (option) strcmp_loop :: "memory \<Rightarrow> u32 \<Rightarrow> u32 \<Rightarrow> int option" where
  "strcmp_loop m a b =
     (if m a \<noteq> 0 \<and> m a = m b then strcmp_loop m (a + 1) (b + 1)
      else Some (if sint (m a) < sint (m b) then -1 else if sint (m a) > sint (m b) then 1 else 0))"

definition strcmp :: "memory \<Rightarrow> u32 \<Rightarrow> u32 \<Rightarrow> kerror + int" where
  "strcmp m a b =
     sbind (ASSERT ''lib/string.c'' 60 (a \<noteq> 0 \<and> b \<noteq> 0)) (\<lambda>_. returns (strcmp_loop m a b))"

text \<open>
  The searched character is a \<^verbatim>\<open>uint8_t\<close> and the string's characters are signed, so the test
  \<^verbatim>\<open>*str==ch\<close> compares a value in [-128, 127] with one in [0, 255].
\<close>

partial_function (option) strchr_loop :: "memory \<Rightarrow> u32 \<Rightarrow> u8 \<Rightarrow> u32 option" where
  "strchr_loop m str ch =
     (if m str = 0 then Some 0
      else if sint (m str) = uint ch then Some str
      else strchr_loop m (str + 1) ch)"

definition strchr :: "memory \<Rightarrow> u32 \<Rightarrow> u8 \<Rightarrow> kerror + u32" where
  "strchr m str ch =
     sbind (ASSERT ''lib/string.c'' 69 (str \<noteq> 0)) (\<lambda>_. returns (strchr_loop m str ch))"

partial_function (option) strrchr_loop :: "memory \<Rightarrow> u32 \<Rightarrow> u8 \<Rightarrow> u32 \<Rightarrow> u32 option" where
  "strrchr_loop m str ch last_char =
     (if m str = 0 then Some last_char
      else strrchr_loop m (str + 1) ch (if sint (m str) = uint ch then str else last_char))"

definition strrchr :: "memory \<Rightarrow> u32 \<Rightarrow> u8 \<Rightarrow> kerror + u32" where
  "strrchr m str ch =
     sbind (ASSERT ''lib/string.c'' 81 (str \<noteq> 0)) (\<lambda>_. returns (strrchr_loop m str ch 0))"

definition strcat :: "memory \<Rightarrow> u32 \<Rightarrow> u32 \<Rightarrow> kerror + u32 \<times> memory" where
  "strcat m dst src =
     sbind (ASSERT ''lib/string.c'' 94 (dst \<noteq> 0 \<and> src \<noteq> 0))
       (\<lambda>_. sbind (returns (strend_loop m dst))
         (\<lambda>str. sbind (returns (strcpy_loop m (str - 1) src)) (\<lambda>m'. Inr (dst, m'))))"

partial_function (option) strchrs_loop :: "memory \<Rightarrow> u32 \<Rightarrow> u8 \<Rightarrow> u32 \<Rightarrow> u32 option" where
  "strchrs_loop m p ch ch_cnt =
     (if m p = 0 then Some ch_cnt
      else strchrs_loop m (p + 1) ch (if sint (m p) = uint ch then ch_cnt + 1 else ch_cnt))"

definition strchrs :: "memory \<Rightarrow> u32 \<Rightarrow> u8 \<Rightarrow> kerror + u32" where
  "strchrs m str ch =
     sbind (ASSERT ''lib/string.c'' 104 (str \<noteq> 0)) (\<lambda>_. returns (strchrs_loop m str ch 0))"

section \<open>Counted routines\<close>

lemma memset_loop_eq: "memset_loop m dst v sz = write_bytes m dst (replicate (unat sz) v)"
proof (induction "unat sz" arbitrary: m dst sz)
  case 0
  then show ?case by (subst memset_loop.simps) (simp add: unat_eq_0)
next
  case (Suc n)
  then have nz: "sz \<noteq> 0" by auto
  then have n: "n = unat (sz - 1)" using Suc.hyps(2) by (simp add: unat_minus_one)
  have "memset_loop m dst v sz = memset_loop (m(dst := v)) (dst + 1) v (sz - 1)"
    using nz by (subst memset_loop.simps) simp
  also have "\<dots> = write_bytes (m(dst := v)) (dst + 1) (replicate n v)"
    using Suc.hyps(1) [OF n] n by simp
  finally show ?case by (simp flip: Suc.hyps(2))
qed

text \<open>
  A forward copy reads each source byte before it is overwritten when no destination byte
  lies ahead of the reading position.
\<close>

definition forward_copy_ok :: "u32 \<Rightarrow> u32 \<Rightarrow> nat \<Rightarrow> bool" where
  "forward_copy_ok dst src n \<longleftrightarrow> (\<forall>j<n. \<forall>i<j. dst + of_nat i \<noteq> src + of_nat j)"

lemma forward_copy_ok_Suc:
  assumes "forward_copy_ok dst src (Suc n)"
  shows "forward_copy_ok (dst + 1) (src + 1) n" and "dst \<notin> span (src + 1) n"
proof -
  have ne: "dst + of_nat i \<noteq> src + of_nat j" if "j < Suc n" "i < j" for i j
    using assms that unfolding forward_copy_ok_def by blast
  show "forward_copy_ok (dst + 1) (src + 1) n"
    unfolding forward_copy_ok_def
  proof (intro allI impI)
    fix i j assume "j < n" "i < j"
    then show "dst + 1 + of_nat i \<noteq> src + 1 + of_nat j"
      using ne [of "Suc j" "Suc i"] by (simp add: add.assoc)
  qed
  show "dst \<notin> span (src + 1) n"
  proof
    assume "dst \<in> span (src + 1) n"
    then obtain j where "j < n" "dst = src + 1 + of_nat j" by (auto simp: mem_span_iff)
    then show False using ne [of "Suc j" 0] by (simp add: add.assoc)
  qed
qed

lemma disjoint_forward_copy_ok:
  "span dst n \<inter> span src n = {} \<Longrightarrow> forward_copy_ok dst src n"
  unfolding forward_copy_ok_def
proof (intro allI impI notI)
  fix i j assume "span dst n \<inter> span src n = {}" "j < n" "i < j" "dst + of_nat i = src + of_nat j"
  moreover from this have "dst + of_nat i \<in> span dst n" "dst + of_nat i \<in> span src n"
    by (auto simp: mem_span_iff intro: less_trans)
  ultimately show False by blast
qed

lemma memcpy_loop_eq:
  "forward_copy_ok dst src (unat sz) \<Longrightarrow>
   memcpy_loop m dst src sz = write_bytes m dst (read_bytes m src (unat sz))"
proof (induction "unat sz" arbitrary: m dst src sz)
  case 0
  then show ?case by (subst memcpy_loop.simps) (simp add: unat_eq_0)
next
  case (Suc n)
  then have nz: "sz \<noteq> 0" by auto
  then have n: "n = unat (sz - 1)" using Suc.hyps(2) by (simp add: unat_minus_one)
  have ok: "forward_copy_ok (dst + 1) (src + 1) n" and fresh: "dst \<notin> span (src + 1) n"
    using forward_copy_ok_Suc [of dst src n] Suc.prems Suc.hyps(2) by simp_all
  have "memcpy_loop m dst src sz = memcpy_loop (m(dst := m src)) (dst + 1) (src + 1) (sz - 1)"
    using nz by (subst memcpy_loop.simps) simp
  moreover have "read_bytes (m(dst := m src)) (src + 1) n = read_bytes m (src + 1) n"
    using fresh by (intro read_bytes_cong) auto
  ultimately show ?case
    using Suc.hyps(1) [OF n, of "dst + 1" "src + 1" "m(dst := m src)"] ok
    by (simp flip: Suc.hyps(2) n)
qed

text \<open>The meaning of \<^verbatim>\<open>memcmp\<close> on byte lists of equal length.\<close>

fun bytes_cmp :: "u8 list \<Rightarrow> u8 list \<Rightarrow> int" where
  "bytes_cmp (x # xs) (y # ys) =
     (if x = y then bytes_cmp xs ys else if sint x > sint y then 1 else -1)"
| "bytes_cmp _ _ = 0"

lemma memcmp_loop_eq:
  "memcmp_loop m a b sz = bytes_cmp (read_bytes m a (unat sz)) (read_bytes m b (unat sz))"
proof (induction "unat sz" arbitrary: a b sz)
  case 0
  then show ?case by (subst memcmp_loop.simps) (simp add: unat_eq_0)
next
  case (Suc n)
  then have nz: "sz \<noteq> 0" by auto
  then have n: "n = unat (sz - 1)" using Suc.hyps(2) by (simp add: unat_minus_one)
  show ?case
    using nz Suc.hyps(1) [OF n, of "a + 1" "b + 1"]
    by (subst memcmp_loop.simps) (simp flip: Suc.hyps(2) n)
qed

lemma bytes_cmp_0_iff: "length xs = length ys \<Longrightarrow> bytes_cmp xs ys = 0 \<longleftrightarrow> xs = ys"
  by (induction xs ys rule: list_induct2) auto

lemma sint_u8_eq_iff: "sint (x :: u8) = sint y \<longleftrightarrow> x = y"
  by (rule signed_word_eqI [THEN iffI]) auto

lemma bytes_cmp_antisym: "length xs = length ys \<Longrightarrow> bytes_cmp ys xs = - bytes_cmp xs ys"
proof (induction xs ys rule: list_induct2)
  case Nil
  then show ?case by simp
next
  case (Cons x xs y ys)
  have "sint x \<noteq> sint y" if "x \<noteq> y" using that by (simp add: sint_u8_eq_iff)
  with Cons show ?case by auto
qed

section \<open>Zero-terminated strings\<close>

text \<open>\<open>cstr m p bs\<close>: the bytes \<open>bs\<close>, none of them zero, and then a zero byte stand at \<open>p\<close>.\<close>

fun cstr :: "memory \<Rightarrow> u32 \<Rightarrow> u8 list \<Rightarrow> bool" where
  "cstr m p [] \<longleftrightarrow> m p = 0"
| "cstr m p (b # bs) \<longleftrightarrow> b \<noteq> 0 \<and> m p = b \<and> cstr m (p + 1) bs"

lemma cstr_nth: "cstr m p bs \<Longrightarrow> i < length bs \<Longrightarrow> m (p + of_nat i) = bs ! i \<and> bs ! i \<noteq> 0"
  by (induction bs arbitrary: p i) (auto simp: less_Suc_eq_0_disj simp flip: add.assoc)

lemma cstr_end: "cstr m p bs \<Longrightarrow> m (p + of_nat (length bs)) = 0"
  by (induction bs arbitrary: p) (auto simp flip: add.assoc)

text \<open>A terminated string is shorter than the address space: its terminator is not one of its bytes.\<close>

lemma cstr_length: "cstr m p bs \<Longrightarrow> length bs < 4294967296"
proof (rule ccontr)
  assume c: "cstr m p bs" and "\<not> length bs < 4294967296"
  then have "unat (of_nat (length bs) :: u32) < length bs"
    using unsigned_less [of "of_nat (length bs) :: u32", where 'a = nat] by simp
  then show False using cstr_nth [OF c, of "unat (of_nat (length bs) :: u32)"] cstr_end [OF c]
    by simp
qed

lemma cstr_cong: "(\<And>a. a \<in> span p (Suc (length bs)) \<Longrightarrow> m a = m' a) \<Longrightarrow> cstr m p bs \<longleftrightarrow> cstr m' p bs"
proof (induction bs arbitrary: p)
  case (Cons b bs)
  have "cstr m (p + 1) bs \<longleftrightarrow> cstr m' (p + 1) bs"
    by (rule Cons.IH) (simp add: Cons.prems span_Suc [of p])
  with Cons.prems [of p] show ?case by (simp add: span_Suc)
qed (simp add: span_Suc)

lemma cstr_unique: "cstr m p as \<Longrightarrow> cstr m p bs \<Longrightarrow> as = bs"
  by (induction as arbitrary: p bs) (case_tac bs; auto)+

lemma cstr_append: "cstr m p (as @ bs) \<longleftrightarrow> (\<forall>b \<in> set as. b \<noteq> 0) \<and>
    read_bytes m p (length as) = as \<and> cstr m (p + of_nat (length as)) bs"
  by (induction as arbitrary: p) (auto simp: add.assoc)

lemma read_bytes_cstr: "cstr m p bs \<Longrightarrow> read_bytes m p (length bs) = bs \<and> (\<forall>b \<in> set bs. b \<noteq> 0)"
  by (induction bs arbitrary: p) auto

lemma read_bytes_Suc_snoc: "read_bytes m p (Suc n) = read_bytes m p n @ [m (p + of_nat n)]"
proof (induction n arbitrary: p)
  case (Suc n)
  from Suc [of "p + 1"] show ?case by (simp add: add.assoc)
qed simp

lemma cstr_iff_read_bytes:
  "cstr m p bs \<longleftrightarrow> read_bytes m p (Suc (length bs)) = bs @ [0] \<and> 0 \<notin> set bs"
  using cstr_append [of m p bs "[]"] by (auto simp: read_bytes_Suc_snoc simp del: read_bytes.simps(2))

lemma cstr_write_bytes:
  "0 \<notin> set bs \<Longrightarrow> length bs < 2 ^ 32 - 1 \<Longrightarrow> cstr (write_bytes m p (bs @ [0])) p bs"
  using read_write_bytes [of "bs @ [0]" m p]
  by (simp add: cstr_iff_read_bytes del: read_bytes.simps(2))

lemma cstr_length_less: "cstr m p bs \<Longrightarrow> length bs < 2 ^ 32"
  using cstr_length by simp

subsection \<open>The scanning loops\<close>

lemma strend_loop_cstr: "cstr m p bs \<Longrightarrow> strend_loop m p = Some (p + of_nat (length bs) + 1)"
proof (induction bs arbitrary: p)
  case Nil
  then show ?case by (subst strend_loop.simps) simp
next
  case (Cons b bs)
  then show ?case by (subst strend_loop.simps) (auto simp: ac_simps)
qed

text \<open>The meaning of \<^verbatim>\<open>strcmp\<close> on byte lists; the terminator takes part in the last comparison.\<close>

fun chars_cmp :: "u8 list \<Rightarrow> u8 list \<Rightarrow> int" where
  "chars_cmp [] [] = 0"
| "chars_cmp [] (y # ys) = (if 0 < sint y then -1 else 1)"
| "chars_cmp (x # xs) [] = (if sint x < 0 then -1 else 1)"
| "chars_cmp (x # xs) (y # ys) =
     (if x = y then chars_cmp xs ys else if sint x < sint y then -1 else 1)"

lemma sint_nz: "(x :: u8) \<noteq> 0 \<Longrightarrow> sint x \<noteq> 0"
  using sint_u8_eq_iff [of x 0] by simp

lemma strcmp_loop_cstr:
  "cstr m a xs \<Longrightarrow> cstr m b ys \<Longrightarrow> strcmp_loop m a b = Some (chars_cmp xs ys)"
proof (induction xs ys arbitrary: a b rule: chars_cmp.induct)
  case 1
  then show ?case by (subst strcmp_loop.simps) simp
next
  case (2 y ys)
  then show ?case using sint_nz [of y] by (subst strcmp_loop.simps) auto
next
  case (3 x xs)
  then show ?case using sint_nz [of x] by (subst strcmp_loop.simps) auto
next
  case (4 x xs y ys)
  then show ?case using sint_u8_eq_iff [of x y] by (subst strcmp_loop.simps) auto
qed

lemma chars_cmp_0_iff:
  "0 \<notin> set xs \<Longrightarrow> 0 \<notin> set ys \<Longrightarrow> chars_cmp xs ys = 0 \<longleftrightarrow> xs = ys"
  by (induction xs ys rule: chars_cmp.induct) auto

text \<open>A character below 128 keeps its value when \<^verbatim>\<open>char\<close> is signed; the others turn negative.\<close>

lemma sint_u8: "sint (x :: u8) = (if x < 128 then uint x else uint x - 256)"
proof -
  have lt: "0 \<le> uint x" "uint x < 256" using uint_lt2p [of x] by simp_all
  have "sint x = (uint x + 128) mod 256 - 128"
    by (simp add: sint_uint signed_take_bit_eq_take_bit_shift take_bit_eq_mod)
  also have "\<dots> = (if uint x < 128 then uint x else uint x - 256)"
  proof (cases "uint x < 128")
    case True
    with lt show ?thesis by simp
  next
    case False
    have "uint x + 128 = uint x - 128 + 256" by arith
    then have "(uint x + 128) mod 256 = (uint x - 128) mod 256" by (simp only: mod_add_self2)
    then show ?thesis using False lt by simp
  qed
  finally show ?thesis by (simp add: word_less_def)
qed

lemma sint_eq_uint_iff: "sint (x :: u8) = uint ch \<longleftrightarrow> x = ch \<and> ch < 128"
proof (cases "x < 128")
  case True
  then show ?thesis by (auto simp: sint_u8 dest: unsigned_word_eqI)
next
  case False
  have "uint x < 256" using uint_lt2p [of x] by simp
  then have "sint x < 0" using False by (simp add: sint_u8)
  moreover have "0 \<le> uint ch" by simp
  ultimately show ?thesis using False by auto
qed

lemma chars_cmp_lexord:
  "\<forall>x \<in> set xs. x < 128 \<and> x \<noteq> 0 \<Longrightarrow> \<forall>y \<in> set ys. y < 128 \<and> y \<noteq> 0 \<Longrightarrow>
   chars_cmp xs ys = -1 \<longleftrightarrow> (xs, ys) \<in> lexord {(x, y). x < y}"
proof (induction xs ys rule: chars_cmp.induct)
  case (2 y ys)
  have "0 < uint y" using 2 by (simp add: word_neq_0_conv word_less_def)
  with 2 show ?case by (simp add: sint_u8)
qed (auto simp: sint_u8 word_less_def)

lemma strchr_loop_cstr:
  "cstr m p bs \<Longrightarrow> strchr_loop m p ch =
     Some (if ch \<in> set bs \<and> ch < 128 then p + of_nat (length (takeWhile (\<lambda>b. b \<noteq> ch) bs)) else 0)"
proof (induction bs arbitrary: p)
  case Nil
  then show ?case by (subst strchr_loop.simps) simp
next
  case (Cons b bs)
  then have IH: "strchr_loop m (p + 1) ch =
     Some (if ch \<in> set bs \<and> ch < 128 then p + 1 + of_nat (length (takeWhile (\<lambda>b. b \<noteq> ch) bs)) else 0)"
    by simp
  from Cons.prems show ?case
    by (subst strchr_loop.simps) (auto simp: sint_eq_uint_iff IH)
qed

lemma length_takeWhile_less_rev:
  assumes "ch \<in> set bs"
  shows "length (takeWhile (\<lambda>b. b \<noteq> ch) (rev bs)) < length bs"
proof -
  from assms have "dropWhile (\<lambda>b. b \<noteq> ch) (rev bs) \<noteq> []" by (simp add: dropWhile_eq_Nil_conv)
  then have "0 < length (dropWhile (\<lambda>b. b \<noteq> ch) (rev bs))" by blast
  moreover have "length (takeWhile (\<lambda>b. b \<noteq> ch) (rev bs)) +
      length (dropWhile (\<lambda>b. b \<noteq> ch) (rev bs)) = length bs"
    by (metis length_append length_rev takeWhile_dropWhile_id)
  ultimately show ?thesis by linarith
qed

lemma strrchr_loop_cstr:
  "cstr m p bs \<Longrightarrow> strrchr_loop m p ch l =
     Some (if ch \<in> set bs \<and> ch < 128
           then p + of_nat (length bs - Suc (length (takeWhile (\<lambda>b. b \<noteq> ch) (rev bs)))) else l)"
proof (induction bs arbitrary: p l)
  case Nil
  then show ?case by (subst strrchr_loop.simps) simp
next
  case (Cons b bs)
  have tw: "length (takeWhile (\<lambda>b. b \<noteq> ch) (rev bs)) < length bs" if "ch \<in> set bs"
    using that length_takeWhile_less_rev [of ch bs] by simp
  have all: "takeWhile (\<lambda>b. b \<noteq> ch) (rev bs @ [b]) = rev bs @ takeWhile (\<lambda>b. b \<noteq> ch) [b]"
    if "ch \<notin> set bs"
    using that by (subst takeWhile_append2) auto
  have some: "takeWhile (\<lambda>b. b \<noteq> ch) (rev bs @ [b]) = takeWhile (\<lambda>b. b \<noteq> ch) (rev bs)"
    if "ch \<in> set bs"
    using that by (intro takeWhile_append1 [of ch]) auto
  from Cons.prems have "strrchr_loop m p ch l =
      strrchr_loop m (p + 1) ch (if sint b = uint ch then p else l)"
    by (subst strrchr_loop.simps) auto
  also have "\<dots> = Some (if ch \<in> set bs \<and> ch < 128
           then p + 1 + of_nat (length bs - Suc (length (takeWhile (\<lambda>b. b \<noteq> ch) (rev bs))))
           else if sint b = uint ch then p else l)"
    using Cons by simp
  finally show ?case
    using tw all some by (cases "ch \<in> set bs") (auto simp: sint_eq_uint_iff Suc_diff_Suc add.assoc)
qed

lemma strchrs_loop_cstr:
  "cstr m p bs \<Longrightarrow> strchrs_loop m p ch n =
     Some (n + (if ch < 128 then of_nat (count_list bs ch) else 0))"
proof (induction bs arbitrary: p n)
  case Nil
  then show ?case by (subst strchrs_loop.simps) simp
next
  case (Cons b bs)
  then show ?case by (subst strchrs_loop.simps) (auto simp: sint_eq_uint_iff)
qed

subsection \<open>The copying loops\<close>

lemma strcpy_loop_cstr:
  "cstr m src bs \<Longrightarrow> forward_copy_ok dst src (Suc (length bs)) \<Longrightarrow>
   strcpy_loop m dst src = Some (write_bytes m dst (bs @ [0]))"
proof (induction bs arbitrary: m dst src)
  case Nil
  then show ?case by (subst strcpy_loop.simps) simp
next
  case (Cons b bs)
  have fresh: "dst \<notin> span (src + 1) (Suc (length bs))"
    and ok: "forward_copy_ok (dst + 1) (src + 1) (Suc (length bs))"
    using forward_copy_ok_Suc [of dst src "Suc (length bs)"] Cons.prems(2) by simp_all
  have "cstr (m(dst := b)) (src + 1) bs"
    using Cons.prems(1) fresh by (subst cstr_cong [of "src + 1" bs _ m]) auto
  then have "strcpy_loop (m(dst := b)) (dst + 1) (src + 1) =
      Some (write_bytes (m(dst := b)) (dst + 1) (bs @ [0]))"
    using Cons.IH ok by blast
  then show ?case using Cons.prems(1) by (subst strcpy_loop.simps) auto
qed

lemma write_bytes_replicate:
  "n \<le> 2 ^ 32 \<Longrightarrow> write_bytes m p (replicate n v) = (\<lambda>a. if a \<in> span p n then v else m a)"
  by (induction n arbitrary: m p) (auto simp: span_Suc)

subsection \<open>Termination of the scans\<close>

lemma strend_loop_cstrD: "strend_loop m p = Some q \<Longrightarrow> \<exists>bs. cstr m p bs"
proof (rule strend_loop.raw_induct [where P = "\<lambda>m p q. \<exists>bs. cstr m p bs"])
  fix f :: "memory \<Rightarrow> u32 \<Rightarrow> u32 option" and m p q
  assume IH: "\<And>m p q. f m p = Some q \<Longrightarrow> \<exists>bs. cstr m p bs"
    and eq: "(if m p = 0 then Some (p + 1) else f m (p + 1)) = Some q"
  show "\<exists>bs. cstr m p bs"
  proof (cases "m p = 0")
    case True
    then have "cstr m p []" by simp
    then show ?thesis by blast
  next
    case False
    with eq have "f m (p + 1) = Some q" by simp
    from IH [OF this] obtain bs where "cstr m (p + 1) bs" by blast
    with False have "cstr m p (m p # bs)" by simp
    then show ?thesis by blast
  qed
qed

lemma cstr_of_zero: "m (p + of_nat n) = 0 \<Longrightarrow> \<exists>bs. cstr m p bs"
proof (induction n arbitrary: p)
  case 0
  then have "cstr m p []" by simp
  then show ?case by blast
next
  case (Suc n)
  show ?case
  proof (cases "m p = 0")
    case True
    then have "cstr m p []" by simp
    then show ?thesis by blast
  next
    case False
    obtain bs where "cstr m (p + 1) bs"
      using Suc.IH [of "p + 1"] Suc.prems by (auto simp: add.assoc)
    with False have "cstr m p (m p # bs)" by simp
    then show ?thesis by blast
  qed
qed

lemma ex_cstr_iff: "(\<exists>bs. cstr m p bs) \<longleftrightarrow> (\<exists>a. m a = 0)"
proof
  assume "\<exists>a. m a = 0"
  then obtain a where "m a = 0" by blast
  then have "m (p + of_nat (unat (a - p))) = 0" by simp
  then show "\<exists>bs. cstr m p bs" by (rule cstr_of_zero)
qed (use cstr_end in blast)

section \<open>What the routines do\<close>

text \<open>
  \<^verbatim>\<open>memset\<close> stops at a null destination and otherwise returns with exactly the \<open>size\<close>
  bytes from the destination on set to the value, every other byte of memory untouched.
\<close>

lemma memset_fills:
  "memset m dst v sz =
     (if dst = 0 then Inl (Panic ''lib/string.c'' 9)
      else Inr (\<lambda>a. if a \<in> span dst (unat sz) then v else m a))"
  using unsigned_less [of sz, where 'a = nat]
  by (simp add: memset_def memset_loop_eq write_bytes_replicate)

text \<open>
  \<^verbatim>\<open>memcpy\<close> between non-null pointers returns; when no destination byte lies ahead of the
  reading position (disjoint regions, or an overlap with the destination below the source) the
  destination then holds the source's old bytes and nothing else has changed.
\<close>

lemma memcpy_copies:
  assumes "dst \<noteq> 0" "src \<noteq> 0" "forward_copy_ok dst src (unat sz)"
  shows "\<exists>m'. memcpy m dst src sz = Inr m' \<and>
    read_bytes m' dst (unat sz) = read_bytes m src (unat sz) \<and>
    (\<forall>a. a \<notin> span dst (unat sz) \<longrightarrow> m' a = m a)"
proof -
  let ?bs = "read_bytes m src (unat sz)"
  have "unat sz < 2 ^ 32" using unsigned_less [of sz, where 'a = nat] by simp
  then have "read_bytes (write_bytes m dst ?bs) dst (unat sz) = ?bs"
    using read_write_bytes [of ?bs m dst] by simp
  moreover have "memcpy m dst src sz = Inr (write_bytes m dst ?bs)"
    using assms by (simp add: memcpy_def memcpy_loop_eq)
  ultimately show ?thesis by simp
qed

lemma memcpy_copies_example:
  "\<exists>m'. memcpy (\<lambda>a. ucast a) 8 16 3 = Inr m' \<and>
    read_bytes m' 8 3 = [16, 17, 18] \<and> (\<forall>a. a \<notin> span 8 3 \<longrightarrow> m' a = ucast a)"
proof -
  have "forward_copy_ok 8 16 3" by (rule disjoint_forward_copy_ok) simp
  then show ?thesis
    using memcpy_copies [of 8 16 3 "\<lambda>a. ucast a"] by simp
qed

text \<open>
  \<^verbatim>\<open>memcmp\<close> of non-null pointers returns one of -1, 0 and 1: 0 exactly when the two regions
  hold the same bytes, the opposite sign when the arguments are swapped, and otherwise the order,
  as signed characters, of the first two bytes that differ.
\<close>

lemma memcmp_compares:
  assumes "a \<noteq> 0" "b \<noteq> 0"
  shows "\<exists>r. memcmp m a b sz = Inr r \<and> memcmp m b a sz = Inr (- r) \<and>
    (r = 0 \<longleftrightarrow> read_bytes m a (unat sz) = read_bytes m b (unat sz)) \<and>
    (\<forall>i<unat sz. read_bytes m a i = read_bytes m b i \<and> m (a + of_nat i) \<noteq> m (b + of_nat i) \<longrightarrow>
       r = (if sint (m (a + of_nat i)) > sint (m (b + of_nat i)) then 1 else -1))"
proof -
  have first: "bytes_cmp (read_bytes m a n) (read_bytes m b n) =
      (if sint (m (a + of_nat i)) > sint (m (b + of_nat i)) then 1 else -1)"
    if "i < n" "read_bytes m a i = read_bytes m b i" "m (a + of_nat i) \<noteq> m (b + of_nat i)"
    for i n a b
    using that
  proof (induction n arbitrary: i a b)
    case (Suc n)
    show ?case
    proof (cases i)
      case (Suc j)
      with Suc.prems have "m a = m b" "read_bytes m (a + 1) j = read_bytes m (b + 1) j" "j < n"
        "m (a + 1 + of_nat j) \<noteq> m (b + 1 + of_nat j)" by (simp_all add: add.assoc)
      with Suc.IH [of j "a + 1" "b + 1"] Suc show ?thesis by (simp add: add.assoc)
    qed (use Suc.prems in simp)
  qed simp
  show ?thesis
    using assms bytes_cmp_0_iff [of "read_bytes m a (unat sz)" "read_bytes m b (unat sz)"]
      bytes_cmp_antisym [of "read_bytes m a (unat sz)" "read_bytes m b (unat sz)"] first
    by (simp add: memcmp_def memcmp_loop_eq)
qed

lemma memcmp_compares_example:
  "\<exists>r. memcmp (\<lambda>a. if a < 20 then 1 else 255) 18 10 4 = Inr r \<and> r = -1"
proof -
  let ?m = "\<lambda>a::u32. if a < 20 then 1 else 255 :: u8"
  from memcmp_compares [of 18 10 ?m 4]
  obtain r where r: "memcmp ?m 18 10 4 = Inr r" and f: "\<forall>i<unat (4::u32).
      read_bytes ?m 18 i = read_bytes ?m 10 i \<and> ?m (18 + of_nat i) \<noteq> ?m (10 + of_nat i) \<longrightarrow>
       r = (if sint (?m (18 + of_nat i)) > sint (?m (10 + of_nat i)) then 1 else -1)"
    by auto
  from f [rule_format, of 2] have "r = -1" by simp
  with r show ?thesis by blast
qed

text \<open>
  C40: \<^verbatim>\<open>strlen\<close> of a non-null pointer returns unless no byte of the whole address space is
  zero, in which case it loops forever; what it returns is the number of bytes before the first
  zero byte.
\<close>

theorem strlen_counts:
  assumes "p \<noteq> 0"
  shows "(strlen m p = Inl Hang \<longleftrightarrow> (\<forall>a. m a \<noteq> 0)) \<and>
    (\<forall>bs. cstr m p bs \<longrightarrow> (\<exists>n. strlen m p = Inr n \<and> unat n = length bs))"
proof -
  have none: "strend_loop m p = None \<longleftrightarrow> (\<forall>a. m a \<noteq> 0)"
    using ex_cstr_iff [of m p] strend_loop_cstrD [of m p] strend_loop_cstr [of m p]
    by (metis not_None_eq)
  have val: "\<exists>n. strlen m p = Inr n \<and> unat n = length bs" if "cstr m p bs" for bs
    using assms strend_loop_cstr [OF that] cstr_length [OF that] by (simp add: strlen_def)
  have "strlen m p = Inl Hang \<longleftrightarrow> strend_loop m p = None"
    using assms by (cases "strend_loop m p") (simp_all add: strlen_def)
  then show ?thesis by (simp add: none val)
qed

theorem strlen_counts_witness:
  "\<exists>n. strlen (\<lambda>a. if a < 3 then 65 else 0) 1 = Inr n \<and> unat n = 2"
  using strlen_counts [of 1 "\<lambda>a. if a < 3 then 65 else 0"]
  by (auto dest!: spec [of _ "[65, 65]"])

text \<open>
  \<^verbatim>\<open>strcpy\<close> of a terminated string to a region that does not run into the unread part of
  the source returns the destination; the string then stands there with its terminator and no
  byte outside the copied region has changed.
\<close>

lemma strcpy_copies:
  assumes "dst \<noteq> 0" "src \<noteq> 0" "cstr m src bs" "forward_copy_ok dst src (Suc (length bs))"
    "length bs < 2 ^ 32 - 1"
  shows "\<exists>m'. strcpy m dst src = Inr (dst, m') \<and> cstr m' dst bs \<and>
    (\<forall>a. a \<notin> span dst (Suc (length bs)) \<longrightarrow> m' a = m a)"
proof -
  have "cstr (write_bytes m dst (bs @ [0])) dst bs"
    using cstr_write_bytes assms(3,5) read_bytes_cstr by fastforce
  with assms show ?thesis by (simp add: strcpy_def strcpy_loop_cstr)
qed

lemma strcpy_copies_example:
  "\<exists>m'. strcpy (\<lambda>a. if a < 3 then 65 else 0) 16 1 = Inr (16, m') \<and> cstr m' 16 [65, 65] \<and> m' 1 = 65"
proof -
  have "forward_copy_ok 16 1 3" by (rule disjoint_forward_copy_ok) simp
  then show ?thesis
    using strcpy_copies [of 16 1 "\<lambda>a. if a < 3 then 65 else 0" "[65, 65]"]
    by (auto simp: span_Suc numeral_3_eq_3 [symmetric])
qed

text \<open>
  \<^verbatim>\<open>strcat\<close> returns the destination with the source string appended: the terminator of the
  destination is overwritten by the source's characters and a new terminator, and only those bytes
  change.
\<close>

lemma strcat_appends:
  assumes "dst \<noteq> 0" "src \<noteq> 0" "cstr m dst as" "cstr m src bs"
    "span (dst + of_nat (length as)) (Suc (length bs)) \<inter> span src (Suc (length bs)) = {}"
    "length as + length bs < 2 ^ 32 - 1"
  shows "\<exists>m'. strcat m dst src = Inr (dst, m') \<and> cstr m' dst (as @ bs) \<and>
    (\<forall>a. a \<notin> span (dst + of_nat (length as)) (Suc (length bs)) \<longrightarrow> m' a = m a)"
proof -
  let ?e = "dst + of_nat (length as)"
  let ?m = "write_bytes m ?e (bs @ [0])"
  have run: "strcat m dst src = Inr (dst, ?m)"
    using assms strcpy_loop_cstr [OF assms(4) disjoint_forward_copy_ok [OF assms(5)]]
    by (simp add: strcat_def strend_loop_cstr)
  have bs: "0 \<notin> set bs" and as: "0 \<notin> set as" "read_bytes m dst (length as) = as"
    using read_bytes_cstr [OF assms(3)] read_bytes_cstr [OF assms(4)] by auto
  have "read_bytes ?m dst (length as) = read_bytes m dst (length as)"
  proof (rule read_bytes_cong)
    fix a assume "a \<in> span dst (length as)"
    then obtain i where i: "i < length as" "a = dst + of_nat i" by (auto simp: mem_span_iff)
    have "a \<notin> span ?e (length (bs @ [0]))"
    proof
      assume "a \<in> span ?e (length (bs @ [0]))"
      then obtain j where j: "j < Suc (length bs)" "a = ?e + of_nat j" by (auto simp: mem_span_iff)
      with i have "(of_nat i :: u32) = of_nat (length as + j)" by (simp add: add.assoc)
      then show False using i j assms(6) of_nat_u32_eq_iff [of i "length as + j"] by simp
    qed
    then show "?m a = m a" by (rule write_bytes_outside)
  qed
  moreover have "cstr ?m ?e bs" using bs assms(6) by (intro cstr_write_bytes) simp_all
  ultimately have "cstr ?m dst (as @ bs)" using as by (auto simp: cstr_append)
  with run show ?thesis by simp
qed

lemma strcat_appends_example:
  "\<exists>m'. strcat (\<lambda>a. if a = 1 then 65 else if a = 9 then 66 else 0) 1 9 = Inr (1, m') \<and>
    cstr m' 1 [65, 66]"
  using strcat_appends [of 1 9 "\<lambda>a. if a = 1 then 65 else if a = 9 then 66 else 0" "[65]" "[66]"]
  by (auto simp: span_Suc)

text \<open>
  \<^verbatim>\<open>strcmp\<close> of two terminated strings returns 0 exactly when they are equal, and, when all
  their characters are below 128, -1 exactly when the first is lexicographically smaller.
\<close>

lemma strcmp_compares:
  assumes "a \<noteq> 0" "b \<noteq> 0" "cstr m a as" "cstr m b bs"
  shows "\<exists>r. strcmp m a b = Inr r \<and> (r = 0 \<longleftrightarrow> as = bs) \<and>
    ((\<forall>c \<in> set as \<union> set bs. c < 128) \<longrightarrow> (r = -1 \<longleftrightarrow> (as, bs) \<in> lexord {(x, y). x < y}))"
proof -
  have "0 \<notin> set as" "0 \<notin> set bs"
    using read_bytes_cstr [OF assms(3)] read_bytes_cstr [OF assms(4)] by auto
  with assms show ?thesis
    using chars_cmp_0_iff [of as bs] chars_cmp_lexord [of as bs]
    by (auto simp: strcmp_def strcmp_loop_cstr)
qed

lemma strcmp_compares_example:
  "\<exists>r. strcmp (\<lambda>a. if a = 1 then 65 else if a = 9 then 66 else 0) 1 9 = Inr r \<and> r \<noteq> 0"
  using strcmp_compares [of 1 9 "\<lambda>a. if a = 1 then 65 else if a = 9 then 66 else 0" "[65]" "[66]"]
  by auto

text \<open>
  On a terminated string, \<^verbatim>\<open>strchr\<close> returns the address of the first occurrence of the
  character, \<^verbatim>\<open>strrchr\<close> that of the last and \<^verbatim>\<open>strchrs\<close> the number of occurrences; but
  only characters below 128 are ever found, since \<^verbatim>\<open>*str\<close> is signed and the searched
  character is not.
\<close>

lemma strchr_family:
  assumes "p \<noteq> 0" "cstr m p bs"
  shows "(ch \<notin> set bs \<or> 128 \<le> ch \<longrightarrow>
      strchr m p ch = Inr 0 \<and> strrchr m p ch = Inr 0 \<and> strchrs m p ch = Inr 0) \<and>
    (ch \<in> set bs \<and> ch < 128 \<longrightarrow>
      (\<exists>us vs. bs = us @ ch # vs \<and> ch \<notin> set us \<and> strchr m p ch = Inr (p + of_nat (length us))) \<and>
      (\<exists>us vs. bs = us @ ch # vs \<and> ch \<notin> set vs \<and> strrchr m p ch = Inr (p + of_nat (length us))) \<and>
      strchrs m p ch = Inr (of_nat (count_list bs ch)))"
proof -
  have first: "\<exists>us vs. bs = us @ ch # vs \<and> ch \<notin> set us \<and> strchr m p ch = Inr (p + of_nat (length us))"
    if ch: "ch \<in> set bs" "ch < 128"
  proof -
    from split_list_first [OF ch(1)] obtain us vs where "bs = us @ ch # vs" "ch \<notin> set us" by blast
    moreover from this have "takeWhile (\<lambda>b. b \<noteq> ch) bs = us" by (auto simp: takeWhile_tail)
    ultimately show ?thesis using assms ch by (auto simp: strchr_def strchr_loop_cstr)
  qed
  have last: "\<exists>us vs. bs = us @ ch # vs \<and> ch \<notin> set vs \<and> strrchr m p ch = Inr (p + of_nat (length us))"
    if ch: "ch \<in> set bs" "ch < 128"
  proof -
    from split_list_last [OF ch(1)] obtain us vs where "bs = us @ ch # vs" "ch \<notin> set vs" by blast
    moreover from this have "takeWhile (\<lambda>b. b \<noteq> ch) (rev bs) = rev vs"
      by (auto simp: takeWhile_tail)
    ultimately show ?thesis using assms ch by (auto simp: strrchr_def strrchr_loop_cstr)
  qed
  have "count_list bs ch = 0" if "ch \<notin> set bs" using that by (induction bs) auto
  with first last show ?thesis
    using assms
    by (auto simp: strchr_def strchr_loop_cstr strrchr_def strrchr_loop_cstr strchrs_def
        strchrs_loop_cstr)
qed

lemma strchr_family_example:
  "strchr (\<lambda>a. if a < 3 then 200 else 0) 1 200 = Inr 0 \<and>
   strchrs (\<lambda>a. if a < 3 then 65 else 0) 1 65 = Inr 2"
  using strchr_family [of 1 "\<lambda>a. if a < 3 then 200 else 0" "[200, 200]" 200]
    strchr_family [of 1 "\<lambda>a. if a < 3 then 65 else 0" "[65, 65]" 65]
  by simp

end
