(* ===== verification/Bitmap.thy ===== *)
theory Bitmap
  imports CString
begin

text \<open>
  The bitmaps of \<^verbatim>\<open>src/lib/bitmap.c\<close> and \<^verbatim>\<open>src/lib/bitmap.h\<close>: a length in bytes and a
  pointer to the bits in the byte memory. The lemmas give the meaning of the three operations on
  bit numbers, the first-fit behaviour of \<^verbatim>\<open>bitmap_scan\<close> and the interface \<open>bit_pool\<close> that the
  page allocators of \<^verbatim>\<open>kernel/memory.c\<close> rely on.
\<close>

section \<open>bitmap.c\<close>

record bitmap =
  btmp_bytes_len :: u32
  bits :: u32

definition BITMAP_MASK :: u32 where
  "BITMAP_MASK = 1"

definition bitmap_init :: "bitmap \<Rightarrow> memory \<Rightarrow> kerror + memory" where
  "bitmap_init btmp m = memset m (bits btmp) 0 (btmp_bytes_len btmp)"

definition bitmap_scan_test :: "bitmap \<Rightarrow> u32 \<Rightarrow> memory \<Rightarrow> u32" where
  "bitmap_scan_test btmp bit_idx m =
     (let byte_idx = bit_idx div 8; bit_odd = bit_idx mod 8
      in ucast (m (bits btmp + byte_idx)) AND push_bit (unat bit_odd) BITMAP_MASK)"

text \<open>
  The three loops of \<^verbatim>\<open>bitmap_scan\<close>: skip the full bytes (the byte is read before the index is
  compared with the length, as in the source), find the clear bit in the byte, and look for a run
  of \<open>cnt\<close> clear bits from there on.
\<close>

function scan_byte :: "bitmap \<Rightarrow> memory \<Rightarrow> u32 \<Rightarrow> u32" where
  "scan_byte btmp m idx_byte =
     (if m (bits btmp + idx_byte) = 0xff \<and> idx_byte < btmp_bytes_len btmp
      then scan_byte btmp m (idx_byte + 1) else idx_byte)"
  by pat_completeness auto
termination
proof (relation "measure (\<lambda>(btmp, m, i). unat (btmp_bytes_len btmp) - unat i)")
  fix btmp :: bitmap and m :: memory and i :: u32
  assume "m (bits btmp + i) = 0xff \<and> i < btmp_bytes_len btmp"
  then have "i < btmp_bytes_len btmp" by simp
  moreover from this have "unat (i + 1) = Suc (unat i)"
    by (rule unat_Suc_less)
  ultimately show "((btmp, m, i + 1), (btmp, m, i))
      \<in> measure (\<lambda>(btmp, m, i). unat (btmp_bytes_len btmp) - unat i)"
    by (simp add: word_less_nat_alt)
qed simp

lemma mask_bit_iff: "(push_bit k BITMAP_MASK AND ucast (byte :: u8)) \<noteq> 0 \<longleftrightarrow> k < 8 \<and> bit byte k"
proof -
  have "(push_bit k BITMAP_MASK AND ucast byte) = (ucast byte :: u32) AND 2 ^ k"
    by (simp add: BITMAP_MASK_def and.commute push_bit_eq_mult)
  moreover have "bit (ucast byte :: u32) k \<longleftrightarrow> k < 8 \<and> bit byte k"
    by (auto simp: bit_ucast_iff dest: bit_imp_le_length)
  ultimately show ?thesis by (simp add: and_exp_eq_0_iff_not_bit)
qed

function scan_bit :: "u8 \<Rightarrow> nat \<Rightarrow> nat" where
  "scan_bit byte idx_bit =
     (if (push_bit idx_bit BITMAP_MASK AND ucast byte) \<noteq> 0
      then scan_bit byte (idx_bit + 1) else idx_bit)"
  by pat_completeness auto
termination
  by (relation "measure (\<lambda>(byte, k). 8 - k)") (auto simp: mask_bit_iff)

function scan_run :: "bitmap \<Rightarrow> memory \<Rightarrow> u32 \<Rightarrow> u32 \<Rightarrow> u32 \<Rightarrow> u32 \<Rightarrow> u32" where
  "scan_run btmp m cnt bit_left next_bit count =
     (if bit_left = 0 then -1
      else
        let count = (if bitmap_scan_test btmp next_bit m = 0 then count + 1 else 0)
        in if count = cnt then next_bit - cnt + 1
           else scan_run btmp m cnt (bit_left - 1) (next_bit + 1) count)"
  by pat_completeness auto
termination
  by (relation "measure (\<lambda>(btmp, m, cnt, bit_left, next_bit, count). unat bit_left)") auto

declare scan_byte.simps [simp del] scan_bit.simps [simp del] scan_run.simps [simp del]

definition bitmap_scan :: "bitmap \<Rightarrow> u32 \<Rightarrow> memory \<Rightarrow> kerror + u32" where
  "bitmap_scan btmp cnt m =
     (let idx_byte = scan_byte btmp m 0
      in sbind (ASSERT ''lib/bitmap.c'' 27 (idx_byte < btmp_bytes_len btmp)) (\<lambda>_.
           if idx_byte = btmp_bytes_len btmp then Inr (-1)
           else
             let idx_bit = scan_bit (m (bits btmp + idx_byte)) 0;
                 bit_idx_start = idx_byte * 8 + of_nat idx_bit
             in if cnt = 1 then Inr bit_idx_start
                else Inr (scan_run btmp m cnt (btmp_bytes_len btmp * 8 - bit_idx_start)
                            (bit_idx_start + 1) 1)))"

definition bitmap_set :: "bitmap \<Rightarrow> u32 \<Rightarrow> u8 \<Rightarrow> memory \<Rightarrow> kerror + memory" where
  "bitmap_set btmp bit_idx v m =
     sbind (ASSERT ''lib/bitmap.c'' 66 (v = 0 \<or> v = 1)) (\<lambda>_.
       let a = bits btmp + bit_idx div 8; bit_odd = unat (bit_idx mod 8)
       in if v \<noteq> 0
          then Inr (m(a := ucast ((ucast (m a) :: u32) OR push_bit bit_odd BITMAP_MASK)))
          else Inr (m(a := ucast ((ucast (m a) :: u32) AND NOT (push_bit bit_odd BITMAP_MASK)))))"

section \<open>Bits by number\<close>

definition bm_free :: "bitmap \<Rightarrow> memory \<Rightarrow> nat \<Rightarrow> bool" where
  "bm_free btmp m i \<longleftrightarrow> \<not> bit (m (bits btmp + of_nat (i div 8))) (i mod 8)"

text \<open>The number of bits of a bitmap.\<close>

definition bm_cap :: "bitmap \<Rightarrow> nat" where
  "bm_cap btmp = 8 * unat (btmp_bytes_len btmp)"

lemma div_8_u32: "i < 2 ^ 32 \<Longrightarrow> (of_nat i :: u32) div 8 = of_nat (i div 8)"
  by (simp add: word_unat_eq_iff unat_div)

lemma mod_8_u32: "i < 2 ^ 32 \<Longrightarrow> unat ((of_nat i :: u32) mod 8) = i mod 8"
  by (simp add: unat_mod)

lemma scan_test_iff: "i < 2 ^ 32 \<Longrightarrow> bitmap_scan_test btmp (of_nat i) m = 0 \<longleftrightarrow> bm_free btmp m i"
  using mask_bit_iff [of "i mod 8" "m (bits btmp + of_nat (i div 8))"]
  by (auto simp: bitmap_scan_test_def Let_def div_8_u32 mod_8_u32 bm_free_def and.commute)

subsection \<open>Setting a bit\<close>

definition bm_claim :: "bitmap \<Rightarrow> nat \<Rightarrow> memory \<Rightarrow> memory" where
  "bm_claim btmp i m =
     (let a = bits btmp + of_nat (i div 8) in m(a := m a OR push_bit (i mod 8) 1))"

lemma ucast_or_mask:
  "k < 8 \<Longrightarrow> (ucast ((ucast (x :: u8) :: u32) OR push_bit k BITMAP_MASK) :: u8) = x OR push_bit k 1"
  by (rule bit_word_eqI) (auto simp: BITMAP_MASK_def bit_simps)

lemma bitmap_set_1: "i < 2 ^ 32 \<Longrightarrow> bitmap_set btmp (of_nat i) 1 m = Inr (bm_claim btmp i m)"
  by (simp add: bitmap_set_def Let_def div_8_u32 mod_8_u32 bm_claim_def ucast_or_mask)

lemma bitmap_set_u32: "bitmap_set btmp i 1 m = Inr (bm_claim btmp (unat i) m)"
  using bitmap_set_1 [of "unat i" btmp m] unsigned_less [of i, where 'a = nat] by simp

lemma same_byte_iff:
  "i < 2 ^ 32 \<Longrightarrow> j < 2 ^ 32 \<Longrightarrow>
   (bits btmp + of_nat (i div 8) :: u32) = bits btmp + of_nat (j div 8) \<longleftrightarrow> i div 8 = j div 8"
  using of_nat_u32_eq_iff [of "i div 8" "j div 8"] by auto

lemma div_mod_8_eq_iff: "(i div 8 = j div 8 \<and> i mod 8 = j mod 8) \<longleftrightarrow> i = (j :: nat)"
  by (metis div_mult_mod_eq)

lemma free_claim:
  assumes "i < 2 ^ 32" "j < 2 ^ 32"
  shows "bm_free btmp (bm_claim btmp i m) j \<longleftrightarrow> bm_free btmp m j \<and> j \<noteq> i"
proof (cases "i div 8 = j div 8")
  case True
  then have "i mod 8 = j mod 8 \<longleftrightarrow> i = j" using div_mod_8_eq_iff [of i j] by simp
  with True show ?thesis by (auto simp: bm_free_def bm_claim_def Let_def bit_simps)
next
  case False
  then have "i \<noteq> j" by auto
  with False show ?thesis
    using same_byte_iff [OF assms] by (auto simp: bm_free_def bm_claim_def Let_def)
qed

lemma claim_outside:
  "a \<notin> span (bits btmp) n \<Longrightarrow> i < 8 * n \<Longrightarrow> bm_claim btmp i m a = m a"
  by (auto simp: bm_claim_def Let_def mem_span_iff)

subsection \<open>The interface to the allocators\<close>

text \<open>
  What an allocator needs from a set of numbered cells: taking a cell makes it used and leaves
  the others as they are. \<open>claim\<close> of a whole range then makes exactly that range used.
\<close>

locale bit_pool =
  fixes free :: "'b \<Rightarrow> 's \<Rightarrow> nat \<Rightarrow> bool"
    and claim :: "'b \<Rightarrow> nat \<Rightarrow> 's \<Rightarrow> 's"
    and bound :: nat
  assumes free_after_claim:
    "i < bound \<Longrightarrow> j < bound \<Longrightarrow> free b (claim b i s) j \<longleftrightarrow> free b s j \<and> j \<noteq> i"
begin

lemma free_after_claims:
  "i + n \<le> bound \<Longrightarrow> j < bound \<Longrightarrow>
   free b (fold (claim b) [i..<i + n] s) j \<longleftrightarrow> free b s j \<and> j \<notin> {i..<i + n}"
proof (induction n arbitrary: s)
  case (Suc n)
  then have "free b (claim b (i + n) (fold (claim b) [i..<i + n] s)) j \<longleftrightarrow>
      free b s j \<and> j \<notin> {i..<i + n} \<and> j \<noteq> i + n"
    by (simp add: free_after_claim)
  moreover have "fold (claim b) [i..<i + Suc n] s = claim b (i + n) (fold (claim b) [i..<i + n] s)"
    by simp
  ultimately show ?case by auto
qed simp

lemma claim_is_used: "i < bound \<Longrightarrow> \<not> free b (claim b i s) i"
  by (simp add: free_after_claim)

lemma claims_keep_used:
  "i + n \<le> bound \<Longrightarrow> j < bound \<Longrightarrow> \<not> free b s j \<Longrightarrow> \<not> free b (fold (claim b) [i..<i + n] s) j"
  by (simp add: free_after_claims)

lemma count_free_claim:
  assumes "i < N" "N \<le> bound" "free b s i"
  shows "card {j. j < N \<and> free b s j} = Suc (card {j. j < N \<and> free b (claim b i s) j})"
proof -
  have "{j. j < N \<and> free b s j} = insert i {j. j < N \<and> free b (claim b i s) j}"
    using assms by (auto simp: free_after_claim)
  then show ?thesis using assms by (simp add: claim_is_used)
qed

end

interpretation bm: bit_pool bm_free bm_claim "2 ^ 32"
  by unfold_locales (rule free_claim)

section \<open>Scanning\<close>

lemma scan_byte_spec:
  assumes "idx \<le> btmp_bytes_len btmp" "\<forall>i < unat idx. m (bits btmp + of_nat i) = 0xff"
  shows "unat (scan_byte btmp m idx) \<le> unat (btmp_bytes_len btmp) \<and>
    (\<forall>i < unat (scan_byte btmp m idx). m (bits btmp + of_nat i) = 0xff) \<and>
    (scan_byte btmp m idx \<noteq> btmp_bytes_len btmp \<longrightarrow> m (bits btmp + scan_byte btmp m idx) \<noteq> 0xff)"
  using assms
proof (induction btmp m idx rule: scan_byte.induct)
  case (1 btmp m idx)
  show ?case
  proof (cases "m (bits btmp + idx) = 0xff \<and> idx < btmp_bytes_len btmp")
    case True
    then have u: "unat (idx + 1) = Suc (unat idx)" by (intro unat_Suc_less) blast
    with True have "idx + 1 \<le> btmp_bytes_len btmp"
      by (simp add: word_le_nat_alt word_less_nat_alt)
    moreover have "\<forall>i < unat (idx + 1). m (bits btmp + of_nat i) = 0xff"
      using "1.prems"(2) True by (simp add: u less_Suc_eq)
    ultimately show ?thesis
      using "1.IH" [OF True] True by (simp add: scan_byte.simps [of btmp m idx])
  next
    case False
    with "1.prems" show ?thesis
      by (auto simp: scan_byte.simps [of btmp m idx] word_le_nat_alt word_less_nat_alt
        word_unat_eq_iff)
  qed
qed

lemma scan_bit_spec:
  assumes "k \<le> 8" "\<forall>i<k. bit byte i"
  shows "scan_bit byte k \<le> 8 \<and> (\<forall>i < scan_bit byte k. bit byte i) \<and>
    \<not> (scan_bit byte k < 8 \<and> bit byte (scan_bit byte k))"
  using assms
proof (induction byte k rule: scan_bit.induct)
  case (1 byte k)
  show ?case
  proof (cases "k < 8 \<and> bit byte k")
    case True
    then have "(push_bit k BITMAP_MASK AND ucast byte) \<noteq> 0" by (simp add: mask_bit_iff)
    moreover have "\<forall>i<Suc k. bit byte i" using "1.prems" True by (auto simp: less_Suc_eq)
    ultimately show ?thesis
      using "1.IH" True by (simp add: scan_bit.simps [of byte k])
  next
    case False
    then have "\<not> (push_bit k BITMAP_MASK AND ucast byte) \<noteq> 0" by (simp only: mask_bit_iff) simp
    then have "scan_bit byte k = k" by (subst scan_bit.simps) simp
    with False "1.prems" show ?thesis by simp
  qed
qed

lemma byte_eq_ff_iff: "(byte :: u8) = 0xff \<longleftrightarrow> (\<forall>i<8. bit byte i)"
proof
  assume "\<forall>i<8. bit byte i"
  then have "byte = mask 8" by (intro bit_word_eqI) (simp add: bit_mask_iff)
  then show "byte = 0xff" by (simp add: mask_eq_exp_minus_1)
next
  assume "byte = 0xff"
  then have "byte = mask 8" by (simp add: mask_eq_exp_minus_1)
  then show "\<forall>i<8. bit byte i" by (simp add: bit_mask_iff)
qed

text \<open>A run of \<open>k\<close> clear bits at \<open>s\<close>.\<close>

definition clear_run :: "bitmap \<Rightarrow> memory \<Rightarrow> nat \<Rightarrow> nat \<Rightarrow> bool" where
  "clear_run btmp m s k \<longleftrightarrow> (\<forall>i \<in> {s..<s + k}. bm_free btmp m i)"

text \<open>
  The run loop: before the bit \<open>n\<close> is tested, the last \<open>c\<close> bits are clear, the bit before them is
  not (or there is none), and no run of \<open>k\<close> clear bits ends at or below \<open>n\<close>.
\<close>

lemma scan_run_spec:
  assumes "bit_left = of_nat l" "next_bit = of_nat n" "count = of_nat c" "cnt = of_nat k"
    and "n + l < 2 ^ 31" "k < 2 ^ 31" "c < k" "c \<le> n"
    and "\<forall>i \<in> {n - c..<n}. bm_free btmp m i"
    and "c < n \<Longrightarrow> \<not> bm_free btmp m (n - c - 1)"
    and "\<forall>s. s + k \<le> n \<longrightarrow> \<not> clear_run btmp m s k"
  shows "(scan_run btmp m cnt bit_left next_bit count = -1 \<and>
           (\<forall>s. s + k \<le> n + l \<longrightarrow> \<not> clear_run btmp m s k)) \<or>
         (\<exists>s. scan_run btmp m cnt bit_left next_bit count = of_nat s \<and> s + k \<le> n + l \<and>
           clear_run btmp m s k \<and> (\<forall>s' < s. \<not> clear_run btmp m s' k))"
  using assms
proof (induction l arbitrary: bit_left next_bit count n c)
  case 0
  then show ?case by (subst (1 2) scan_run.simps) simp
next
  case (Suc l)
  have nz: "bit_left \<noteq> 0" and dec: "bit_left - 1 = of_nat l"
    using Suc.prems(1,5) of_nat_u32_eq_iff [of "Suc l" 0] by simp_all
  have inc: "next_bit + 1 = of_nat (Suc n)" using Suc.prems(2) by (simp add: add.commute)
  have test: "bitmap_scan_test btmp next_bit m = 0 \<longleftrightarrow> bm_free btmp m n"
    using scan_test_iff [of n btmp m] Suc.prems(2,5) by simp
  show ?case
  proof (cases "bm_free btmp m n")
    case True
    have run: "\<forall>i \<in> {Suc n - Suc c..<Suc n}. bm_free btmp m i"
      using Suc.prems(9) True by (auto simp: less_Suc_eq)
    have cnt': "count + 1 = of_nat (Suc c)" using Suc.prems(3) by (simp add: add.commute)
    show ?thesis
    proof (cases "Suc c = k")
      case True
      have "(of_nat (n - c) :: u32) = of_nat n - of_nat c" using Suc.prems(8) by (simp add: of_nat_diff)
      then have "scan_run btmp m cnt bit_left next_bit count = of_nat (n - c)"
        using nz test \<open>bm_free btmp m n\<close> True Suc.prems(2-4)
        by (subst scan_run.simps) (auto simp: Let_def)
      moreover have "clear_run btmp m (n - c) k"
        using run Suc.prems(8) True by (auto simp: clear_run_def)
      moreover have "\<forall>s' < n - c. \<not> clear_run btmp m s' k"
        using Suc.prems(11) True by auto
      ultimately show ?thesis using Suc.prems(8) True by (intro disjI2 exI [of _ "n - c"]) auto
    next
      case False
      then have "count + 1 \<noteq> cnt"
        using cnt' Suc.prems(4,5,6,8) of_nat_u32_eq_iff [of "Suc c" k]
        by (simp add: add.commute)
      then have step: "scan_run btmp m cnt bit_left next_bit count =
          scan_run btmp m cnt (bit_left - 1) (next_bit + 1) (count + 1)"
        using nz test \<open>bm_free btmp m n\<close> by (subst scan_run.simps) (simp add: Let_def)
      have "\<forall>s. s + k \<le> Suc n \<longrightarrow> \<not> clear_run btmp m s k"
      proof (intro allI impI)
        fix s assume s: "s + k \<le> Suc n"
        show "\<not> clear_run btmp m s k"
        proof (cases "s + k \<le> n")
          case True
          then show ?thesis using Suc.prems(11) by blast
        next
          case F: False
          with s False Suc.prems(7) have "c < n" "n - c - 1 \<in> {s..<s + k}" by auto
          then show ?thesis using Suc.prems(10) by (auto simp: clear_run_def)
        qed
      qed
      then show ?thesis
        using Suc.IH [OF dec inc cnt' Suc.prems(4)] Suc.prems False run unfolding step by simp
    qed
  next
    case False
    then have "(0::u32) \<noteq> cnt"
      using Suc.prems(4,6,7) of_nat_u32_eq_iff [of 0 k] by auto
    then have step: "scan_run btmp m cnt bit_left next_bit count =
        scan_run btmp m cnt (bit_left - 1) (next_bit + 1) 0"
      using nz test False by (subst scan_run.simps) (simp add: Let_def)
    have "\<forall>s. s + k \<le> Suc n \<longrightarrow> \<not> clear_run btmp m s k"
    proof (intro allI impI)
      fix s assume s: "s + k \<le> Suc n"
      show "\<not> clear_run btmp m s k"
      proof (cases "s + k \<le> n")
        case True
        then show ?thesis using Suc.prems(11) by blast
      next
        case F: False
        with s Suc.prems(7) have "n \<in> {s..<s + k}" by auto
        with False show ?thesis by (auto simp: clear_run_def)
      qed
    qed
    then show ?thesis
      using Suc.IH [OF dec inc, of 0 0] Suc.prems False unfolding step by simp
  qed
qed

text \<open>The first clear bit, as the first two loops find it.\<close>

lemma scan_first_free:
  fixes btmp :: bitmap and m :: memory
  defines "j \<equiv> scan_byte btmp m 0"
  defines "f \<equiv> 8 * unat j + scan_bit (m (bits btmp + j)) 0"
  shows "j < btmp_bytes_len btmp \<longleftrightarrow> (\<exists>i < bm_cap btmp. bm_free btmp m i)"
    and "j < btmp_bytes_len btmp \<Longrightarrow>
      f < bm_cap btmp \<and> bm_free btmp m f \<and> (\<forall>i<f. \<not> bm_free btmp m i)"
proof -
  have j: "unat j \<le> unat (btmp_bytes_len btmp)" "\<forall>i < unat j. m (bits btmp + of_nat i) = 0xff"
    "j \<noteq> btmp_bytes_len btmp \<longrightarrow> m (bits btmp + j) \<noteq> 0xff"
    using scan_byte_spec [of 0 btmp m] by (simp_all add: j_def word_zero_le)
  have below: "\<not> bm_free btmp m i" if "i < 8 * unat j" for i
  proof -
    have "i div 8 < unat j" using that by simp
    then have "m (bits btmp + of_nat (i div 8)) = 0xff" using j(2) by blast
    then show ?thesis by (auto simp: bm_free_def byte_eq_ff_iff)
  qed
  have sb: "scan_bit (m (bits btmp + j)) 0 \<le> 8"
    "\<forall>i < scan_bit (m (bits btmp + j)) 0. bit (m (bits btmp + j)) i"
    "\<not> (scan_bit (m (bits btmp + j)) 0 < 8 \<and> bit (m (bits btmp + j)) (scan_bit (m (bits btmp + j)) 0))"
    using scan_bit_spec [of 0 "m (bits btmp + j)"] by simp_all
  show found: "f < bm_cap btmp \<and> bm_free btmp m f \<and> (\<forall>i<f. \<not> bm_free btmp m i)"
    if "j < btmp_bytes_len btmp"
  proof -
    have lt: "unat j < unat (btmp_bytes_len btmp)" using that by (simp add: word_less_nat_alt)
    have "m (bits btmp + j) \<noteq> 0xff" using j(3) that by auto
    then have k8: "scan_bit (m (bits btmp + j)) 0 < 8"
      using sb(1,2) by (cases "scan_bit (m (bits btmp + j)) 0 = 8") (auto simp: byte_eq_ff_iff)
    have fdm: "f div 8 = unat j" "f mod 8 = scan_bit (m (bits btmp + j)) 0"
      using k8 by (simp_all add: f_def)
    have "f < bm_cap btmp" using lt k8 by (simp add: f_def bm_cap_def)
    moreover have "bm_free btmp m f" using sb(3) k8 fdm by (simp add: bm_free_def)
    moreover have "\<not> bm_free btmp m i" if "i < f" for i
    proof (cases "i < 8 * unat j")
      case False
      with that k8 have "i div 8 = unat j" "i mod 8 < scan_bit (m (bits btmp + j)) 0"
        by (auto simp: f_def) presburger
      with sb(2) show ?thesis by (simp add: bm_free_def)
    qed (rule below)
    ultimately show ?thesis by blast
  qed
  show "j < btmp_bytes_len btmp \<longleftrightarrow> (\<exists>i < bm_cap btmp. bm_free btmp m i)"
  proof
    assume "\<exists>i < bm_cap btmp. bm_free btmp m i"
    then obtain i where i: "i < 8 * unat (btmp_bytes_len btmp)" "bm_free btmp m i"
      by (auto simp: bm_cap_def)
    show "j < btmp_bytes_len btmp"
    proof (rule ccontr)
      assume "\<not> j < btmp_bytes_len btmp"
      then have "unat j = unat (btmp_bytes_len btmp)" using j(1) by (simp add: word_less_nat_alt)
      then show False using below [of i] i by simp
    qed
  qed (use found in blast)
qed

text \<open>\<^verbatim>\<open>bitmap_scan\<close> finds the least run, looking one bit past the end of the bitmap.\<close>

definition bm_small :: "bitmap \<Rightarrow> bool" where
  "bm_small btmp \<longleftrightarrow> btmp_bytes_len btmp < 2 ^ 28"

lemma bm_small_cap: "bm_small btmp \<Longrightarrow> bm_cap btmp < 2 ^ 31"
  by (simp add: bm_small_def bm_cap_def word_less_nat_alt)

lemma bitmap_scan_full:
  "bitmap_scan btmp cnt m = Inl (Panic ''lib/bitmap.c'' 27) \<longleftrightarrow>
   (\<forall>i < bm_cap btmp. \<not> bm_free btmp m i)"
  using scan_first_free(1) [of btmp m]
  by (cases "scan_byte btmp m 0 < btmp_bytes_len btmp") (auto simp: bitmap_scan_def Let_def)

lemma bitmap_scan_one:
  assumes "bm_small btmp" "\<exists>i < bm_cap btmp. bm_free btmp m i"
  shows "\<exists>s. bitmap_scan btmp 1 m = Inr (of_nat s) \<and> s < bm_cap btmp \<and> bm_free btmp m s \<and>
    (\<forall>i < s. \<not> bm_free btmp m i)"
proof -
  let ?j = "scan_byte btmp m 0"
  let ?f = "8 * unat ?j + scan_bit (m (bits btmp + ?j)) 0"
  have j: "?j < btmp_bytes_len btmp" using assms(2) by (simp add: scan_first_free(1))
  have "?j * 8 + of_nat (scan_bit (m (bits btmp + ?j)) 0) = of_nat ?f" by simp
  then have "bitmap_scan btmp 1 m = Inr (of_nat ?f)"
    using j by (auto simp: bitmap_scan_def Let_def)
  then show ?thesis using scan_first_free(2) [OF j] by blast
qed

lemma bitmap_scan_many:
  assumes "bm_small btmp" "\<exists>i < bm_cap btmp. bm_free btmp m i" "1 < k" "k < 2 ^ 31"
  shows "(bitmap_scan btmp (of_nat k) m = Inr (-1) \<and>
           (\<forall>s. s + k \<le> bm_cap btmp + 1 \<longrightarrow> \<not> clear_run btmp m s k)) \<or>
         (\<exists>s. bitmap_scan btmp (of_nat k) m = Inr (of_nat s) \<and> s + k \<le> bm_cap btmp + 1 \<and>
           clear_run btmp m s k \<and> (\<forall>s' < s. \<not> clear_run btmp m s' k))"
proof -
  let ?j = "scan_byte btmp m 0"
  let ?f = "8 * unat ?j + scan_bit (m (bits btmp + ?j)) 0"
  let ?left = "btmp_bytes_len btmp * 8 - of_nat ?f"
  have j: "?j < btmp_bytes_len btmp" using assms(2) by (simp add: scan_first_free(1))
  note f = scan_first_free(2) [OF j]
  have start: "?j * 8 + of_nat (scan_bit (m (bits btmp + ?j)) 0) = (of_nat ?f :: u32)" by simp
  have k1: "(of_nat k :: u32) \<noteq> 1"
    using assms(3,4) of_nat_u32_eq_iff [of k 1] by simp
  have scan: "bitmap_scan btmp (of_nat k) m =
      Inr (scan_run btmp m (of_nat k) ?left (of_nat ?f + 1) 1)"
    using j k1 by (auto simp: bitmap_scan_def Let_def start)
  have left: "?left = of_nat (bm_cap btmp - ?f)"
    using f by (simp add: of_nat_diff bm_cap_def)
  have small: "Suc ?f + (bm_cap btmp - ?f) < 2 ^ 31"
    using f assms(1) by (simp add: bm_small_def bm_cap_def word_less_nat_alt)
  have run1: "\<forall>i \<in> {Suc ?f - 1..<Suc ?f}. bm_free btmp m i" using f by auto
  have before: "1 < Suc ?f \<Longrightarrow> \<not> bm_free btmp m (Suc ?f - 1 - 1)" using f by auto
  have none: "\<forall>s. s + k \<le> Suc ?f \<longrightarrow> \<not> clear_run btmp m s k"
  proof (intro allI impI)
    fix s assume "s + k \<le> Suc ?f"
    then have "s < ?f" "s \<in> {s..<s + k}" using assms(3) by auto
    then show "\<not> clear_run btmp m s k" using f by (auto simp: clear_run_def)
  qed
  have upto: "Suc ?f + (bm_cap btmp - ?f) = bm_cap btmp + 1" using f by simp
  from scan_run_spec [OF left, of "of_nat ?f + 1" "Suc ?f" 1 1 "of_nat k" k btmp m]
    assms(3,4) small run1 before none
  show ?thesis unfolding scan upto by (simp add: add.commute)
qed

section \<open>What the bitmap routines do\<close>

text \<open>
  \<^verbatim>\<open>bitmap_set\<close> with value 1 makes exactly the named bit set, with value 0 exactly the
  named bit clear; every other bit of the bitmap, and every byte of memory that does not hold the
  named bit, keeps its value. Any other value panics.
\<close>

lemma bitmap_set_updates:
  assumes "i < 2 ^ 32" "j < 2 ^ 32"
  shows "(\<exists>m'. bitmap_set btmp (of_nat i) 1 m = Inr m' \<and>
      (bm_free btmp m' j \<longleftrightarrow> bm_free btmp m j \<and> j \<noteq> i) \<and>
      (\<forall>a. a \<noteq> bits btmp + of_nat (i div 8) \<longrightarrow> m' a = m a)) \<and>
    (\<exists>m'. bitmap_set btmp (of_nat i) 0 m = Inr m' \<and>
      (bm_free btmp m' j \<longleftrightarrow> bm_free btmp m j \<or> j = i) \<and>
      (\<forall>a. a \<noteq> bits btmp + of_nat (i div 8) \<longrightarrow> m' a = m a)) \<and>
    (v \<noteq> 0 \<and> v \<noteq> 1 \<longrightarrow> bitmap_set btmp (of_nat i) v m = Inl (Panic ''lib/bitmap.c'' 66))"
proof -
  let ?a = "bits btmp + of_nat (i div 8)"
  let ?m0 = "m(?a := ucast ((ucast (m ?a) :: u32) AND NOT (push_bit (i mod 8) BITMAP_MASK)))"
  have run0: "bitmap_set btmp (of_nat i) 0 m = Inr ?m0"
    using assms by (simp add: bitmap_set_def Let_def div_8_u32 mod_8_u32)
  have clear: "bm_free btmp ?m0 j \<longleftrightarrow> bm_free btmp m j \<or> j = i"
  proof (cases "i div 8 = j div 8")
    case True
    then have "i mod 8 = j mod 8 \<longleftrightarrow> i = j" using div_mod_8_eq_iff [of i j] by simp
    then show ?thesis using True
      by (auto simp: bm_free_def BITMAP_MASK_def bit_simps)
  next
    case False
    then have "i \<noteq> j" by auto
    with False show ?thesis using same_byte_iff [OF assms] by (auto simp: bm_free_def)
  qed
  have run1: "bitmap_set btmp (of_nat i) 1 m = Inr (bm_claim btmp i m)"
    using assms by (simp add: bitmap_set_1)
  have frame: "\<forall>a. a \<noteq> ?a \<longrightarrow> bm_claim btmp i m a = m a" by (simp add: bm_claim_def Let_def)
  have bad: "v \<noteq> 0 \<and> v \<noteq> 1 \<longrightarrow> bitmap_set btmp (of_nat i) v m = Inl (Panic ''lib/bitmap.c'' 66)"
    by (simp add: bitmap_set_def)
  show ?thesis
    using free_claim [OF assms, of btmp m] clear frame bad by (simp add: run0 run1)
qed

lemma bitmap_set_updates_example:
  "\<exists>m'. bitmap_set \<lparr>btmp_bytes_len = 2, bits = 100\<rparr> 9 1 (\<lambda>a. 0) = Inr m' \<and>
    \<not> bm_free \<lparr>btmp_bytes_len = 2, bits = 100\<rparr> m' 9"
  using bitmap_set_updates [of 9 9 "\<lparr>btmp_bytes_len = 2, bits = 100\<rparr>" "\<lambda>a. 0" 1] by auto

text \<open>
  C29: a scan for one bit is the plain search for the first clear bit: the two nested loops over
  bytes and bits find what a search over the numbers of the bits in order finds, and when every bit
  is set the routine does not come back: the assertion of line 27 fires, although the routine means
  to return -1 there.
\<close>

theorem bitmap_scan_first_fit:
  assumes "bm_small btmp"
  shows "bitmap_scan btmp 1 m =
    (case List.find (bm_free btmp m) [0..<bm_cap btmp] of
       None \<Rightarrow> Inl (Panic ''lib/bitmap.c'' 27) | Some i \<Rightarrow> Inr (of_nat i))"
proof (cases "\<exists>i < bm_cap btmp. bm_free btmp m i")
  case True
  then obtain s where s: "bitmap_scan btmp 1 m = Inr (of_nat s)" "s < bm_cap btmp" "bm_free btmp m s"
    "\<forall>i < s. \<not> bm_free btmp m i"
    using bitmap_scan_one [OF assms True] by blast
  then have "List.find (bm_free btmp m) [0..<bm_cap btmp] = Some s"
    by (auto simp: find_Some_iff intro!: exI [of _ s])
  with s(1) show ?thesis by simp
next
  case False
  then have "List.find (bm_free btmp m) [0..<bm_cap btmp] = None" by (auto simp: find_None_iff)
  with False bitmap_scan_full [of btmp 1 m] show ?thesis by simp
qed

theorem bitmap_scan_first_fit_witness:
  "bitmap_scan \<lparr>btmp_bytes_len = 2, bits = 100\<rparr> 1 ((\<lambda>_. 0)(100 := 255, 101 := 7)) = Inr 11"
proof -
  let ?b = "\<lparr>btmp_bytes_len = 2, bits = 100\<rparr>" and ?m = "(\<lambda>_. 0)(100 := 255, 101 := 7) :: memory"
  have "bm_small ?b" "bm_cap ?b = 16" by (simp_all add: bm_small_def bm_cap_def)
  moreover have "List.find (bm_free ?b ?m) [0..<16] = Some 11"
    by (simp add: bm_free_def upt_rec bit_numeral_rec)
  ultimately show ?thesis using bitmap_scan_first_fit [of ?b ?m] by simp
qed

text \<open>
  A scan for a run of two or more bits on a bitmap with a clear bit returns the least
  position from which that many bits are clear, or -1 when there is none; but the run may take in
  the bit just past the end of the bitmap, since the loop tests one bit too many.
\<close>

lemma bitmap_scan_least_run:
  assumes "bm_small btmp" "\<exists>i < bm_cap btmp. bm_free btmp m i" "1 < k" "k < 2 ^ 31"
  shows "(bitmap_scan btmp (of_nat k) m = Inr (-1) \<and>
      (\<forall>s. s + k \<le> bm_cap btmp + 1 \<longrightarrow> \<not> (\<forall>i \<in> {s..<s + k}. bm_free btmp m i))) \<or>
    (\<exists>s. bitmap_scan btmp (of_nat k) m = Inr (of_nat s) \<and> s + k \<le> bm_cap btmp + 1 \<and>
      (\<forall>i \<in> {s..<s + k}. bm_free btmp m i) \<and>
      (\<forall>s' < s. \<not> (\<forall>i \<in> {s'..<s' + k}. bm_free btmp m i)))"
  using bitmap_scan_many [OF assms] by (simp add: clear_run_def)

lemma bitmap_scan_least_run_example:
  "\<exists>r. bitmap_scan \<lparr>btmp_bytes_len = 1, bits = 100\<rparr> 2 (\<lambda>a. 7) = Inr r"
proof -
  let ?b = "\<lparr>btmp_bytes_len = 1, bits = 100\<rparr>"
  have small: "bm_small ?b" by (simp add: bm_small_def)
  have "bm_free ?b (\<lambda>a. 7) 4" by (simp add: bm_free_def bit_numeral_rec)
  moreover have "bm_cap ?b = 8" by (simp add: bm_cap_def)
  ultimately have "\<exists>i < bm_cap ?b. bm_free ?b (\<lambda>a. 7) i" by (intro exI [of _ 4]) simp
  from bitmap_scan_least_run [OF small this, of 2] show ?thesis by auto
qed

text \<open>
  The scan really does overrun: on a one-byte bitmap whose last bit alone is clear, followed
  in memory by an even byte, a scan for two bits returns position 7, so that the second bit handed
  out is bit 8, outside the bitmap.
\<close>

lemma bitmap_scan_overruns:
  "bitmap_scan \<lparr>btmp_bytes_len = 1, bits = p\<rparr> 2 ((\<lambda>a. 0)(p := 127)) = Inr 7 \<and>
   bm_cap \<lparr>btmp_bytes_len = 1, bits = p\<rparr> = 8"
proof -
  let ?b = "\<lparr>btmp_bytes_len = 1, bits = p\<rparr>"
  let ?m = "(\<lambda>a. 0)(p := 127 :: u8)"
  have cap: "bm_cap ?b = 8" by (simp add: bm_cap_def)
  have used: "bm_free ?b ?m i \<longleftrightarrow> 7 \<le> i" if "i < 9" for i
  proof -
    have "i \<in> {0, 1, 2, 3, 4, 5, 6, 7, 8}" using that by auto
    then show ?thesis by (auto simp: bm_free_def bit_numeral_rec)
  qed
  have small: "bm_small ?b" by (simp add: bm_small_def)
  have ex: "\<exists>i < bm_cap ?b. bm_free ?b ?m i" using used [of 7] cap by (intro exI [of _ 7]) simp
  have run7: "clear_run ?b ?m 7 2" using used by (auto simp: clear_run_def)
  have least: "s = 7" if "s + 2 \<le> 9" "clear_run ?b ?m s 2" for s
  proof -
    have "bm_free ?b ?m s" using that by (auto simp: clear_run_def)
    with used [of s] that show ?thesis by simp
  qed
  consider (none) "\<forall>s. s + 2 \<le> 9 \<longrightarrow> \<not> clear_run ?b ?m s 2"
    | (found) s where "bitmap_scan ?b 2 ?m = Inr (of_nat s)" "s + 2 \<le> 9" "clear_run ?b ?m s 2"
    using bitmap_scan_many [OF small ex, of 2] cap by auto
  then show ?thesis
  proof cases
    case none
    with run7 show ?thesis by (auto dest: spec [of _ 7])
  next
    case found
    with least [OF found(2,3)] cap show ?thesis by simp
  qed
qed

end
