(* ===== verification/Machine.thy ===== *)
theory Machine
  imports CString
begin

text \<open>
  The part of the machine every component shares: the flags register, the byte memory, the text
  screen and the record of what was written to the I/O ports, with \<^verbatim>\<open>outb\<close> of
  \<^verbatim>\<open>src/kernel/io.h\<close> and the constants of \<^verbatim>\<open>src/kernel/global.h\<close>. Components that keep more
  state extend this record, so an operation of a lower layer leaves the fields of the upper layers
  as they are by construction.

  Below it, the text-mode output of \<^verbatim>\<open>src/lib/kernel/print.S\<close>: \<^verbatim>\<open>put_char\<close>, \<^verbatim>\<open>put_str\<close> and
  \<^verbatim>\<open>put_int\<close> on the cursor register and the video memory. The lemmas show that the cursor stays on
  the screen, how the screen scrolls, and that \<^verbatim>\<open>put_int\<close> prints the hexadecimal digits of its
  argument.
\<close>

section \<open>State and ports\<close>

text \<open>The cursor position of the CRT controller and the video memory by byte offset from 0xb8000.\<close>

record screen =
  cursor :: u16
  vram :: "u16 \<Rightarrow> u8"

record machine =
  eflags :: u32
  mem :: memory
  screen :: screen
  ports :: "(u16 \<times> u8) list"

definition outb :: "u16 \<Rightarrow> u8 \<Rightarrow> 'a machine_scheme \<Rightarrow> 'a machine_scheme" where
  "outb port data s = s\<lparr>ports := ports s @ [(port, data)]\<rparr>"

text \<open>
  The other routines of \<^verbatim>\<open>io.h\<close>. The device is an argument: \<open>dev\<close> gives what a read of a port returns,
  and \<open>words\<close> the sixteen-bit words that it supplies one after the other.
\<close>

definition inb :: "(u16 \<Rightarrow> u8) \<Rightarrow> u16 \<Rightarrow> u8" where
  "inb dev port = dev port"

definition load16 :: "memory \<Rightarrow> u32 \<Rightarrow> u16" where
  "load16 m addr = ucast (m addr) OR push_bit 8 (ucast (m (addr + 1)))"

definition store16 :: "u32 \<Rightarrow> u16 \<Rightarrow> memory \<Rightarrow> memory" where
  "store16 addr w m = m(addr := ucast w, addr + 1 := ucast (drop_bit 8 w))"

fun outsw :: "u16 \<Rightarrow> u32 \<Rightarrow> nat \<Rightarrow> memory \<Rightarrow> (u16 \<times> u16) list" where
  "outsw port addr 0 m = []"
| "outsw port addr (Suc word_cnt) m = (port, load16 m addr) # outsw port (addr + 2) word_cnt m"

fun insw :: "(nat \<Rightarrow> u16) \<Rightarrow> u32 \<Rightarrow> nat \<Rightarrow> memory \<Rightarrow> memory" where
  "insw words addr 0 m = m"
| "insw words addr (Suc word_cnt) m = insw (\<lambda>i. words (Suc i)) (addr + 2) word_cnt (store16 addr (words 0) m)"

section \<open>global.h\<close>

definition PG_SIZE :: u32 where "PG_SIZE = 4096"

text \<open>The fields of selectors and descriptors, and what is put together from them.\<close>

abbreviation (input) RPL0 :: "'a::len word" where "RPL0 \<equiv> 0"
abbreviation (input) RPL1 :: "'a::len word" where "RPL1 \<equiv> 1"
abbreviation (input) RPL2 :: "'a::len word" where "RPL2 \<equiv> 2"
abbreviation (input) RPL3 :: "'a::len word" where "RPL3 \<equiv> 3"
abbreviation (input) TI_GDT :: "'a::len word" where "TI_GDT \<equiv> 0"
abbreviation (input) TI_LDT :: "'a::len word" where "TI_LDT \<equiv> 1"

abbreviation (input) DESC_G_4K :: "'a::len word" where "DESC_G_4K \<equiv> 1"
abbreviation (input) DESC_D_32 :: "'a::len word" where "DESC_D_32 \<equiv> 1"
abbreviation (input) DESC_L :: "'a::len word" where "DESC_L \<equiv> 0"
abbreviation (input) DESC_AVL :: "'a::len word" where "DESC_AVL \<equiv> 0"
abbreviation (input) DESC_P :: "'a::len word" where "DESC_P \<equiv> 1"
abbreviation (input) DESC_DPL_0 :: "'a::len word" where "DESC_DPL_0 \<equiv> 0"
abbreviation (input) DESC_DPL_1 :: "'a::len word" where "DESC_DPL_1 \<equiv> 1"
abbreviation (input) DESC_DPL_2 :: "'a::len word" where "DESC_DPL_2 \<equiv> 2"
abbreviation (input) DESC_DPL_3 :: "'a::len word" where "DESC_DPL_3 \<equiv> 3"
abbreviation (input) DESC_S_CODE :: "'a::len word" where "DESC_S_CODE \<equiv> 1"
abbreviation (input) DESC_S_DATA :: "'a::len word" where "DESC_S_DATA \<equiv> DESC_S_CODE"
abbreviation (input) DESC_S_SYS :: "'a::len word" where "DESC_S_SYS \<equiv> 0"
abbreviation (input) DESC_TYPE_CODE :: "'a::len word" where "DESC_TYPE_CODE \<equiv> 8"
abbreviation (input) DESC_TYPE_DATA :: "'a::len word" where "DESC_TYPE_DATA \<equiv> 2"
abbreviation (input) DESC_TYPE_TSS :: "'a::len word" where "DESC_TYPE_TSS \<equiv> 9"

definition SELECTOR_K_CODE :: u32 where "SELECTOR_K_CODE = push_bit 3 1 + push_bit 2 TI_GDT + RPL0"
definition SELECTOR_K_DATA :: u32 where "SELECTOR_K_DATA = push_bit 3 2 + push_bit 2 TI_GDT + RPL0"
definition SELECTOR_K_STACK :: u32 where "SELECTOR_K_STACK = SELECTOR_K_DATA"
definition SELECTOR_K_GS :: u32 where "SELECTOR_K_GS = push_bit 3 3 + push_bit 2 TI_GDT + RPL0"
definition SELECTOR_U_CODE :: u32 where "SELECTOR_U_CODE = push_bit 3 5 + push_bit 2 TI_GDT + RPL3"
definition SELECTOR_U_DATA :: u32 where "SELECTOR_U_DATA = push_bit 3 6 + push_bit 2 TI_GDT + RPL3"
definition SELECTOR_U_STACK :: u32 where "SELECTOR_U_STACK = SELECTOR_U_DATA"
definition SELECTOR_TSS :: u32 where "SELECTOR_TSS = push_bit 3 4 + push_bit 2 TI_GDT + RPL0"

definition GDT_ATTR_HIGH :: u8 where
  "GDT_ATTR_HIGH = push_bit 7 DESC_G_4K + push_bit 6 DESC_D_32 + push_bit 5 DESC_L + push_bit 4 DESC_AVL"
definition GDT_CODE_ATTR_LOW_DPL3 :: u8 where
  "GDT_CODE_ATTR_LOW_DPL3 = push_bit 7 DESC_P + push_bit 5 DESC_DPL_3 + push_bit 4 DESC_S_CODE + DESC_TYPE_CODE"
definition GDT_DATA_ATTR_LOW_DPL3 :: u8 where
  "GDT_DATA_ATTR_LOW_DPL3 = push_bit 7 DESC_P + push_bit 5 DESC_DPL_3 + push_bit 4 DESC_S_DATA + DESC_TYPE_DATA"

abbreviation (input) IDT_DESC_P :: "'a::len word" where "IDT_DESC_P \<equiv> 1"
abbreviation (input) IDT_DESC_DPL0 :: "'a::len word" where "IDT_DESC_DPL0 \<equiv> 0"
abbreviation (input) IDT_DESC_DPL3 :: "'a::len word" where "IDT_DESC_DPL3 \<equiv> 3"
abbreviation (input) IDT_DESC_32_TYPE :: "'a::len word" where "IDT_DESC_32_TYPE \<equiv> 0xE"
abbreviation (input) IDT_DESC_16_TYPE :: "'a::len word" where "IDT_DESC_16_TYPE \<equiv> 0x6"
abbreviation (input) TSS_DESC_D :: "'a::len word" where "TSS_DESC_D \<equiv> 0"

definition IDT_DESC_ATTR_DPL0 :: u8 where
  "IDT_DESC_ATTR_DPL0 = push_bit 7 IDT_DESC_P + push_bit 5 IDT_DESC_DPL0 + IDT_DESC_32_TYPE"
definition IDT_DESC_ATTR_DPL3 :: u8 where
  "IDT_DESC_ATTR_DPL3 = push_bit 7 IDT_DESC_P + push_bit 5 IDT_DESC_DPL3 + IDT_DESC_32_TYPE"
definition TSS_ATTR_HIGH :: u8 where
  "TSS_ATTR_HIGH = push_bit 7 DESC_G_4K + push_bit 6 TSS_DESC_D + push_bit 5 DESC_L + push_bit 4 DESC_AVL + 0"
definition TSS_ATTR_LOW :: u8 where
  "TSS_ATTR_LOW = push_bit 7 DESC_P + push_bit 5 DESC_DPL_0 + push_bit 4 DESC_S_SYS + DESC_TYPE_TSS"

definition EFLAGS_MBS :: u32 where "EFLAGS_MBS = push_bit 1 1"
definition EFLAGS_IF_1 :: u32 where "EFLAGS_IF_1 = push_bit 9 1"
definition EFLAGS_IF_0 :: u32 where "EFLAGS_IF_0 = 0"
definition EFLAGS_IOPL_3 :: u32 where "EFLAGS_IOPL_3 = push_bit 12 3"
definition EFLAGS_IOPL_0 :: u32 where "EFLAGS_IOPL_0 = push_bit 12 0"

text \<open>\<^verbatim>\<open>DIV_ROUND_UP(X, STEP)\<close>, as the macro expands.\<close>

definition DIV_ROUND_UP :: "u32 \<Rightarrow> u32 \<Rightarrow> u32" where
  "DIV_ROUND_UP X STEP = (X + STEP - 1) div STEP"

section \<open>Words through a port\<close>

lemma load16_store16: "load16 (store16 a w m) a = w"
proof -
  have "(a :: u32) \<noteq> a + 1" by simp
  then have "load16 (store16 a w m) a = ucast (ucast w :: u8) OR push_bit 8 (ucast (ucast (drop_bit 8 w) :: u8))"
    by (simp add: load16_def store16_def)
  also have "\<dots> = w" by (rule bit_word_eqI) (auto simp: bit_simps)
  finally show ?thesis .
qed

text \<open>Words that are read into memory go out again as they came, when they do not wrap around.\<close>

lemma insw_other: "(\<And>i. i < 2 * n \<Longrightarrow> b \<noteq> a + of_nat i) \<Longrightarrow> insw ws a n m b = m b"
proof (induction n arbitrary: ws a m)
  case (Suc n)
  have "b \<noteq> a + 2 + of_nat i" if "i < 2 * n" for i using Suc.prems [of "i + 2"] that by (simp add: algebra_simps)
  then have "insw ws a (Suc n) m b = store16 a (ws 0) m b" using Suc.IH by simp
  then show ?case using Suc.prems [of 0] Suc.prems [of 1] by (simp add: store16_def)
qed simp

lemma insw_outsw:
  "2 * n \<le> 2 ^ 32 \<Longrightarrow> outsw port a n (insw ws a n m) = map (\<lambda>i. (port, ws i)) [0..<n]"
proof (induction n arbitrary: ws a m)
  case (Suc n)
  have far: "a + of_nat j \<noteq> a + 2 + of_nat i" if "i < 2 * n" "j < 2" for i j
  proof -
    have "unat (of_nat j :: u32) = j" "unat (of_nat (i + 2) :: u32) = i + 2"
      using that Suc.prems by (intro unat_of_nat_u32; simp)+
    then have "(of_nat j :: u32) \<noteq> of_nat (i + 2)" using that(2) by (metis not_add_less2)
    then show ?thesis by (simp add: algebra_simps)
  qed
  have "insw ws a (Suc n) m a = store16 a (ws 0) m a" "insw ws a (Suc n) m (a + 1) = store16 a (ws 0) m (a + 1)"
    using far [of _ 0] far [of _ 1] by (simp_all add: insw_other)
  then have "load16 (insw ws a (Suc n) m) a = ws 0" using load16_store16 [of a "ws 0" m] by (simp add: load16_def)
  then show ?case using Suc by (simp add: upt_conv_Cons map_Suc_upt [symmetric] o_def del: upt_Suc)
qed simp

section \<open>print.S\<close>

text \<open>
  \<^verbatim>\<open>put_char\<close> keeps the cursor in the 16-bit register \<open>bx\<close>; a cell takes two bytes of video
  memory, the character and its attribute. \<^verbatim>\<open>jl\<close> compares signed.
\<close>

definition roll_screen :: "screen \<Rightarrow> screen" where
  "roll_screen t = \<lparr>cursor = 1920,
     vram = (\<lambda>i. if i < 3840 then vram t (i + 160)
                 else if i < 4000 then (if even (unat i) then 0x20 else 0x07)
                 else vram t i)\<rparr>"

definition line_feed :: "screen \<Rightarrow> u16 \<Rightarrow> screen" where
  "line_feed t bx =
     (let bx = bx - bx mod 80 + 80
      in if sint bx < 2000 then t\<lparr>cursor := bx\<rparr> else roll_screen t)"

definition put_char :: "u8 \<Rightarrow> screen \<Rightarrow> screen" where
  "put_char cl t =
     (let bx = cursor t
      in if cl = 0xd \<or> cl = 0xa then line_feed t bx
         else if cl = 0x8 then
           let bx = push_bit 1 (bx - 1);
               v = (vram t)(bx := 0x20, bx + 1 := 0x07)
           in t\<lparr>vram := v, cursor := drop_bit 1 (bx + 1)\<rparr>
         else
           let bx = push_bit 1 bx;
               t = t\<lparr>vram := (vram t)(bx := cl, bx + 1 := 0x07)\<rparr>;
               bx = drop_bit 1 (bx + 1) + 1
           in if sint bx < 2000 then t\<lparr>cursor := bx\<rparr> else line_feed t bx)"

text \<open>\<^verbatim>\<open>put_str\<close> prints up to the terminator.\<close>

fun put_chars :: "u8 list \<Rightarrow> screen \<Rightarrow> screen" where
  "put_chars [] t = t"
| "put_chars (c # cs) t = (if c = 0 then t else put_chars cs (put_char c t))"

definition put_str :: "u8 list \<Rightarrow> 'a machine_scheme \<Rightarrow> 'a machine_scheme" where
  "put_str cs s = s\<lparr>screen := put_chars cs (screen s)\<rparr>"

text \<open>A string literal of the source as the bytes it stands for.\<close>

definition lit :: "string \<Rightarrow> u8 list" where
  "lit str = map of_char str"

text \<open>
  \<^verbatim>\<open>put_int\<close>: the eight hexadecimal digits go into a buffer from the last to the first, leading
  zeros are skipped, and a number that is all zeros prints one \<open>0\<close>.
\<close>

definition hex_digit :: "u32 \<Rightarrow> u8" where
  "hex_digit edx = (if sint edx > 9 then ucast (edx - 10) + 65 else ucast edx + 48)"

fun digits_loop :: "nat \<Rightarrow> u32 \<Rightarrow> u8 list \<Rightarrow> u8 list" where
  "digits_loop 0 eax buf = buf"
| "digits_loop (Suc ecx) eax buf =
     digits_loop ecx (drop_bit 4 eax) (hex_digit (eax AND 0xF) # buf)"

fun skip_prefix_0 :: "u8 list \<Rightarrow> u8 list" where
  "skip_prefix_0 [] = [48]"
| "skip_prefix_0 (c # cs) = (if c = 48 then skip_prefix_0 cs else c # cs)"

definition put_int_chars :: "u32 \<Rightarrow> u8 list" where
  "put_int_chars num = skip_prefix_0 (digits_loop 8 num [])"

definition put_int :: "u32 \<Rightarrow> 'a machine_scheme \<Rightarrow> 'a machine_scheme" where
  "put_int num s = s\<lparr>screen := fold put_char (put_int_chars num) (screen s)\<rparr>"

section \<open>The screen\<close>

lemma sint_u16_small: "x < 0x8000 \<Longrightarrow> sint (x :: u16) = uint x"
proof -
  assume "x < 0x8000"
  then have "uint x < 0x8000" by (simp add: word_less_def)
  moreover have "- 0x8000 \<le> uint x" using uint_ge_0 [of x] by linarith
  ultimately show ?thesis by (simp add: sint_uint signed_take_bit_int_eq_self_iff)
qed

lemma sint_less_2000: "x \<le> 2080 \<Longrightarrow> sint (x :: u16) < 2000 \<longleftrightarrow> x < 2000"
proof -
  assume "x \<le> 2080"
  then have "x < 0x8000" by (rule le_less_trans) simp
  then show ?thesis by (simp add: sint_u16_small word_less_def)
qed

definition on_screen :: "screen \<Rightarrow> bool" where
  "on_screen t \<longleftrightarrow> cursor t < 2000"

lemma unat_minus_mod: "unat (bx - bx mod 80 :: u16) = unat bx - unat bx mod 80"
proof -
  have "bx mod 80 \<le> bx" by (simp add: word_le_nat_alt unat_mod)
  then have "unat (bx - bx mod 80) = unat bx - unat (bx mod 80)" by (rule unat_sub)
  then show ?thesis by (simp add: unat_mod)
qed

lemma unat_next_line: "bx \<le> 2000 \<Longrightarrow> unat (bx - bx mod 80 + 80 :: u16) = unat bx - unat bx mod 80 + 80"
  by (simp add: unat_word_ariths unat_minus_mod [unfolded unat_word_ariths, simplified]
      word_le_nat_alt)

lemma line_feed_on_screen:
  assumes "bx \<le> 2000"
  shows "on_screen (line_feed t bx)"
proof -
  have "bx - bx mod 80 + 80 \<le> 2080"
    using assms unat_next_line [OF assms] by (simp add: word_le_nat_alt)
  then show ?thesis
    by (auto simp: line_feed_def Let_def on_screen_def sint_less_2000 roll_screen_def)
qed

lemma cell_round_trip:
  assumes "(bx :: u16) < 0x8000"
  shows "drop_bit 1 (push_bit 1 bx + 1) = bx"
proof -
  have "unat (push_bit 1 bx) = 2 * unat bx"
    using assms by (simp add: push_bit_eq_mult unat_word_ariths word_less_nat_alt mult.commute)
  then have "unat (push_bit 1 bx + 1) = 2 * unat bx + 1"
    using assms by (simp add: unat_word_ariths word_less_nat_alt)
  then have "unat (drop_bit 1 (push_bit 1 bx + 1)) = unat bx"
    by (simp only: unat_drop_bit_eq) (simp add: drop_bit_eq_div)
  then show ?thesis by (simp only: word_unat_eq_iff)
qed

lemma put_char_on_screen:
  assumes "on_screen t" "\<not> (c = 8 \<and> cursor t = 0)"
  shows "on_screen (put_char c t)"
proof -
  let ?bx = "cursor t"
  have bx: "?bx < 2000" using assms(1) by (simp add: on_screen_def)
  have lt: "?bx < 0x8000" using bx by (rule less_trans) simp
  have suc: "?bx + 1 \<le> 2000" using bx by (rule inc_le)
  then have suc': "?bx + 1 \<le> 2080" by (rule order_trans) simp
  consider "c = 0xd \<or> c = 0xa" | "c = 8" | "c \<noteq> 0xd" "c \<noteq> 0xa" "c \<noteq> 8" by blast
  then show ?thesis
  proof cases
    case 1
    with bx show ?thesis by (auto simp: put_char_def Let_def intro!: line_feed_on_screen)
  next
    case 2
    with assms have "0 < unat ?bx" by (simp add: unat_gt_0)
    then have "?bx - 1 < ?bx" by (simp add: word_less_nat_alt unat_minus_one unat_gt_0)
    then have less: "?bx - 1 < 2000" "?bx - 1 < 0x8000" using bx lt by (auto intro: less_trans)
    then have "drop_bit 1 (push_bit 1 (?bx - 1) + 1) < 2000" by (simp only: cell_round_trip)
    with 2 show ?thesis by (simp only: put_char_def Let_def on_screen_def) simp
  next
    case 3
    then show ?thesis
      using cell_round_trip [OF lt] suc suc' line_feed_on_screen [OF suc]
        line_feed_on_screen [of 2000]
      by (simp add: put_char_def Let_def on_screen_def sint_less_2000)
  qed
qed

text \<open>
  Printing any text without backspaces keeps the cursor inside the 80 by 25 screen.
\<close>

lemma put_str_stays_on_screen:
  assumes "on_screen (screen s)" "8 \<notin> set cs"
  shows "on_screen (screen (put_str cs s))"
proof -
  have "on_screen (put_chars cs t)" if "on_screen t" for t
    using that assms(2)
    by (induction cs arbitrary: t) (auto simp: put_char_on_screen)
  with assms(1) show ?thesis by (simp add: put_str_def)
qed

lemma put_str_stays_on_screen_example:
  "on_screen (screen (put_str (lit ''mem_init done'')
     \<lparr>eflags = 0, mem = (\<lambda>_. 0), screen = \<lparr>cursor = 1999, vram = (\<lambda>_. 0)\<rparr>, ports = []\<rparr>))"
  by (rule put_str_stays_on_screen) (simp_all add: on_screen_def lit_def of_char_def)

section \<open>Hexadecimal output\<close>

definition hex_value :: "u8 \<Rightarrow> nat" where
  "hex_value c = (if 65 \<le> c then unat c - 55 else unat c - 48)"

definition hex_number :: "u8 list \<Rightarrow> nat" where
  "hex_number cs = foldl (\<lambda>n c. 16 * n + hex_value c) 0 cs"

lemma unat_nibble: "unat ((x :: u32) AND 0xF) = unat x mod 16"
proof -
  have "x AND 0xF = x mod 16"
    using take_bit_eq_mask [of 4 x] by (simp add: mask_eq_exp_minus_1 take_bit_eq_mod)
  then show ?thesis by (simp add: unat_mod)
qed

lemma hex_digit_value: "d < 16 \<Longrightarrow> hex_value (hex_digit (of_nat d)) = d \<and> hex_digit (of_nat d) \<noteq> 0"
proof -
  assume "d < 16"
  then have "d = 0 \<or> d = 1 \<or> d = 2 \<or> d = 3 \<or> d = 4 \<or> d = 5 \<or> d = 6 \<or> d = 7 \<or> d = 8 \<or>
      d = 9 \<or> d = 10 \<or> d = 11 \<or> d = 12 \<or> d = 13 \<or> d = 14 \<or> d = 15" by arith
  then show ?thesis by (elim disjE) (simp_all add: hex_digit_def hex_value_def)
qed

lemma foldl_hex: "foldl (\<lambda>n c. 16 * n + hex_value c) k cs = k * 16 ^ length cs + hex_number cs"
proof (induction cs arbitrary: k)
  case (Cons c cs)
  have "hex_number (c # cs) = hex_value c * 16 ^ length cs + hex_number cs"
    using Cons [of "hex_value c"] by (simp add: hex_number_def)
  with Cons [of "16 * k + hex_value c"] show ?case by (simp add: algebra_simps)
qed (simp add: hex_number_def)

lemma hex_number_Cons: "hex_number (c # cs) = hex_value c * 16 ^ length cs + hex_number cs"
  using foldl_hex [of "hex_value c" cs] by (simp add: hex_number_def)

lemma digits_loop_number:
  "hex_number (digits_loop n eax buf) = (unat eax mod 16 ^ n) * 16 ^ length buf + hex_number buf \<and>
   length (digits_loop n eax buf) = n + length buf"
proof (induction n arbitrary: eax buf)
  case (Suc n)
  let ?d = "unat (eax AND 0xF)"
  have d: "?d = unat eax mod 16" by (rule unat_nibble)
  have v: "hex_value (hex_digit (eax AND 0xF)) = ?d"
    using hex_digit_value [of ?d] d by (metis mod_less_divisor of_nat_unat ucast_id zero_less_numeral)
  have q: "unat (drop_bit 4 eax) = unat eax div 16" by (simp add: drop_bit_eq_div unat_div)
  have "unat eax mod 16 ^ Suc n = 16 * (unat eax div 16 mod 16 ^ n) + unat eax mod 16"
    by (simp add: mod_mult2_eq)
  then show ?case
    using Suc [of "drop_bit 4 eax" "hex_digit (eax AND 0xF) # buf"]
    by (simp add: hex_number_Cons v q d algebra_simps)
qed simp

lemma skip_prefix_0_number: "hex_number (skip_prefix_0 cs) = hex_number cs"
proof (induction cs)
  case Nil
  show ?case by (simp add: hex_number_def hex_value_def)
next
  case (Cons c cs)
  then show ?case by (auto simp: hex_number_Cons hex_value_def)
qed

lemma skip_prefix_0_canonical: "hd (skip_prefix_0 cs) = 48 \<longleftrightarrow> skip_prefix_0 cs = [48]"
  by (induction cs) auto

text \<open>
  \<^verbatim>\<open>put_int\<close> prints the number in hexadecimal: reading its digits back gives the argument
  for every 32-bit value, and there is no leading zero unless the output is the single digit 0.
\<close>

lemma put_int_prints_hex:
  "hex_number (put_int_chars num) = unat num \<and>
   (hd (put_int_chars num) = 48 \<longleftrightarrow> put_int_chars num = [48])"
proof -
  have "unat num < 16 ^ 8" using unsigned_less [of num, where 'a = nat] by simp
  then show ?thesis
    using digits_loop_number [of 8 num "[]"] skip_prefix_0_canonical [of "digits_loop 8 num []"]
    by (simp add: put_int_chars_def skip_prefix_0_number hex_number_def [of "[]"]
        del: digits_loop.simps)
qed

end
