(* ===== verification/Interrupt.thy ===== *)
theory Interrupt
  imports Machine
begin

text \<open>
  The interrupt module, \<^verbatim>\<open>src/kernel/interrupt.c\<close>: reading and switching the interrupt flag, the
  interrupt descriptor table and its gates, the table of C handlers with the exception names, and
  the programming of the two 8259A controllers. The lemmas show that a disable/restore pair leaves
  the flags as they were (every critical section of the kernel is such a pair), that a gate holds
  the handler's address, what the tables hold after initialisation, and which address the operand
  of \<^verbatim>\<open>lidt\<close> really carries.
\<close>

section \<open>The interrupt flag\<close>

datatype intr_status = INTR_OFF | INTR_ON

definition EFLAGS_IF :: u32 where
  "EFLAGS_IF = 0x00000200"

definition intr_get_status :: "'a machine_scheme \<Rightarrow> intr_status" where
  "intr_get_status s = (if (EFLAGS_IF AND eflags s) \<noteq> 0 then INTR_ON else INTR_OFF)"

text \<open>The instructions \<^verbatim>\<open>sti\<close> and \<^verbatim>\<open>cli\<close>.\<close>

definition sti :: "'a machine_scheme \<Rightarrow> 'a machine_scheme" where
  "sti s = s\<lparr>eflags := eflags s OR EFLAGS_IF\<rparr>"

definition cli :: "'a machine_scheme \<Rightarrow> 'a machine_scheme" where
  "cli s = s\<lparr>eflags := eflags s AND NOT EFLAGS_IF\<rparr>"

definition intr_enable :: "'a machine_scheme \<Rightarrow> intr_status \<times> 'a machine_scheme" where
  "intr_enable s =
     (if INTR_ON = intr_get_status s then (INTR_ON, s) else (INTR_OFF, sti s))"

definition intr_disable :: "'a machine_scheme \<Rightarrow> intr_status \<times> 'a machine_scheme" where
  "intr_disable s =
     (if INTR_OFF = intr_get_status s then (INTR_OFF, s) else (INTR_ON, cli s))"

definition intr_set_status :: "intr_status \<Rightarrow> 'a machine_scheme \<Rightarrow> intr_status \<times> 'a machine_scheme" where
  "intr_set_status status s = (if status = INTR_ON then intr_enable s else intr_disable s)"

section \<open>Descriptor tables\<close>

definition IDT_DESC_CNT :: nat where "IDT_DESC_CNT = 0x81"

record gate_desc =
  func_offset_low_word :: u16
  selector :: u16
  dcount :: u8
  attribute :: u8
  func_offset_higt_word :: u16

definition make_idt_desc :: "u8 \<Rightarrow> u32 \<Rightarrow> gate_desc" where
  "make_idt_desc attr function =
     \<lparr>func_offset_low_word = ucast (function AND 0x0000FFFF),
      selector = ucast SELECTOR_K_CODE,
      dcount = 0,
      attribute = attr,
      func_offset_higt_word = ucast (drop_bit 16 (function AND 0xFFFF0000))\<rparr>"

text \<open>
  The module's tables. \<open>intr_entry_table\<close> and \<open>syscall_handler\<close> are the entry points of
  \<^verbatim>\<open>kernel.S\<close>; \<open>general\<close> is the address of \<^verbatim>\<open>general_intr_handler\<close>.
\<close>

record intr_tables =
  idt :: "gate_desc list"
  idt_table :: "u32 list"
  intr_name :: "string list"

fun idt_desc_loop :: "(nat \<Rightarrow> u32) \<Rightarrow> nat \<Rightarrow> gate_desc list \<Rightarrow> gate_desc list" where
  "idt_desc_loop intr_entry_table 0 d = d"
| "idt_desc_loop intr_entry_table (Suc n) d =
     idt_desc_loop intr_entry_table n
       (d[IDT_DESC_CNT - Suc n := make_idt_desc IDT_DESC_ATTR_DPL0
            (intr_entry_table (IDT_DESC_CNT - Suc n))])"

definition idt_desc_init :: "(nat \<Rightarrow> u32) \<Rightarrow> u32 \<Rightarrow> intr_tables \<Rightarrow> intr_tables" where
  "idt_desc_init intr_entry_table syscall_handler t =
     (let lastindex = IDT_DESC_CNT - 1;
          d = idt_desc_loop intr_entry_table IDT_DESC_CNT (idt t)
      in t\<lparr>idt := d[lastindex := make_idt_desc IDT_DESC_ATTR_DPL3 syscall_handler]\<rparr>)"

definition exception_names :: "(nat \<times> string) list" where
  "exception_names =
    [(0, ''#DE Divide Error''), (1, ''#DB Debug Exception''), (2, ''NMI Interrupt''),
     (3, ''#BP Breakpoint Exception''), (4, ''#OF Overflow Exception''),
     (5, ''#BR BOUND Range Exceeded Exception''), (6, ''#UD Invalid Opcode Exception''),
     (7, ''#NM Device Not Available Exception''), (8, ''#DF Double Fault Exception''),
     (9, ''Coprocessor Segment Overrun''), (10, ''#TS Invalid TSS Exception''),
     (11, ''#NP Segment Not Present''), (12, ''#SS Stack Fault Exception''),
     (13, ''#GP General Protection Exception''), (14, ''#PF Page-Fault Exception''),
     (16, ''#MF 0x87 FPU Floating-Point Error''), (17, ''#AC Alignment Check Exception''),
     (18, ''#MC Machine-Check Exception''), (19, ''#XF SIMD Floating-Point Exception'')]"

definition exception_init :: "u32 \<Rightarrow> intr_tables \<Rightarrow> intr_tables" where
  "exception_init general t =
     (let names = fold (\<lambda>i ns. ns[i := ''unknown'']) [0..<IDT_DESC_CNT] (intr_name t);
          handlers = fold (\<lambda>i hs. hs[i := general]) [0..<IDT_DESC_CNT] (idt_table t)
      in t\<lparr>idt_table := handlers,
           intr_name := fold (\<lambda>(i, n) ns. ns[i := n]) exception_names names\<rparr>)"

definition register_handler :: "u8 \<Rightarrow> u32 \<Rightarrow> intr_tables \<Rightarrow> kerror + intr_tables" where
  "register_handler vector_no function t =
     (if unat vector_no < IDT_DESC_CNT
      then Inr (t\<lparr>idt_table := (idt_table t)[unat vector_no := function]\<rparr>)
      else Inl (Overflow ''kernel/interrupt.c'' 186))"

section \<open>Controllers, handlers and initialisation\<close>

definition PIC_M_CTRL :: u16 where "PIC_M_CTRL = 0x20"
definition PIC_M_DATA :: u16 where "PIC_M_DATA = 0x21"
definition PIC_S_CTRL :: u16 where "PIC_S_CTRL = 0xa0"
definition PIC_S_DATA :: u16 where "PIC_S_DATA = 0xa1"

definition pic_init :: "'a machine_scheme \<Rightarrow> 'a machine_scheme" where
  "pic_init s =
     (let s = outb PIC_M_CTRL 0x11 s;
          s = outb PIC_M_DATA 0x20 s;
          s = outb PIC_M_DATA 0x04 s;
          s = outb PIC_M_CTRL 0x01 s;
          s = outb PIC_S_CTRL 0x11 s;
          s = outb PIC_S_DATA 0x28 s;
          s = outb PIC_S_DATA 0x02 s;
          s = outb PIC_S_DATA 0x01 s;
          s = outb PIC_M_DATA 0xfc s;
          s = outb PIC_S_DATA 0xff s
      in put_str (lit ''      pic_init done'' @ [10]) s)"

text \<open>
  \<^verbatim>\<open>general_intr_handler\<close> ignores the two spurious vectors; for any other it clears four lines,
  prints the name of the exception (and the address \<^verbatim>\<open>cr2\<close> of a page fault) and spins.
  \<open>general_intr_screen\<close> is the state in which it spins.
\<close>

definition general_intr_screen ::
  "u8 \<Rightarrow> u32 \<Rightarrow> intr_tables \<Rightarrow> 'a machine_scheme \<Rightarrow> 'a machine_scheme" where
  "general_intr_screen vec_nr cr2 t s =
     (let s = put_str (replicate 320 32) s;
          s = put_str (lit (intr_name t ! unat vec_nr)) s
      in if vec_nr = 14 then put_int cr2 (put_str ([10] @ lit ''page fault addr is '') s) else s)"

definition general_intr_handler :: "u8 \<Rightarrow> 'a machine_scheme \<Rightarrow> kerror + 'a machine_scheme" where
  "general_intr_handler vec_nr s = (if vec_nr = 0x27 \<or> vec_nr = 0x2f then Inr s else Inl Hang)"

text \<open>
  The six-byte operand of \<^verbatim>\<open>lidt\<close>/\<^verbatim>\<open>lgdt\<close>: a 16-bit limit and a 32-bit base above it. In
  \<^verbatim>\<open>idt_init\<close> the address is shifted as a \<^verbatim>\<open>uint32_t\<close> and widened to 64 bits afterwards.
\<close>

definition idt_operand :: "u32 \<Rightarrow> u64" where
  "idt_operand idt_addr = (of_nat (8 * IDT_DESC_CNT) - 1) OR ucast (push_bit 16 idt_addr :: u32)"

definition table_limit :: "u64 \<Rightarrow> u16" where
  "table_limit operand = ucast operand"

definition table_base :: "u64 \<Rightarrow> u32" where
  "table_base operand = ucast (drop_bit 16 operand)"

text \<open>
  \<^verbatim>\<open>idt_init\<close>: the tables, the machine after the port writes and messages, and the operand loaded.
\<close>

definition idt_init ::
  "(nat \<Rightarrow> u32) \<Rightarrow> u32 \<Rightarrow> u32 \<Rightarrow> u32 \<Rightarrow> intr_tables \<times> 'a machine_scheme
     \<Rightarrow> (intr_tables \<times> 'a machine_scheme) \<times> u64" where
  "idt_init intr_entry_table syscall_handler general idt_addr ts =
     (let (t, s) = ts;
          s = put_str (lit ''idt_init start'' @ [10]) s;
          t = idt_desc_init intr_entry_table syscall_handler t;
          s = put_str (lit '' idt_desc_init done'' @ [10]) s;
          t = exception_init general t;
          s = pic_init s;
          op = idt_operand idt_addr;
          s = put_str (lit ''idt_init done.'' @ [10]) s
      in ((t, s), op))"

section \<open>Critical sections\<close>

lemma bit_EFLAGS_IF: "bit EFLAGS_IF n \<longleftrightarrow> n = 9"
  by (auto simp: EFLAGS_IF_def mask_bits)

lemma IF_set_iff: "EFLAGS_IF AND e \<noteq> 0 \<longleftrightarrow> bit e 9"
proof -
  have "EFLAGS_IF = 2 ^ 9" by (simp add: EFLAGS_IF_def)
  then have "EFLAGS_IF AND e = e AND 2 ^ 9" by (simp only: and.commute)
  then show ?thesis by (simp only: and_exp_eq_0_iff_not_bit) simp
qed

lemma intr_get_status_OFF: "intr_get_status s = INTR_OFF \<longleftrightarrow> \<not> bit (eflags s) 9"
  by (simp add: intr_get_status_def IF_set_iff)

lemma clear_IF: "\<not> bit e 9 \<Longrightarrow> e AND NOT EFLAGS_IF = e"
  by (rule bit_word_eqI) (auto simp: bit_simps bit_EFLAGS_IF)

lemma set_clear_IF: "bit e 9 \<Longrightarrow> (e AND NOT EFLAGS_IF) OR EFLAGS_IF = e"
  by (rule bit_word_eqI) (auto simp: bit_simps bit_EFLAGS_IF)

lemma not_bit_clear_IF [simp]: "\<not> bit (e AND NOT EFLAGS_IF) 9"
  by (simp add: bit_simps bit_EFLAGS_IF)

lemma snd_intr_disable: "snd (intr_disable s) = s\<lparr>eflags := eflags s AND NOT EFLAGS_IF\<rparr>"
proof (cases "intr_get_status s")
  case INTR_OFF
  then have "eflags s AND NOT EFLAGS_IF = eflags s" by (simp add: intr_get_status_OFF clear_IF)
  with INTR_OFF show ?thesis by (simp add: intr_disable_def)
qed (simp add: intr_disable_def cli_def)

lemma fst_intr_disable: "fst (intr_disable s) = intr_get_status s"
  by (cases "intr_get_status s") (auto simp: intr_disable_def)

text \<open>Restoring the status that \<^verbatim>\<open>intr_disable\<close> returned gives the old flags back.\<close>

lemma intr_restore:
  assumes "eflags t = eflags s AND NOT EFLAGS_IF"
  shows "snd (intr_set_status (intr_get_status s) t) = t\<lparr>eflags := eflags s\<rparr>"
proof (cases "bit (eflags s) 9")
  case True
  then have on: "intr_get_status s = INTR_ON" by (simp add: intr_get_status_def IF_set_iff)
  have off: "intr_get_status t = INTR_OFF" using assms by (simp add: intr_get_status_OFF)
  show ?thesis
    using set_clear_IF [OF True] assms
    by (simp add: intr_set_status_def intr_enable_def on off sti_def)
next
  case False
  then have off: "intr_get_status s = INTR_OFF" "eflags s AND NOT EFLAGS_IF = eflags s"
    by (simp_all add: intr_get_status_OFF clear_IF)
  then have "intr_get_status t = INTR_OFF" using assms False by (simp add: intr_get_status_OFF)
  then show ?thesis using off assms by (simp add: intr_set_status_def intr_disable_def)
qed

lemma bracket_case:
  "(case intr_disable s of (old_status, s) \<Rightarrow> f old_status s) =
   f (intr_get_status s) (s\<lparr>eflags := eflags s AND NOT EFLAGS_IF\<rparr>)"
  using fst_intr_disable [of s] snd_intr_disable [of s] by (simp add: case_prod_beta)

text \<open>
  C39: a critical section runs with interrupts off and leaves the flags register as it found it:
  \<^verbatim>\<open>intr_disable\<close>, any body that does not touch the flags, then \<^verbatim>\<open>intr_set_status\<close> of the status
  that \<^verbatim>\<open>intr_disable\<close> returned.
\<close>

theorem critical_section_restores_flags:
  assumes "\<And>t. eflags (body t) = eflags t"
  shows "intr_get_status (snd (intr_disable s)) = INTR_OFF \<and>
    eflags (snd (intr_set_status (fst (intr_disable s)) (body (snd (intr_disable s))))) = eflags s"
  using assms intr_restore [of "body (snd (intr_disable s))" s]
  by (simp add: fst_intr_disable snd_intr_disable intr_get_status_OFF)

theorem critical_section_restores_flags_witness:
  "eflags (snd (intr_set_status (fst (intr_disable \<lparr>eflags = 0x202, mem = (\<lambda>_. 0),
      screen = \<lparr>cursor = 0, vram = (\<lambda>_. 0)\<rparr>, ports = []\<rparr>))
     (outb 0x20 0x11 (snd (intr_disable \<lparr>eflags = 0x202, mem = (\<lambda>_. 0),
      screen = \<lparr>cursor = 0, vram = (\<lambda>_. 0)\<rparr>, ports = []\<rparr>))))) = 0x202"
  using critical_section_restores_flags [of "outb 0x20 0x11" "\<lparr>eflags = 0x202, mem = (\<lambda>_. 0),
      screen = \<lparr>cursor = 0, vram = (\<lambda>_. 0)\<rparr>, ports = []\<rparr>"]
  by (simp add: outb_def)

section \<open>Gates and tables\<close>

text \<open>
  The two halves of a gate give the handler's address back, for every 32-bit address, and the
  gate selects the kernel code segment with the attribute asked for.
\<close>

lemma gate_holds_handler:
  "push_bit 16 (ucast (func_offset_higt_word (make_idt_desc attr f)) :: u32) OR
     ucast (func_offset_low_word (make_idt_desc attr f)) = f \<and>
   selector (make_idt_desc attr f) = 8 \<and> attribute (make_idt_desc attr f) = attr"
proof -
  have "push_bit 16 (ucast (ucast (drop_bit 16 (f AND 0xFFFF0000)) :: u16) :: u32) OR
      ucast (ucast (f AND 0x0000FFFF) :: u16) = f"
    by (rule bit_word_eqI) (auto simp: bit_simps mask_bits)
  then show ?thesis by (simp add: make_idt_desc_def SELECTOR_K_CODE_def)
qed

lemma fold_list_update_all:
  "n \<le> length xs \<Longrightarrow> fold (\<lambda>i ys. ys[i := f i]) [0..<n] xs = map f [0..<n] @ drop n xs"
proof (induction n)
  case (Suc n)
  then have "fold (\<lambda>i ys. ys[i := f i]) [0..<Suc n] xs = (map f [0..<n] @ drop n xs)[n := f n]"
    by simp
  also have "\<dots> = map f [0..<n] @ (drop n xs)[0 := f n]" by (simp add: list_update_append)
  also have "drop n xs = xs ! n # drop (Suc n) xs" using Suc.prems by (simp add: Cons_nth_drop_Suc)
  finally show ?case by simp
qed simp

lemma idt_desc_loop_eq:
  "n \<le> IDT_DESC_CNT \<Longrightarrow> idt_desc_loop e n d =
   fold (\<lambda>i ys. ys[i := make_idt_desc IDT_DESC_ATTR_DPL0 (e i)]) [IDT_DESC_CNT - n..<IDT_DESC_CNT] d"
proof (induction n arbitrary: d)
  case (Suc n)
  then have "[IDT_DESC_CNT - Suc n..<IDT_DESC_CNT] =
      (IDT_DESC_CNT - Suc n) # [IDT_DESC_CNT - n..<IDT_DESC_CNT]"
    by (simp add: upt_conv_Cons Suc_diff_Suc)
  with Suc show ?case by simp
qed simp

text \<open>
  C38: after \<^verbatim>\<open>idt_init\<close> every gate below 0x80 is a kernel gate to its entry of
  \<^verbatim>\<open>intr_entry_table\<close>, gate 0x80 is the one user mode may use and leads to
  \<^verbatim>\<open>syscall_handler\<close>, every vector is handled by \<^verbatim>\<open>general_intr_handler\<close>, and the named
  exceptions have their names while the others are unknown.
\<close>

theorem idt_init_tables:
  assumes "length (idt t) = IDT_DESC_CNT" "length (idt_table t) = IDT_DESC_CNT"
    "length (intr_name t) = IDT_DESC_CNT" "idt_init e sysc general a (t, s) = ((t', s'), op)"
  shows "(\<forall>i < 0x80. idt t' ! i = make_idt_desc IDT_DESC_ATTR_DPL0 (e i)) \<and>
    idt t' ! 0x80 = make_idt_desc IDT_DESC_ATTR_DPL3 sysc \<and>
    (\<forall>i < 0x81. idt_table t' ! i = general) \<and>
    (\<forall>i < 0x81. intr_name t' ! i =
      (case map_of exception_names i of None \<Rightarrow> ''unknown'' | Some n \<Rightarrow> n))"
proof -
  have t': "t' = exception_init general (idt_desc_init e sysc t)"
    using assms(4) by (auto simp: idt_init_def Let_def)
  have idt: "idt t' = (map (\<lambda>i. make_idt_desc IDT_DESC_ATTR_DPL0 (e i)) [0..<IDT_DESC_CNT])
      [0x80 := make_idt_desc IDT_DESC_ATTR_DPL3 sysc]"
    using assms(1) by (simp add: t' exception_init_def Let_def idt_desc_init_def idt_desc_loop_eq
        fold_list_update_all IDT_DESC_CNT_def)
  have hs: "idt_table t' = map (\<lambda>_. general) [0..<IDT_DESC_CNT]"
    using assms(2) fold_list_update_all [of IDT_DESC_CNT "idt_table t" "\<lambda>_. general"]
    by (simp add: t' exception_init_def Let_def idt_desc_init_def)
  have base: "fold (\<lambda>i ns. ns[i := ''unknown'']) [0..<IDT_DESC_CNT] (intr_name t) =
      map (\<lambda>_. ''unknown'') [0..<IDT_DESC_CNT]"
    using assms(3) fold_list_update_all [of IDT_DESC_CNT "intr_name t" "\<lambda>_. ''unknown''"] by simp
  have upd: "length ns = 0x81 \<Longrightarrow> distinct (map fst xs) \<Longrightarrow> i < 0x81 \<Longrightarrow>
      fold (\<lambda>(i, n) ns. ns[i := n]) xs ns ! i =
      (case map_of xs i of None \<Rightarrow> ns ! i | Some n \<Rightarrow> n)" for xs :: "(nat \<times> string) list" and ns i
  proof (induction xs arbitrary: ns)
    case (Cons x xs)
    have "map_of xs (fst x) = None" using Cons.prems(2) by (simp add: map_of_eq_None_iff)
    with Cons show ?case by (cases x) (auto split: option.splits)
  qed simp
  have names: "intr_name t' = fold (\<lambda>(i, n) ns. ns[i := n]) exception_names
      (map (\<lambda>_. ''unknown'') [0..<IDT_DESC_CNT])"
    by (simp add: t' exception_init_def Let_def idt_desc_init_def base)
  have "distinct (map fst exception_names)" by (simp add: exception_names_def)
  then have "intr_name t' ! i =
      (case map_of exception_names i of None \<Rightarrow> ''unknown'' | Some n \<Rightarrow> n)" if "i < 0x81" for i
    using upd [of "map (\<lambda>_. ''unknown'') [0..<IDT_DESC_CNT]" exception_names i] that
    unfolding names by (simp add: IDT_DESC_CNT_def split: option.splits)
  then show ?thesis by (simp add: idt hs IDT_DESC_CNT_def)
qed

theorem idt_init_tables_witness:
  "\<exists>t' s' op. idt_init of_nat 7 9 0xc0005000
      (\<lparr>idt = replicate IDT_DESC_CNT (make_idt_desc 0 0), idt_table = replicate IDT_DESC_CNT 0,
        intr_name = replicate IDT_DESC_CNT []\<rparr>,
       \<lparr>eflags = 0, mem = (\<lambda>_. 0), screen = \<lparr>cursor = 0, vram = (\<lambda>_. 0)\<rparr>, ports = []\<rparr>)
     = ((t', s'), op) \<and> idt t' ! 0x80 = make_idt_desc IDT_DESC_ATTR_DPL3 7"
proof -
  let ?t = "\<lparr>idt = replicate IDT_DESC_CNT (make_idt_desc 0 0), idt_table = replicate IDT_DESC_CNT 0,
        intr_name = replicate IDT_DESC_CNT []\<rparr>"
  let ?s = "\<lparr>eflags = 0, mem = (\<lambda>_. 0), screen = \<lparr>cursor = 0, vram = (\<lambda>_. 0)\<rparr>, ports = []\<rparr> :: machine"
  obtain t' s' op where "idt_init of_nat 7 9 0xc0005000 (?t, ?s) = ((t', s'), op)"
    by (metis surj_pair)
  with idt_init_tables [OF _ _ _ this] show ?thesis by simp
qed

text \<open>
  The operand of \<^verbatim>\<open>lidt\<close> has the right limit, but the base it carries is only the low 16
  bits of the table's address, because the shift happens in 32 bits; for a kernel address
  (0xc0000000 and above) the processor is sent to the wrong linear address.
\<close>

lemma lidt_base_truncated:
  "table_limit (idt_operand a) = 1031 \<and> table_base (idt_operand a) = a AND 0xFFFF \<and>
   (table_base (idt_operand a) = a \<longleftrightarrow> a < 0x10000)"
proof -
  have "(of_nat IDT_DESC_CNT :: u64) = 129" by (simp add: IDT_DESC_CNT_def)
  then have op: "idt_operand a = 1031 OR ucast (push_bit 16 a :: u32)"
    by (simp add: idt_operand_def)
  have c: "bit (1031 :: int) n \<Longrightarrow> n < 16" for n
    using bit_take_bit_iff [of 16 "1031 :: int" n] by simp
  have lim: "table_limit (idt_operand a) = 1031"
    unfolding table_limit_def op
    by (rule bit_word_eqI) (auto simp: bit_simps)
  have base: "table_base (idt_operand a) = a AND 0xFFFF"
    unfolding table_base_def op
    by (rule bit_word_eqI) (auto simp: bit_simps mask_bits dest: c)
  have "a AND 0xFFFF = a mod 0x10000"
    using take_bit_eq_mask [of 16 a] by (simp add: mask_eq_exp_minus_1 take_bit_eq_mod)
  then have "a AND 0xFFFF = a \<longleftrightarrow> a < 0x10000"
    by (simp add: word_unat_eq_iff unat_mod word_less_nat_alt mod_eq_self_iff_div_eq_0
        div_eq_0_iff)
  with lim base show ?thesis by simp
qed

end
