(* ===== verification/DList.thy ===== *)
theory DList
  imports Interrupt
begin

text \<open>
  The intrusive doubly linked lists of \<^verbatim>\<open>src/lib/kernel/list.c\<close>. A \<^verbatim>\<open>struct list_elem\<close> lives at
  its address in the heap \<open>lnk\<close>; a \<^verbatim>\<open>struct list\<close> at address \<open>l\<close> has its head element at \<open>l\<close> and
  its tail element eight bytes further. The list primitives switch interrupts off around their
  pointer updates, as the source does. \<open>dlist h l xs\<close> says that the list at \<open>l\<close> has the elements
  \<open>xs\<close>; the lemmas show what each operation does to \<open>xs\<close>, that it leaves disjoint lists alone, and
  that the traversals end. The locale \<open>intrusive_queue\<close> is the interface the scheduler and the
  semaphores use.
\<close>

section \<open>list.c\<close>

record list_elem =
  elem_prev :: u32
  elem_next :: u32

type_synonym link_heap = "u32 \<Rightarrow> list_elem"

record list_machine = machine +
  lnk :: link_heap

text \<open>The assignments \<^verbatim>\<open>p->prev = v\<close> and \<^verbatim>\<open>p->next = v\<close>, and \<^verbatim>\<open>&plist->tail\<close>.\<close>

definition set_prev :: "u32 \<Rightarrow> u32 \<Rightarrow> link_heap \<Rightarrow> link_heap" where
  "set_prev p v h = h(p := (h p)\<lparr>elem_prev := v\<rparr>)"

definition set_next :: "u32 \<Rightarrow> u32 \<Rightarrow> link_heap \<Rightarrow> link_heap" where
  "set_next p v h = h(p := (h p)\<lparr>elem_next := v\<rparr>)"

definition list_tail :: "u32 \<Rightarrow> u32" where
  "list_tail plist = plist + 8"

definition list_init :: "u32 \<Rightarrow> 'a list_machine_scheme \<Rightarrow> 'a list_machine_scheme" where
  "list_init l s =
     (let h = set_prev l 0 (lnk s);
          h = set_next l (list_tail l) h;
          h = set_prev (list_tail l) l h;
          h = set_next (list_tail l) 0 h
      in s\<lparr>lnk := h\<rparr>)"

definition list_insert_before :: "u32 \<Rightarrow> u32 \<Rightarrow> 'a list_machine_scheme \<Rightarrow> 'a list_machine_scheme" where
  "list_insert_before before elem s =
     (case intr_disable s of (old_status, s) \<Rightarrow>
        let h = lnk s;
            h = set_prev elem (elem_prev (h before)) h;
            h = set_next elem before h;
            h = set_next (elem_prev (h before)) elem h;
            h = set_prev before elem h
        in snd (intr_set_status old_status (s\<lparr>lnk := h\<rparr>)))"

definition list_push :: "u32 \<Rightarrow> u32 \<Rightarrow> 'a list_machine_scheme \<Rightarrow> 'a list_machine_scheme" where
  "list_push plist elem s = list_insert_before (elem_next (lnk s plist)) elem s"

definition list_append :: "u32 \<Rightarrow> u32 \<Rightarrow> 'a list_machine_scheme \<Rightarrow> 'a list_machine_scheme" where
  "list_append plist elem s = list_insert_before (list_tail plist) elem s"

definition list_remove :: "u32 \<Rightarrow> 'a list_machine_scheme \<Rightarrow> 'a list_machine_scheme" where
  "list_remove pelem s =
     (case intr_disable s of (old_status, s) \<Rightarrow>
        let h = lnk s;
            h = set_prev (elem_next (h pelem)) (elem_prev (h pelem)) h;
            h = set_next (elem_prev (h pelem)) (elem_next (h pelem)) h
        in snd (intr_set_status old_status (s\<lparr>lnk := h\<rparr>)))"

definition list_pop :: "u32 \<Rightarrow> 'a list_machine_scheme \<Rightarrow> u32 \<times> 'a list_machine_scheme" where
  "list_pop plist s = (let elem = elem_next (lnk s plist) in (elem, list_remove elem s))"

definition list_empty :: "u32 \<Rightarrow> 'a list_machine_scheme \<Rightarrow> bool" where
  "list_empty plist s = (elem_next (lnk s plist) = list_tail plist)"

partial_function (option) find_loop :: "link_heap \<Rightarrow> u32 \<Rightarrow> u32 \<Rightarrow> u32 \<Rightarrow> bool option" where
  "find_loop h tail obj_elem elem =
     (if elem = tail then Some False
      else if elem = obj_elem then Some True
      else find_loop h tail obj_elem (elem_next (h elem)))"

definition elem_find :: "u32 \<Rightarrow> u32 \<Rightarrow> 'a list_machine_scheme \<Rightarrow> kerror + bool" where
  "elem_find plist obj_elem s =
     returns (find_loop (lnk s) (list_tail plist) obj_elem (elem_next (lnk s plist)))"

partial_function (option) traversal_loop ::
  "link_heap \<Rightarrow> u32 \<Rightarrow> (u32 \<Rightarrow> int \<Rightarrow> bool) \<Rightarrow> int \<Rightarrow> u32 \<Rightarrow> u32 option" where
  "traversal_loop h tail func arg elem =
     (if elem = tail then Some 0
      else if func elem arg then Some elem
      else traversal_loop h tail func arg (elem_next (h elem)))"

definition list_traversal ::
  "u32 \<Rightarrow> (u32 \<Rightarrow> int \<Rightarrow> bool) \<Rightarrow> int \<Rightarrow> 'a list_machine_scheme \<Rightarrow> kerror + u32" where
  "list_traversal plist func arg s =
     (let elem = elem_next (lnk s plist)
      in if list_empty plist s then Inr 0
         else returns (traversal_loop (lnk s) (list_tail plist) func arg elem))"

partial_function (option) len_loop :: "link_heap \<Rightarrow> u32 \<Rightarrow> u32 \<Rightarrow> u32 \<Rightarrow> u32 option" where
  "len_loop h tail elem len =
     (if elem = tail then Some len
      else len_loop h tail (elem_next (h elem)) (len + 1))"

definition list_len :: "u32 \<Rightarrow> 'a list_machine_scheme \<Rightarrow> kerror + u32" where
  "list_len plist s =
     returns (len_loop (lnk s) (list_tail plist) (elem_next (lnk s plist)) 0)"

text \<open>The macro \<^verbatim>\<open>elem2enyrt\<close>: from the address of a member to that of the structure.\<close>

definition elem2enyrt :: "u32 \<Rightarrow> u32 \<Rightarrow> u32" where
  "elem2enyrt member_offset elem_ptr = elem_ptr - member_offset"

section \<open>The pointer updates\<close>

definition ins_lnk :: "u32 \<Rightarrow> u32 \<Rightarrow> link_heap \<Rightarrow> link_heap" where
  "ins_lnk b e h =
     (let h = set_prev e (elem_prev (h b)) h;
          h = set_next e b h;
          h = set_next (elem_prev (h b)) e h
      in set_prev b e h)"

definition rem_lnk :: "u32 \<Rightarrow> link_heap \<Rightarrow> link_heap" where
  "rem_lnk e h =
     (let h = set_prev (elem_next (h e)) (elem_prev (h e)) h
      in set_next (elem_prev (h e)) (elem_next (h e)) h)"

lemma list_insert_before_eq: "list_insert_before b e s = s\<lparr>lnk := ins_lnk b e (lnk s)\<rparr>"
  unfolding list_insert_before_def bracket_case
  by (simp add: intr_restore Let_def ins_lnk_def)

lemma list_remove_eq: "list_remove e s = s\<lparr>lnk := rem_lnk e (lnk s)\<rparr>"
  unfolding list_remove_def bracket_case
  by (simp add: intr_restore Let_def rem_lnk_def)

lemmas list_op_eqs =
  list_push_def list_append_def list_pop_def list_insert_before_eq list_remove_eq

fun linked :: "link_heap \<Rightarrow> u32 list \<Rightarrow> bool" where
  "linked h (a # b # r) \<longleftrightarrow> elem_next (h a) = b \<and> elem_prev (h b) = a \<and> linked h (b # r)"
| "linked h _ \<longleftrightarrow> True"

definition dlist :: "link_heap \<Rightarrow> u32 \<Rightarrow> u32 list \<Rightarrow> bool" where
  "dlist h l xs \<longleftrightarrow>
     linked h (l # xs @ [list_tail l]) \<and> distinct (l # xs @ [list_tail l])"

definition foot :: "u32 \<Rightarrow> u32 list \<Rightarrow> u32 set" where
  "foot l xs = set (l # xs @ [list_tail l])"

lemma linked_append: "linked h (xs @ a # ys) \<longleftrightarrow> linked h (xs @ [a]) \<and> linked h (a # ys)"
proof (induction xs)
  case (Cons x xs)
  then show ?case by (cases xs) auto
qed simp

lemma linked_cong: "(\<And>a. a \<in> set xs \<Longrightarrow> h' a = h a) \<Longrightarrow> linked h' xs \<longleftrightarrow> linked h xs"
  by (induction h xs rule: linked.induct) auto

lemma linked_set_next_last:
  "p \<notin> set us \<Longrightarrow> linked (set_next p v h) (us @ [p]) \<longleftrightarrow> linked h (us @ [p])"
proof (induction us)
  case (Cons a us)
  then show ?case by (cases us) (auto simp: set_next_def)
qed simp

lemma linked_set_prev_first:
  "b \<notin> set vs \<Longrightarrow> linked (set_prev b v h) (b # vs) \<longleftrightarrow> linked h (b # vs)"
proof (cases vs)
  case (Cons c vs')
  assume "b \<notin> set vs"
  with Cons have "b \<noteq> c" "linked (set_prev b v h) (c # vs') \<longleftrightarrow> linked h (c # vs')"
    by (auto simp: set_prev_def intro!: linked_cong)
  with Cons show ?thesis by (auto simp: set_prev_def)
qed simp

lemma set_prev_apply:
  "set_prev p v h a = (if a = p then (h p)\<lparr>elem_prev := v\<rparr> else h a)"
  by (simp add: set_prev_def)

lemma set_next_apply:
  "set_next p v h a = (if a = p then (h p)\<lparr>elem_next := v\<rparr> else h a)"
  by (simp add: set_next_def)

lemmas link_updates = set_prev_apply set_next_apply

lemma linked_set_prev_outside [simp]: "b \<notin> set xs \<Longrightarrow> linked (set_prev b v h) xs \<longleftrightarrow> linked h xs"
  by (rule linked_cong) (auto simp: link_updates)

lemma linked_set_next_outside [simp]: "p \<notin> set xs \<Longrightarrow> linked (set_next p v h) xs \<longleftrightarrow> linked h xs"
  by (rule linked_cong) (auto simp: link_updates)

lemma ins_lnk_eq:
  "e \<noteq> b \<Longrightarrow> ins_lnk b e h =
     set_prev b e (set_next (elem_prev (h b)) e (set_next e b (set_prev e (elem_prev (h b)) h)))"
  by (simp add: ins_lnk_def Let_def link_updates)

lemma linked_insert:
  assumes l: "linked h (us @ p # b # vs)" and d: "distinct (us @ p # b # vs)"
    and e: "e \<notin> set (us @ p # b # vs)"
  shows "linked (ins_lnk b e h) (us @ p # e # b # vs)"
proof -
  let ?h2 = "set_next p e (set_next e b (set_prev e p h))"
  have p: "elem_prev (h b) = p" "linked h (us @ [p])" "linked h (b # vs)"
    using l linked_append [of h us p "b # vs"] by simp_all
  have ins: "ins_lnk b e h = set_prev b e ?h2" using e p by (subst ins_lnk_eq) simp_all
  have "linked ?h2 (us @ [p])" "linked ?h2 (b # vs)"
    using p d e by (simp_all add: linked_set_next_last)
  moreover have "b \<noteq> p" using d by auto
  ultimately have "linked (set_prev b e ?h2) (us @ [p])" "linked (set_prev b e ?h2) (b # vs)"
    using d by (simp_all add: linked_set_prev_first)
  moreover have "linked (set_prev b e ?h2) [p, e, b]"
    using d e by (auto simp: link_updates)
  ultimately show ?thesis
    unfolding ins by (subst linked_append) simp
qed

lemma linked_remove:
  assumes l: "linked h (us @ p # e # n # vs)" and d: "distinct (us @ p # e # n # vs)"
  shows "linked (rem_lnk e h) (us @ p # n # vs)"
proof -
  let ?h1 = "set_prev n p h"
  have p: "elem_prev (h e) = p" "elem_next (h e) = n" "linked h (us @ [p])" "linked h (n # vs)"
    using l linked_append [of h us p "e # n # vs"] by simp_all
  have rem: "rem_lnk e h = set_next p n ?h1"
    using d p by (simp add: rem_lnk_def Let_def link_updates)
  have "n \<noteq> p" using d by auto
  then have "linked ?h1 (us @ [p])" "linked ?h1 (n # vs)"
    using p d by (simp_all add: linked_set_prev_first)
  then have "linked (set_next p n ?h1) (us @ [p])" "linked (set_next p n ?h1) (n # vs)"
    using d by (simp_all add: linked_set_next_last)
  moreover have "linked (set_next p n ?h1) [p, n]" using d by (auto simp: link_updates)
  ultimately show ?thesis unfolding rem by (subst linked_append) simp
qed

section \<open>Operations on the represented list\<close>

lemma foot_simps [simp]:
  "foot l [] = {l, list_tail l}"
  "foot l (x # xs) = insert x (foot l xs)"
  "foot l (xs @ ys) = foot l xs \<union> foot l ys"
  by (auto simp: foot_def)

lemma list_tail_neq [simp]: "list_tail l \<noteq> l" "l \<noteq> list_tail l"
  by (simp_all add: list_tail_def)

lemma head_in_foot [simp]: "l \<in> foot l xs" "list_tail l \<in> foot l xs"
  by (simp_all add: foot_def)

lemma set_subset_foot: "set xs \<subseteq> foot l xs"
  by (auto simp: foot_def)

lemma in_foot_iff: "a \<in> foot l xs \<longleftrightarrow> a = l \<or> a = list_tail l \<or> a \<in> set xs"
  by (auto simp: foot_def)

lemma dlist_cong: "(\<And>a. a \<in> foot l xs \<Longrightarrow> h' a = h a) \<Longrightarrow> dlist h' l xs \<longleftrightarrow> dlist h l xs"
  using linked_cong [of "l # xs @ [list_tail l]" h' h] by (simp add: dlist_def foot_def)

lemma dlist_distinct: "dlist h l xs \<Longrightarrow> distinct xs \<and> l \<notin> set xs \<and> list_tail l \<notin> set xs"
  by (auto simp: dlist_def)

lemma dlist_init: "dlist (lnk (list_init l s)) l []"
  by (simp add: dlist_def list_init_def Let_def link_updates)

text \<open>The links that \<^verbatim>\<open>list_init\<close> sets.\<close>

definition init_lnk :: "u32 \<Rightarrow> link_heap \<Rightarrow> link_heap" where
  "init_lnk l h = set_next (list_tail l) 0 (set_prev (list_tail l) l (set_next l (list_tail l) (set_prev l 0 h)))"

lemma list_init_eq: "list_init l s = s\<lparr>lnk := init_lnk l (lnk s)\<rparr>"
  by (simp add: list_init_def init_lnk_def Let_def)

lemma init_lnk_other: "a \<noteq> l \<Longrightarrow> a \<noteq> list_tail l \<Longrightarrow> init_lnk l h a = h a"
  by (simp add: init_lnk_def link_updates)

lemma dlist_init_lnk: "dlist (init_lnk l h) l []"
  by (simp add: dlist_def init_lnk_def link_updates)

lemma dlist_init_keeps:
  "l \<notin> foot q xs \<Longrightarrow> list_tail l \<notin> foot q xs \<Longrightarrow> dlist (init_lnk l h) q xs \<longleftrightarrow> dlist h q xs"
  by (rule dlist_cong) (metis init_lnk_other)

lemma dlist_append:
  assumes "dlist h l xs" "e \<notin> foot l xs"
  shows "dlist (ins_lnk (list_tail l) e h) l (xs @ [e])"
proof -
  obtain us p where up: "l # xs = us @ [p]" by (metis list.distinct(1) rev_exhaust)
  then have nodes: "l # xs @ [list_tail l] = us @ p # [list_tail l]"
    by (metis append_Cons append_assoc append_Nil)
  have "linked (ins_lnk (list_tail l) e h) (us @ p # e # [list_tail l])"
    using assms nodes by (intro linked_insert) (auto simp: dlist_def foot_def)
  moreover have "us @ p # e # [list_tail l] = l # (xs @ [e]) @ [list_tail l]"
    using up by (metis append_Cons append_assoc append_Nil)
  ultimately show ?thesis using assms by (auto simp: dlist_def foot_def)
qed

lemma dlist_first: "dlist h l xs \<Longrightarrow> elem_next (h l) = hd (xs @ [list_tail l])"
  by (cases xs) (auto simp: dlist_def)

lemma dlist_push:
  assumes "dlist h l xs" "e \<notin> foot l xs"
  shows "dlist (ins_lnk (elem_next (h l)) e h) l (e # xs)"
proof -
  obtain b vs where bv: "xs @ [list_tail l] = b # vs" by (metis append_is_Nil_conv neq_Nil_conv)
  then have "elem_next (h l) = b" using dlist_first [OF assms(1)] by simp
  moreover have "linked (ins_lnk b e h) ([] @ l # e # b # vs)"
    using assms bv by (intro linked_insert) (auto simp: dlist_def foot_def)
  ultimately show ?thesis using assms bv by (auto simp: dlist_def foot_def)
qed

lemma dlist_remove:
  assumes "dlist h l (us @ e # vs)"
  shows "dlist (rem_lnk e h) l (us @ vs)"
proof -
  obtain us' p where up: "l # us = us' @ [p]" by (metis list.distinct(1) rev_exhaust)
  obtain n vs' where nv: "vs @ [list_tail l] = n # vs'" by (metis append_is_Nil_conv neq_Nil_conv)
  have nodes: "l # (us @ e # vs) @ [list_tail l] = us' @ p # e # n # vs'"
    using up nv by (metis (no_types, lifting) append_Cons append_assoc append_Nil)
  have "linked (rem_lnk e h) (us' @ p # n # vs')"
    using assms unfolding dlist_def nodes by (intro linked_remove) simp_all
  moreover have "us' @ p # n # vs' = l # (us @ vs) @ [list_tail l]"
    using up nv by (metis (no_types, lifting) append_Cons append_assoc append_Nil)
  ultimately show ?thesis using assms by (auto simp: dlist_def)
qed

subsection \<open>What an operation touches\<close>

lemma ins_lnk_outside: "a \<noteq> e \<Longrightarrow> a \<noteq> b \<Longrightarrow> a \<noteq> elem_prev (h b) \<Longrightarrow> e \<noteq> b \<Longrightarrow> ins_lnk b e h a = h a"
  by (simp add: ins_lnk_eq link_updates)

lemma dlist_prev_tail_in_foot: "dlist h l xs \<Longrightarrow> elem_prev (h (list_tail l)) \<in> foot l xs"
proof -
  assume d: "dlist h l xs"
  obtain us p where up: "l # xs = us @ [p]" by (metis list.distinct(1) rev_exhaust)
  then have nodes: "l # xs @ [list_tail l] = us @ p # [list_tail l]"
    by (metis append_Cons append_assoc append_Nil)
  then have "elem_prev (h (list_tail l)) = p"
    using d linked_append [of h us p "[list_tail l]"] unfolding dlist_def nodes by simp
  moreover have "p \<in> set (l # xs)" unfolding up by simp
  ultimately show ?thesis by (auto simp: foot_def)
qed

lemma append_outside:
  assumes "dlist h l xs" "e \<notin> foot l xs" "a \<notin> foot l xs" "a \<noteq> e"
  shows "ins_lnk (list_tail l) e h a = h a"
  using assms dlist_prev_tail_in_foot [OF assms(1)] by (intro ins_lnk_outside) auto

lemma push_outside:
  assumes "dlist h l xs" "e \<notin> foot l xs" "a \<notin> foot l xs" "a \<noteq> e"
  shows "ins_lnk (elem_next (h l)) e h a = h a"
proof -
  have first: "elem_next (h l) \<in> foot l xs"
    using dlist_first [OF assms(1)] by (cases xs) (auto simp: foot_def)
  have "elem_prev (h (elem_next (h l))) = l" using assms(1) by (cases xs) (auto simp: dlist_def)
  with assms first show ?thesis by (intro ins_lnk_outside) auto
qed

lemma remove_outside:
  assumes "dlist h l (us @ e # vs)" "a \<notin> foot l (us @ e # vs)"
  shows "rem_lnk e h a = h a"
proof -
  obtain us' p where up: "l # us = us' @ [p]" by (metis list.distinct(1) rev_exhaust)
  obtain n vs' where nv: "vs @ [list_tail l] = n # vs'" by (metis append_is_Nil_conv neq_Nil_conv)
  have nodes: "l # (us @ e # vs) @ [list_tail l] = us' @ p # e # n # vs'"
    using up nv by (metis (no_types, lifting) append_Cons append_assoc append_Nil)
  then have "elem_prev (h e) = p" "elem_next (h e) = n" "p \<noteq> e" "n \<noteq> e"
    using assms(1) linked_append [of h us' p "e # n # vs'"] unfolding dlist_def nodes by auto
  moreover have "p \<in> foot l (us @ e # vs)" "n \<in> foot l (us @ e # vs)"
    unfolding foot_def nodes by simp_all
  ultimately show ?thesis
    using assms(2) by (auto simp: rem_lnk_def Let_def link_updates)
qed

section \<open>The queue interface\<close>

text \<open>
  What the scheduler, the semaphores and the I/O queues rely on: elements are put at either end
  of a queue, the first one is read and unlinked, and none of this disturbs a queue with other
  nodes. \<open>foot\<close> are the heap cells a queue occupies.
\<close>

locale intrusive_queue =
  fixes rep :: "'h \<Rightarrow> 'q \<Rightarrow> 'e list \<Rightarrow> bool"
    and cells :: "'q \<Rightarrow> 'e list \<Rightarrow> 'e set"
    and append :: "'q \<Rightarrow> 'e \<Rightarrow> 'h \<Rightarrow> 'h"
    and push :: "'q \<Rightarrow> 'e \<Rightarrow> 'h \<Rightarrow> 'h"
    and unlink :: "'e \<Rightarrow> 'h \<Rightarrow> 'h"
    and first :: "'q \<Rightarrow> 'h \<Rightarrow> 'e"
  assumes rep_append: "rep h q xs \<Longrightarrow> e \<notin> cells q xs \<Longrightarrow> rep (append q e h) q (xs @ [e])"
    and rep_push: "rep h q xs \<Longrightarrow> e \<notin> cells q xs \<Longrightarrow> rep (push q e h) q (e # xs)"
    and rep_unlink: "rep h q (us @ e # vs) \<Longrightarrow> rep (unlink e h) q (us @ vs)"
    and rep_first: "rep h q (x # xs) \<Longrightarrow> first q h = x"
    and rep_distinct: "rep h q xs \<Longrightarrow> distinct xs"
    and cells_snoc: "cells q (xs @ [e]) = insert e (cells q xs)"
    and cells_cons: "cells q (e # xs) = insert e (cells q xs)"
    and own_cells: "rep h q (e # xs) \<Longrightarrow> e \<notin> cells q xs"
    and append_frame: "rep h q xs \<Longrightarrow> rep h q' ys \<Longrightarrow> e \<notin> cells q xs \<Longrightarrow>
      cells q xs \<inter> cells q' ys = {} \<Longrightarrow> e \<notin> cells q' ys \<Longrightarrow> rep (append q e h) q' ys"
    and push_frame: "rep h q xs \<Longrightarrow> rep h q' ys \<Longrightarrow> e \<notin> cells q xs \<Longrightarrow>
      cells q xs \<inter> cells q' ys = {} \<Longrightarrow> e \<notin> cells q' ys \<Longrightarrow> rep (push q e h) q' ys"
    and unlink_frame: "rep h q (us @ e # vs) \<Longrightarrow> rep h q' ys \<Longrightarrow>
      cells q (us @ e # vs) \<inter> cells q' ys = {} \<Longrightarrow> rep (unlink e h) q' ys"
begin

lemma pop_first: "rep h q (x # xs) \<Longrightarrow> rep (unlink (first q h) h) q xs"
  using rep_unlink [of h q "[]" x xs] by (simp add: rep_first)

lemma pop_frame:
  "rep h q (x # xs) \<Longrightarrow> rep h q' ys \<Longrightarrow> cells q (x # xs) \<inter> cells q' ys = {} \<Longrightarrow>
   rep (unlink (first q h) h) q' ys"
  using unlink_frame [of h q "[]" x xs q' ys] by (simp add: rep_first)

text \<open>A round-robin turn: the running element goes to the back and the front one is taken.\<close>

lemma rotate_turn:
  assumes "rep h q xs" "e \<notin> cells q xs"
  shows "first q (append q e h) = hd (xs @ [e]) \<and>
    rep (unlink (first q (append q e h)) (append q e h)) q (tl (xs @ [e]))"
proof -
  have r: "rep (append q e h) q (hd (xs @ [e]) # tl (xs @ [e]))"
    using rep_append [OF assms] by simp
  show ?thesis using pop_first [OF r] rep_first [OF r] by simp
qed

text \<open>First in, first out: what is appended one after the other comes out in that order.\<close>

lemma append_all:
  "rep h q xs \<Longrightarrow> distinct es \<Longrightarrow> set es \<inter> cells q xs = {} \<Longrightarrow>
   rep (fold (append q) es h) q (xs @ es)"
proof (induction es arbitrary: h xs)
  case (Cons e es)
  have "rep (append q e h) q (xs @ [e])" using Cons.prems by (intro rep_append) auto
  moreover have "set es \<inter> cells q (xs @ [e]) = {}" using Cons.prems by (auto simp: cells_snoc)
  ultimately have "rep (fold (append q) es (append q e h)) q ((xs @ [e]) @ es)"
    using Cons.prems(2) by (intro Cons.IH) auto
  then show ?case by simp
qed simp

text \<open>Waking a waiter: the first element of one queue goes to the front of another.\<close>

lemma transfer_front:
  assumes "rep h q (x # xs)" "rep h q' ys" "cells q (x # xs) \<inter> cells q' ys = {}"
  shows "rep (push q' x (unlink (first q h) h)) q xs"
    and "rep (push q' x (unlink (first q h) h)) q' (x # ys)"
proof -
  let ?h = "unlink (first q h) h"
  have q: "rep ?h q xs" and q': "rep ?h q' ys"
    using assms by (auto intro: pop_first pop_frame)
  have x: "x \<notin> cells q' ys" "x \<notin> cells q xs"
    using assms(3) own_cells [OF assms(1)] by (auto simp: cells_cons)
  show "rep (push q' x ?h) q' (x # ys)" using q' x(1) by (rule rep_push)
  show "rep (push q' x ?h) q xs"
    using assms(3) x by (intro push_frame [OF q' q]) (auto simp: cells_cons)
qed

end

interpretation lq: intrusive_queue dlist foot
  "\<lambda>l e h. ins_lnk (list_tail l) e h" "\<lambda>l e h. ins_lnk (elem_next (h l)) e h" rem_lnk
  "\<lambda>l h. elem_next (h l)"
proof (unfold_locales, goal_cases)
  case (1 h q xs e) then show ?case by (rule dlist_append)
next
  case (2 h q xs e) then show ?case by (rule dlist_push)
next
  case (3 h q us e vs) then show ?case by (rule dlist_remove)
next
  case (4 h q x xs) then show ?case using dlist_first [of h q "x # xs"] by simp
next
  case (5 h q xs) then show ?case by (simp add: dlist_distinct)
next
  case (6 q xs e) show ?case by (auto simp: foot_def)
next
  case (7 q e xs) show ?case by simp
next
  case (8 h q e xs) then show ?case using dlist_distinct [of h q "e # xs"] by (auto simp: in_foot_iff)
next
  case (9 h q xs q' ys e)
  have "ins_lnk (list_tail q) e h a = h a" if "a \<in> foot q' ys" for a
    using that 9 by (intro append_outside [of h q xs]) auto
  then have "dlist (ins_lnk (list_tail q) e h) q' ys \<longleftrightarrow> dlist h q' ys" by (rule dlist_cong)
  with 9 show ?case by blast
next
  case (10 h q xs q' ys e)
  have "ins_lnk (elem_next (h q)) e h a = h a" if "a \<in> foot q' ys" for a
    using that 10 by (intro push_outside [of h q xs]) auto
  then have "dlist (ins_lnk (elem_next (h q)) e h) q' ys \<longleftrightarrow> dlist h q' ys" by (rule dlist_cong)
  with 10 show ?case by blast
next
  case (11 h q us e vs q' ys)
  have "rem_lnk e h a = h a" if "a \<in> foot q' ys" for a
    using that 11 by (intro remove_outside [of h q us e vs]) auto
  then have "dlist (rem_lnk e h) q' ys \<longleftrightarrow> dlist h q' ys" by (rule dlist_cong)
  with 11 show ?case by blast
qed

section \<open>Traversals\<close>

lemma dlist_suffix_induct:
  assumes "dlist h l (us @ vs)"
  shows "linked h (vs @ [list_tail l]) \<and> list_tail l \<notin> set vs"
proof -
  have "linked h ((l # us) @ vs @ [list_tail l])" using assms by (simp add: dlist_def)
  moreover have "linked h (vs @ [list_tail l])" if "linked h ((l # us) @ vs @ [list_tail l])"
  proof (cases vs)
    case (Cons v vs')
    with that linked_append [of h "l # us" v "vs' @ [list_tail l]"] show ?thesis by simp
  qed simp
  ultimately have "linked h (vs @ [list_tail l])" by blast
  then show ?thesis using assms by (auto simp: dlist_def)
qed

lemma find_loop_linked:
  "linked h (vs @ [t]) \<Longrightarrow> t \<notin> set vs \<Longrightarrow>
   find_loop h t x (hd (vs @ [t])) = Some (x \<in> set vs)"
proof (induction vs)
  case Nil
  then show ?case by (subst find_loop.simps) simp
next
  case (Cons v vs)
  then have "elem_next (h v) = hd (vs @ [t])" "linked h (vs @ [t])" by (cases vs; simp)+
  with Cons show ?case by (subst find_loop.simps) auto
qed

lemma len_loop_linked:
  "linked h (vs @ [t]) \<Longrightarrow> t \<notin> set vs \<Longrightarrow>
   len_loop h t (hd (vs @ [t])) n = Some (n + of_nat (length vs))"
proof (induction vs arbitrary: n)
  case Nil
  then show ?case by (subst len_loop.simps) simp
next
  case (Cons v vs)
  then have "elem_next (h v) = hd (vs @ [t])" "linked h (vs @ [t])" by (cases vs; simp)+
  with Cons show ?case by (subst len_loop.simps) (auto simp: add.commute add.left_commute)
qed

lemma traversal_loop_linked:
  "linked h (vs @ [t]) \<Longrightarrow> t \<notin> set vs \<Longrightarrow>
   traversal_loop h t f a (hd (vs @ [t])) =
   Some (case find (\<lambda>v. f v a) vs of None \<Rightarrow> 0 | Some v \<Rightarrow> v)"
proof (induction vs)
  case Nil
  then show ?case by (subst traversal_loop.simps) simp
next
  case (Cons v vs)
  then have "elem_next (h v) = hd (vs @ [t])" "linked h (vs @ [t])" by (cases vs; simp)+
  with Cons show ?case by (subst traversal_loop.simps) auto
qed

lemma elem_find_dlist: "dlist (lnk s) l xs \<Longrightarrow> elem_find l x s = Inr (x \<in> set xs)"
  using dlist_suffix_induct [of "lnk s" l "[]" xs]
  by (simp add: elem_find_def find_loop_linked dlist_first)

lemma list_empty_dlist: "dlist (lnk s) l xs \<Longrightarrow> list_empty l s \<longleftrightarrow> xs = []"
  by (cases xs) (auto simp: list_empty_def dlist_def)

section \<open>What the list routines do\<close>

text \<open>
  C33: on a list with elements \<open>xs\<close> and an element that is not part of it, \<^verbatim>\<open>list_append\<close> gives
  \<open>xs @ [e]\<close> and \<^verbatim>\<open>list_push\<close> gives \<open>e # xs\<close>; every list element outside the list keeps its
  links, nothing but the links changes, and in particular the interrupt flag is what it was.
\<close>

theorem list_insert_ends:
  assumes "dlist (lnk s) l xs" "e \<notin> foot l xs"
  shows "dlist (lnk (list_append l e s)) l (xs @ [e]) \<and> dlist (lnk (list_push l e s)) l (e # xs) \<and>
    (\<forall>a. a \<notin> foot l (e # xs) \<longrightarrow>
      lnk (list_append l e s) a = lnk s a \<and> lnk (list_push l e s) a = lnk s a) \<and>
    (\<exists>h. list_append l e s = s\<lparr>lnk := h\<rparr>) \<and> (\<exists>h. list_push l e s = s\<lparr>lnk := h\<rparr>)"
  using assms lq.rep_append [OF assms] lq.rep_push [OF assms] append_outside [OF assms]
    push_outside [OF assms]
  by (auto simp: list_op_eqs)

definition demo_lists :: list_machine where
  "demo_lists = list_append 100 40 (list_append 100 20 (list_init 100
     \<lparr>eflags = 0x202, mem = (\<lambda>_. 0), screen = \<lparr>cursor = 0, vram = (\<lambda>_. 0)\<rparr>, ports = [],
      lnk = (\<lambda>_. \<lparr>elem_prev = 0, elem_next = 0\<rparr>)\<rparr>))"

lemma demo_lists_dlist: "dlist (lnk demo_lists) 100 [20, 40]"
  using lq.append_all [OF dlist_init, of "[20, 40]" 100]
  by (simp add: demo_lists_def list_op_eqs list_tail_def)

theorem list_insert_ends_witness:
  "dlist (lnk (list_append 100 60 demo_lists)) 100 [20, 40, 60] \<and>
   dlist (lnk (list_push 100 60 demo_lists)) 100 [60, 20, 40]"
  using list_insert_ends [OF demo_lists_dlist, of 60] by (simp add: list_tail_def)

text \<open>
  C34: \<^verbatim>\<open>list_remove\<close> of an element takes exactly that element out and \<^verbatim>\<open>list_pop\<close> of a
  non-empty list returns the first element and leaves the rest; elements outside the list keep
  their links.
\<close>

theorem list_unlink:
  assumes "dlist (lnk s) l (us @ e # vs)"
  shows "dlist (lnk (list_remove e s)) l (us @ vs) \<and>
    fst (list_pop l s) = hd (us @ [e]) \<and> dlist (lnk (snd (list_pop l s))) l (tl (us @ e # vs)) \<and>
    (\<forall>a. a \<notin> foot l (us @ e # vs) \<longrightarrow>
      lnk (list_remove e s) a = lnk s a \<and> lnk (snd (list_pop l s)) a = lnk s a)"
proof -
  obtain x xs where xs: "us @ e # vs = x # xs" by (cases us) auto
  have d: "dlist (lnk s) l ([] @ x # xs)" using assms xs by simp
  have hd: "hd (us @ [e]) = x" using xs by (cases us) auto
  have "elem_next (lnk s l) = x" using lq.rep_first d by fastforce
  then show ?thesis
    using assms d hd xs lq.rep_unlink [OF assms] lq.pop_first [of "lnk s" l x xs]
      remove_outside [OF assms] remove_outside [OF d]
    by (simp add: list_op_eqs Let_def)
qed

theorem list_unlink_witness:
  "dlist (lnk (list_remove 40 demo_lists)) 100 [20] \<and> fst (list_pop 100 demo_lists) = 20"
  using list_unlink [of demo_lists 100 "[20]" 40 "[]"] demo_lists_dlist by simp

text \<open>
  C35: the traversals of a well-formed list end: \<^verbatim>\<open>elem_find\<close> tells whether the element is in
  the list, \<^verbatim>\<open>list_len\<close> counts the elements (modulo 2 to the 32), \<^verbatim>\<open>list_empty\<close> tells whether
  there are none, and \<^verbatim>\<open>list_traversal\<close> returns the first element its function accepts, or NULL.
\<close>

theorem list_traversals_end:
  assumes "dlist (lnk s) l xs"
  shows "elem_find l x s = Inr (x \<in> set xs) \<and> list_len l s = Inr (of_nat (length xs)) \<and>
    (list_empty l s \<longleftrightarrow> xs = []) \<and>
    list_traversal l f a s = Inr (case find (\<lambda>v. f v a) xs of None \<Rightarrow> 0 | Some v \<Rightarrow> v)"
proof -
  have l: "linked (lnk s) (xs @ [list_tail l])" "list_tail l \<notin> set xs"
    using dlist_suffix_induct [of "lnk s" l "[]" xs] assms by simp_all
  have "list_traversal l f a s = Inr (case find (\<lambda>v. f v a) xs of None \<Rightarrow> 0 | Some v \<Rightarrow> v)"
    using traversal_loop_linked [OF l, of f a] list_empty_dlist [OF assms] dlist_first [OF assms]
    by (cases xs) (simp_all add: list_traversal_def Let_def)
  with assms l show ?thesis
    by (simp add: elem_find_dlist list_len_def len_loop_linked dlist_first list_empty_dlist)
qed

theorem list_traversals_end_witness:
  "elem_find 100 40 demo_lists = Inr True \<and> list_len 100 demo_lists = Inr 2"
  using list_traversals_end [OF demo_lists_dlist, of 40] by simp

end
