(* ===== verification/Paging.thy ===== *)
theory Paging
  imports DList Bitmap
begin

text \<open>
  The paged address space and the routines of \<^verbatim>\<open>src/kernel/memory.c\<close> that find page-table
  entries: \<^verbatim>\<open>pte_ptr\<close>, \<^verbatim>\<open>pde_ptr\<close> and \<^verbatim>\<open>addr_v2p\<close>. The kernel reaches its page tables through
  linear addresses, because the last entry of every page directory points at the directory itself.
  \<open>phys\<close> holds the physical memory as 32-bit words, \<open>translate\<close> is the processor's two-level walk
  and \<open>rd32\<close> and \<open>wr32\<close> are the accesses through it, which fault on a page that is not present. The
  lemmas show that in a self-mapped address space the two pointers reach exactly the entries the
  walk consults, and what a changed entry does to the translation of every address.
\<close>

section \<open>The memory management unit\<close>

record mmu_machine = list_machine +
  cr3 :: u32
  phys :: "u32 \<Rightarrow> u32"

definition PDE_IDX :: "u32 \<Rightarrow> u32" where
  "PDE_IDX addr = drop_bit 22 (addr AND 0xffc00000)"

definition PTE_IDX :: "u32 \<Rightarrow> u32" where
  "PTE_IDX addr = drop_bit 12 (addr AND 0x003ff000)"

definition PG_P_1 :: u32 where "PG_P_1 = 1"
definition PG_RW_W :: u32 where "PG_RW_W = 2"
definition PG_US_U :: u32 where "PG_US_U = 4"

text \<open>The frame a directory or table entry points at, and its present bit.\<close>

definition frame :: "u32 \<Rightarrow> u32" where
  "frame entry = entry AND 0xfffff000"

definition present :: "u32 \<Rightarrow> bool" where
  "present entry \<longleftrightarrow> entry AND 1 \<noteq> 0"

text \<open>The physical addresses of the two entries that the walk of \<open>v\<close> consults.\<close>

definition pde_addr :: "u32 \<Rightarrow> u32 \<Rightarrow> u32" where
  "pde_addr dir v = frame dir + PDE_IDX v * 4"

definition pte_addr :: "u32 \<Rightarrow> (u32 \<Rightarrow> u32) \<Rightarrow> u32 \<Rightarrow> u32" where
  "pte_addr dir ph v = frame (ph (pde_addr dir v)) + PTE_IDX v * 4"

definition translate :: "u32 \<Rightarrow> (u32 \<Rightarrow> u32) \<Rightarrow> u32 \<Rightarrow> u32 option" where
  "translate dir ph v =
     (if present (ph (pde_addr dir v)) \<and> present (ph (pte_addr dir ph v))
      then Some (frame (ph (pte_addr dir ph v)) + (v AND 0xfff)) else None)"

definition rd32 :: "u32 \<Rightarrow> 'a mmu_machine_scheme \<Rightarrow> kerror + u32" where
  "rd32 v s =
     (case translate (cr3 s) (phys s) v of None \<Rightarrow> Inl (Fault v) | Some a \<Rightarrow> Inr (phys s a))"

definition wr32 :: "u32 \<Rightarrow> u32 \<Rightarrow> 'a mmu_machine_scheme \<Rightarrow> kerror + 'a mmu_machine_scheme" where
  "wr32 v x s =
     (case translate (cr3 s) (phys s) v of None \<Rightarrow> Inl (Fault v)
      | Some a \<Rightarrow> Inr (s\<lparr>phys := (phys s)(a := x)\<rparr>))"

section \<open>memory.c: entry pointers\<close>

definition pte_ptr :: "u32 \<Rightarrow> u32" where
  "pte_ptr vaddr = 0xffc00000 + drop_bit 10 (vaddr AND 0xffc00000) + PTE_IDX vaddr * 4"

definition pde_ptr :: "u32 \<Rightarrow> u32" where
  "pde_ptr vaddr = 0xfffff000 + PDE_IDX vaddr * 4"

definition addr_v2p :: "u32 \<Rightarrow> 'a mmu_machine_scheme \<Rightarrow> kerror + u32" where
  "addr_v2p vaddr s =
     sbind (rd32 (pte_ptr vaddr) s) (\<lambda>pte. Inr ((pte AND 0xfffff000) + (vaddr AND 0x00000fff)))"

section \<open>Index arithmetic\<close>

lemma times_4_push_bit: "(x :: u32) * 4 = push_bit 2 x"
  by (simp add: push_bit_eq_mult)

lemma bit_PDE_IDX [bit_simps]: "bit (PDE_IDX v) n \<longleftrightarrow> bit v (22 + n) \<and> n < 10"
  by (auto simp: PDE_IDX_def bit_simps mask_bits)

lemma bit_PTE_IDX [bit_simps]: "bit (PTE_IDX v) n \<longleftrightarrow> bit v (12 + n) \<and> n < 10"
  by (auto simp: PTE_IDX_def bit_simps mask_bits)

lemma bit_frame [bit_simps]: "bit (frame e) n \<longleftrightarrow> bit e n \<and> 12 \<le> n"
  by (auto simp: frame_def bit_simps mask_bits dest: bit_imp_le_length)

lemma frame_idem [simp]: "frame (frame e) = frame e"
  by (rule bit_word_eqI) (auto simp: bit_simps)

text \<open>Sums of fields that do not overlap are disjunctions, so their bits can be read off.\<close>

lemma offset_or: "frame d + (v AND 0xfff) = frame d OR (v AND 0xfff)"
  by (rule disjunctive_add_eq_or, rule bit_word_eqI) (auto simp: bit_simps mask_bits)

lemma pde_ptr_or: "pde_ptr v = 0xfffff000 OR push_bit 2 (PDE_IDX v)"
  unfolding pde_ptr_def times_4_push_bit
  by (rule disjunctive_add_eq_or, rule bit_word_eqI) (auto simp: bit_simps mask_bits)

lemma pte_ptr_or:
  "pte_ptr v = (0xffc00000 OR drop_bit 10 (v AND 0xffc00000)) OR push_bit 2 (PTE_IDX v)"
proof -
  have 1: "0xffc00000 + drop_bit 10 (v AND 0xffc00000) = (0xffc00000 OR drop_bit 10 (v AND 0xffc00000) :: u32)"
    by (rule disjunctive_add_eq_or, rule bit_word_eqI) (auto simp: bit_simps mask_bits)
  show ?thesis
    unfolding pte_ptr_def times_4_push_bit 1
    by (rule disjunctive_add_eq_or, rule bit_word_eqI) (auto simp: bit_simps mask_bits)
qed

lemma bit_pde_ptr: "bit (pde_ptr v) n \<longleftrightarrow> n < 32 \<and> (12 \<le> n \<or> 2 \<le> n \<and> bit v (20 + n))"
  unfolding pde_ptr_or by (auto simp: bit_simps mask_bits)

lemma bit_pte_ptr:
  "bit (pte_ptr v) n \<longleftrightarrow> n < 32 \<and> (22 \<le> n \<or> 2 \<le> n \<and> bit v (10 + n))"
  unfolding pte_ptr_or by (auto simp: bit_simps mask_bits)

lemma PDE_IDX_pde_ptr [simp]: "PDE_IDX (pde_ptr v) = 1023"
  and PTE_IDX_pde_ptr [simp]: "PTE_IDX (pde_ptr v) = 1023"
  and PDE_IDX_pte_ptr [simp]: "PDE_IDX (pte_ptr v) = 1023"
  and PTE_IDX_pte_ptr [simp]: "PTE_IDX (pte_ptr v) = PDE_IDX v"
  by (rule bit_word_eqI; auto simp: bit_simps bit_pde_ptr bit_pte_ptr mask_bits)+

lemma offset_pde_ptr [simp]: "pde_ptr v AND 0xfff = PDE_IDX v * 4"
  and offset_pte_ptr [simp]: "pte_ptr v AND 0xfff = PTE_IDX v * 4"
  unfolding times_4_push_bit
  by (rule bit_word_eqI; auto simp: bit_simps bit_pde_ptr bit_pte_ptr mask_bits)+

text \<open>Table slots: the frame and the index can be recovered from the address of an entry.\<close>

definition is_index :: "u32 \<Rightarrow> bool" where
  "is_index i \<longleftrightarrow> (\<forall>n. bit i n \<longrightarrow> n < 10)"

lemma is_index [simp]: "is_index (PDE_IDX v)" "is_index (PTE_IDX v)"
  by (simp_all add: is_index_def bit_simps)

lemma bit_slot:
  assumes "is_index i"
  shows "bit (frame d + i * 4) n \<longleftrightarrow> (if 12 \<le> n then bit d n else 2 \<le> n \<and> bit i (n - 2))"
proof -
  have i: "bit i m \<Longrightarrow> m < 10" for m using assms by (simp add: is_index_def)
  have "frame d + push_bit 2 i = frame d OR push_bit 2 i"
    by (intro disjunctive_add_eq_or bit_word_eqI) (auto simp: bit_simps dest: i)
  then show ?thesis
    using i [of "n - 2"] unfolding times_4_push_bit
    by (auto simp: bit_simps dest: bit_imp_le_length)
qed

lemma frame_index_slot: "is_index i \<Longrightarrow> frame (frame d + i * 4) = frame d"
  by (rule bit_word_eqI) (auto simp: bit_frame bit_slot)

lemmas frame_slot [simp] = is_index [THEN frame_index_slot]

lemma slot_inj:
  assumes i: "is_index i" and j: "is_index j"
  shows "frame d + i * 4 = frame e + j * 4 \<longleftrightarrow> frame d = frame e \<and> i = j"
proof
  assume eq: "frame d + i * 4 = frame e + j * 4"
  have "i = j"
  proof (rule bit_word_eqI)
    fix n :: nat
    have "bit (frame d + i * 4) (n + 2) = bit (frame e + j * 4) (n + 2)" using eq by simp
    with i j show "bit i n = bit j n"
      by (cases "n < 10") (auto simp: bit_slot is_index_def)
  qed
  moreover have "frame d = frame e" using eq i j by (metis frame_index_slot)
  ultimately show "frame d = frame e \<and> i = j" by blast
qed simp

lemma frame_offset [simp]: "frame (frame d + (v AND 0xfff)) = frame d"
  unfolding offset_or by (rule bit_word_eqI) (auto simp: bit_simps mask_bits)

lemma page_eq_iff: "PDE_IDX v = PDE_IDX w \<and> PTE_IDX v = PTE_IDX w \<longleftrightarrow> frame v = frame w"
proof
  assume *: "PDE_IDX v = PDE_IDX w \<and> PTE_IDX v = PTE_IDX w"
  show "frame v = frame w"
  proof (rule bit_word_eqI)
    fix n :: nat
    assume n: "n < LENGTH(32)"
    have "bit (PDE_IDX v) (n - 22) = bit (PDE_IDX w) (n - 22)"
      "bit (PTE_IDX v) (n - 12) = bit (PTE_IDX w) (n - 12)" using * by simp_all
    then show "bit (frame v) n = bit (frame w) n"
      using n by (cases "n < 22"; cases "n < 12") (auto simp: bit_simps)
  qed
next
  assume "frame v = frame w"
  then have *: "bit (frame v) n = bit (frame w) n" for n by simp
  have "bit v n = bit w n" if "12 \<le> n" for n using * [of n] that by (auto simp: bit_simps)
  then show "PDE_IDX v = PDE_IDX w \<and> PTE_IDX v = PTE_IDX w"
    by (auto intro!: bit_word_eqI simp: bit_simps)
qed

section \<open>The self-map\<close>

definition self_mapped :: "u32 \<Rightarrow> (u32 \<Rightarrow> u32) \<Rightarrow> bool" where
  "self_mapped dir ph \<longleftrightarrow>
     present (ph (frame dir + 4092)) \<and> frame (ph (frame dir + 4092)) = frame dir"

lemma translate_pde_ptr:
  "self_mapped dir ph \<Longrightarrow> translate dir ph (pde_ptr v) = Some (pde_addr dir v)"
  by (simp add: self_mapped_def translate_def pde_addr_def pte_addr_def)

lemma translate_pte_ptr:
  "self_mapped dir ph \<Longrightarrow>
   translate dir ph (pte_ptr v) =
     (if present (ph (pde_addr dir v)) then Some (pte_addr dir ph v) else None)"
  by (simp add: self_mapped_def translate_def pde_addr_def pte_addr_def)

lemmas self_map = translate_pde_ptr translate_pte_ptr

lemma rd32_pde: "self_mapped (cr3 s) (phys s) \<Longrightarrow> rd32 (pde_ptr v) s = Inr (phys s (pde_addr (cr3 s) v))"
  by (simp add: rd32_def self_map)

lemma rd32_pte:
  "self_mapped (cr3 s) (phys s) \<Longrightarrow> rd32 (pte_ptr v) s =
     (if present (phys s (pde_addr (cr3 s) v)) then Inr (phys s (pte_addr (cr3 s) (phys s) v))
      else Inl (Fault (pte_ptr v)))"
  by (simp add: rd32_def self_map)

lemma wr32_pde:
  "self_mapped (cr3 s) (phys s) \<Longrightarrow>
   wr32 (pde_ptr v) x s = Inr (s\<lparr>phys := (phys s)(pde_addr (cr3 s) v := x)\<rparr>)"
  by (simp add: wr32_def self_map)

lemma wr32_pte:
  "self_mapped (cr3 s) (phys s) \<Longrightarrow> present (phys s (pde_addr (cr3 s) v)) \<Longrightarrow>
   wr32 (pte_ptr v) x s = Inr (s\<lparr>phys := (phys s)(pte_addr (cr3 s) (phys s) v := x)\<rparr>)"
  by (simp add: wr32_def self_map)

section \<open>Changing an entry\<close>

lemma frame_pde_addr [simp]: "frame (pde_addr dir v) = frame dir"
  by (simp add: pde_addr_def)

lemma frame_pte_addr [simp]: "frame (pte_addr dir ph v) = frame (ph (pde_addr dir v))"
  by (simp add: pte_addr_def)

text \<open>Memory outside the directory and the tables in use does not matter to the walk.\<close>

lemma translate_cong:
  assumes "ph' (pde_addr dir v) = ph (pde_addr dir v)"
    and "ph' (pte_addr dir ph v) = ph (pte_addr dir ph v)"
  shows "translate dir ph' v = translate dir ph v"
  using assms by (simp add: translate_def pte_addr_def)

lemma pde_kept:
  "frame a \<noteq> frame dir \<Longrightarrow> (ph(a := x)) (pde_addr dir w) = ph (pde_addr dir w)"
  by (metis frame_pde_addr fun_upd_other)

lemma pte_addr_kept: "frame a \<noteq> frame dir \<Longrightarrow> pte_addr dir (ph(a := x)) w = pte_addr dir ph w"
  unfolding pte_addr_def by (simp only: pde_kept not_False_eq_True)

lemma self_slot_frame: "frame (frame dir + 4092) = frame dir"
  using frame_index_slot [of 1023 dir] by (simp add: is_index_def mask_bits)

lemma self_mapped_kept: "frame a \<noteq> frame dir \<Longrightarrow> self_mapped dir (ph(a := x)) \<longleftrightarrow> self_mapped dir ph"
  unfolding self_mapped_def by (metis self_slot_frame fun_upd_other)

lemma translate_pte_update:
  assumes "frame (ph (pde_addr dir v)) \<noteq> frame dir"
  shows "translate dir (ph(pte_addr dir ph v := x)) w =
    (if pte_addr dir ph w = pte_addr dir ph v
     then if present (ph (pde_addr dir w)) \<and> present x then Some (frame x + (w AND 0xfff)) else None
     else translate dir ph w)"
  using assms by (simp add: translate_def pte_addr_kept pde_kept del: fun_upd_apply) simp

section \<open>Clearing a page\<close>

text \<open>
  The words that \<^verbatim>\<open>memset(v, 0, 4 * n)\<close> writes when its region is aligned, one store after the
  other through the memory management unit.
\<close>

fun clear_words :: "nat \<Rightarrow> u32 \<Rightarrow> 'a mmu_machine_scheme \<Rightarrow> kerror + 'a mmu_machine_scheme" where
  "clear_words 0 v s = Inr s"
| "clear_words (Suc n) v s = sbind (wr32 v 0 s) (clear_words n (v + 4))"

definition slots :: "u32 \<Rightarrow> nat \<Rightarrow> u32 set" where
  "slots f n = (\<lambda>i. f + of_nat i * 4) ` {..<n}"

definition zero_at :: "u32 set \<Rightarrow> (u32 \<Rightarrow> u32) \<Rightarrow> u32 \<Rightarrow> u32" where
  "zero_at A ph a = (if a \<in> A then 0 else ph a)"

lemma index_of_nat: "i < 1024 \<Longrightarrow> is_index (of_nat i)"
proof -
  assume "i < 1024"
  then have "take_bit 10 (of_nat i :: u32) = of_nat i"
    by (simp add: take_bit_eq_mod word_unat_eq_iff unat_mod)
  then show ?thesis unfolding is_index_def by (metis bit_take_bit_iff)
qed

lemma is_index_less: "is_index i \<Longrightarrow> unat i < 1024"
proof -
  assume i: "is_index i"
  have "take_bit 10 i = i" by (rule bit_word_eqI) (use i in \<open>auto simp: is_index_def bit_simps\<close>)
  then have "i = i mod 1024" by (simp add: take_bit_eq_mod)
  then have "unat i = unat (i mod 1024)" by simp
  then show ?thesis using mod_less_divisor [of 1024 "unat i"] by (simp add: unat_mod)
qed

lemma in_slots: "is_index i \<Longrightarrow> f + i * 4 \<in> slots f 1024"
  using is_index_less [of i] by (auto simp: slots_def intro!: image_eqI [of _ _ "unat i"])

lemma frame_in_slots: "a \<in> slots (frame d) n \<Longrightarrow> n \<le> 1024 \<Longrightarrow> frame a = frame d"
  by (auto simp: slots_def frame_index_slot index_of_nat)

lemma slot_fields:
  assumes "is_index i"
  shows "PDE_IDX (frame v + i * 4) = PDE_IDX v" "PTE_IDX (frame v + i * 4) = PTE_IDX v"
    "(frame v + i * 4) AND 0xfff = i * 4"
proof -
  show "PDE_IDX (frame v + i * 4) = PDE_IDX v" "PTE_IDX (frame v + i * 4) = PTE_IDX v"
    using assms by (auto intro!: bit_word_eqI simp: bit_PDE_IDX bit_PTE_IDX bit_slot)
  have small: "bit i m \<Longrightarrow> m < 10" for m using assms by (simp add: is_index_def)
  show "(frame v + i * 4) AND 0xfff = i * 4"
  proof (rule bit_word_eqI)
    fix n :: nat
    assume "n < LENGTH(32)"
    then have "bit (i * 4) n \<longleftrightarrow> 2 \<le> n \<and> bit i (n - 2)"
      by (simp add: times_4_push_bit bit_simps)
    with small [of "n - 2"] show "bit ((frame v + i * 4) AND 0xfff) n = bit (i * 4) n"
      by (auto simp: bit_and_iff bit_slot [OF assms] mask_bits)
  qed
qed

lemma translate_slot:
  assumes "is_index i"
  shows "translate dir ph (frame v + i * 4) =
    (if present (ph (pde_addr dir v)) \<and> present (ph (pte_addr dir ph v))
     then Some (frame (ph (pte_addr dir ph v)) + i * 4) else None)"
  using slot_fields [OF assms, of v] by (simp add: translate_def pde_addr_def pte_addr_def)

text \<open>
  Clearing the words of a mapped page clears its frame, provided the frame is not one the walk to
  the page itself goes through.
\<close>

lemma clear_words_frame:
  assumes "present (phys s (pde_addr (cr3 s) v))" "present (phys s (pte_addr (cr3 s) (phys s) v))"
    and f: "frame (phys s (pte_addr (cr3 s) (phys s) v)) = f"
    and "f \<noteq> frame (cr3 s)" "f \<noteq> frame (phys s (pde_addr (cr3 s) v))"
    and "k + n \<le> 1024"
  shows "clear_words n (frame v + of_nat k * 4) (s\<lparr>phys := zero_at (slots f k) (phys s)\<rparr>) =
    Inr (s\<lparr>phys := zero_at (slots f (k + n)) (phys s)\<rparr>)"
  using assms(6)
proof (induction n arbitrary: k)
  case 0
  show ?case by simp
next
  case (Suc n)
  let ?ph = "zero_at (slots f k) (phys s)"
  have k: "k < 1024" using Suc.prems by simp
  have "f = frame f" using f by (metis frame_idem)
  then have kept: "?ph a = phys s a" if "f \<noteq> frame a" for a
    using frame_in_slots [of a f k] k that by (auto simp: zero_at_def)
  have pd: "?ph (pde_addr (cr3 s) v) = phys s (pde_addr (cr3 s) v)"
    using assms(4) kept by simp
  have pa: "pte_addr (cr3 s) ?ph v = pte_addr (cr3 s) (phys s) v" by (simp add: pte_addr_def pd)
  have pt: "?ph (pte_addr (cr3 s) (phys s) v) = phys s (pte_addr (cr3 s) (phys s) v)"
    using assms(5) kept by simp
  have "translate (cr3 s) ?ph (frame v + of_nat k * 4) = Some (f + of_nat k * 4)"
    using translate_slot [OF index_of_nat [OF k], of "cr3 s" ?ph v] assms(1,2) f
    by (simp only: pd pa pt) simp
  moreover have "?ph(f + of_nat k * 4 := 0) = zero_at (slots f (Suc k)) (phys s)"
    by (auto simp: zero_at_def slots_def lessThan_Suc)
  ultimately show ?case
    using Suc.IH [of "Suc k"] Suc.prems by (simp add: wr32_def algebra_simps)
qed

section \<open>What the entry pointers reach\<close>

text \<open>
  In an address space whose last directory entry points at the directory, a load through
  \<^verbatim>\<open>pde_ptr(vaddr)\<close> reads the directory entry that the processor's walk of \<^verbatim>\<open>vaddr\<close> consults, a
  load through \<^verbatim>\<open>pte_ptr(vaddr)\<close> reads its table entry, and \<^verbatim>\<open>addr_v2p(vaddr)\<close> is the physical
  address the processor computes for every mapped \<^verbatim>\<open>vaddr\<close>; where the page table itself is
  missing, \<^verbatim>\<open>addr_v2p\<close> faults at the address of the entry.
\<close>

lemma self_map_reaches_entries:
  assumes "self_mapped (cr3 s) (phys s)"
  shows "rd32 (pde_ptr vaddr) s = Inr (phys s (pde_addr (cr3 s) vaddr)) \<and>
    (if present (phys s (pde_addr (cr3 s) vaddr))
     then rd32 (pte_ptr vaddr) s = Inr (phys s (pte_addr (cr3 s) (phys s) vaddr))
     else addr_v2p vaddr s = Inl (Fault (pte_ptr vaddr))) \<and>
    (\<forall>a. translate (cr3 s) (phys s) vaddr = Some a \<longrightarrow> addr_v2p vaddr s = Inr a)"
  using rd32_pde [OF assms] rd32_pte [OF assms]
  by (simp add: addr_v2p_def translate_def frame_def)

text \<open>A small address space: one directory, one table, and one kernel page.\<close>

definition demo_mmu :: mmu_machine where
  "demo_mmu = list_machine.extend demo_lists \<lparr>cr3 = 0x100000,
     phys = (\<lambda>_. 0)(0x100ffc := 0x100007, 0x100c00 := 0x101007, 0x101400 := 0x200007)\<rparr>"

lemma demo_mmu_simps [simp]:
  "cr3 demo_mmu = 0x100000"
  "phys demo_mmu = (\<lambda>_. 0)(0x100ffc := 0x100007, 0x100c00 := 0x101007, 0x101400 := 0x200007)"
  by (simp_all add: demo_mmu_def list_machine.defs)

lemma demo_mmu_self_mapped: "self_mapped (cr3 demo_mmu) (phys demo_mmu)"
  by (simp add: self_mapped_def present_def frame_def)

lemma self_map_reaches_entries_example: "addr_v2p 0xc0100123 demo_mmu = Inr 0x200123"
  using self_map_reaches_entries [OF demo_mmu_self_mapped, of "0xc0100123"]
  by (simp add: translate_def pde_addr_def pte_addr_def PDE_IDX_def PTE_IDX_def frame_def present_def)

end
