(* ===== verification/Tss.thy ===== *)
theory Tss
  imports Paging
begin

text \<open>
  The task state segment and the descriptors of \<^verbatim>\<open>src/userprog/tss.c\<close>. The segment's fields are
  a record, the three descriptors that \<^verbatim>\<open>tss_init\<close> builds go to their addresses in the table that
  the loader placed at 0xc0000903, and the operand of \<^verbatim>\<open>lgdt\<close> and the selector of \<^verbatim>\<open>ltr\<close> are the
  registers they load. The lemmas show that a descriptor holds its base, limit and attributes and
  that the selectors of \<^verbatim>\<open>global.h\<close> index the descriptors that \<^verbatim>\<open>tss_init\<close> wrote.
\<close>

section \<open>tss.c\<close>

record tss =
  tss_backlink :: u32
  tss_esp0 :: u32
  tss_ss0 :: u32
  tss_esp1 :: u32
  tss_ss1 :: u32
  tss_esp2 :: u32
  tss_ss2 :: u32
  tss_cr3 :: u32
  tss_eip :: u32
  tss_eflags :: u32
  tss_eax :: u32
  tss_ecx :: u32
  tss_edx :: u32
  tss_ebx :: u32
  tss_esp :: u32
  tss_ebp :: u32
  tss_esi :: u32
  tss_edi :: u32
  tss_es :: u32
  tss_cs :: u32
  tss_ss :: u32
  tss_ds :: u32
  tss_fs :: u32
  tss_gs :: u32
  tss_ldt :: u32
  tss_trace :: u32
  tss_io_base :: u32

text \<open>\<^verbatim>\<open>sizeof(struct tss)\<close>, and the segment after \<^verbatim>\<open>memset(&tss, 0, tss_size)\<close>.\<close>

definition tss_size :: u32 where "tss_size = 27 * 4"

definition zero_tss :: tss where
  "zero_tss =
     \<lparr>tss_backlink = 0, tss_esp0 = 0, tss_ss0 = 0, tss_esp1 = 0, tss_ss1 = 0, tss_esp2 = 0,
      tss_ss2 = 0, tss_cr3 = 0, tss_eip = 0, tss_eflags = 0, tss_eax = 0, tss_ecx = 0, tss_edx = 0,
      tss_ebx = 0, tss_esp = 0, tss_ebp = 0, tss_esi = 0, tss_edi = 0, tss_es = 0, tss_cs = 0,
      tss_ss = 0, tss_ds = 0, tss_fs = 0, tss_gs = 0, tss_ldt = 0, tss_trace = 0, tss_io_base = 0\<rparr>"

record gdt_desc =
  limit_low_word :: u16
  base_low_word :: u16
  base_mid_byte :: u8
  attr_low_byte :: u8
  limit_high_attr_high :: u8
  base_high_byte :: u8

text \<open>The table by address of the descriptor, the table register and the task register.\<close>

record tss_machine = mmu_machine +
  tss_seg :: tss
  gdt :: "u32 \<Rightarrow> gdt_desc"
  gdtr :: u64
  task_register :: u16

definition update_tss_esp :: "u32 \<Rightarrow> 'a tss_machine_scheme \<Rightarrow> 'a tss_machine_scheme" where
  "update_tss_esp pthread s = s\<lparr>tss_seg := (tss_seg s)\<lparr>tss_esp0 := pthread + PG_SIZE\<rparr>\<rparr>"

definition make_gdt_desc :: "u32 \<Rightarrow> u32 \<Rightarrow> u8 \<Rightarrow> u8 \<Rightarrow> gdt_desc" where
  "make_gdt_desc desc_addr limit attr_low attr_high =
     (let desc_base = desc_addr in
      \<lparr>limit_low_word = ucast (limit AND 0x0000ffff),
       base_low_word = ucast (desc_base AND 0x0000ffff),
       base_mid_byte = ucast (drop_bit 16 (desc_base AND 0x00ff0000)),
       attr_low_byte = attr_low,
       limit_high_attr_high = ucast (drop_bit 16 (limit AND 0x000f0000) + ucast attr_high),
       base_high_byte = ucast (drop_bit 24 desc_base)\<rparr>)"

definition gdt_operand :: u64 where
  "gdt_operand = (8 * 7 - 1) OR push_bit 16 (ucast (0xc0000903 :: u32))"

definition tss_init :: "u32 \<Rightarrow> 'a tss_machine_scheme \<Rightarrow> 'a tss_machine_scheme" where
  "tss_init tss_addr s =
     (let s = put_str (lit ''tss_init start'' @ [10]) s;
          s = s\<lparr>tss_seg := zero_tss\<rparr>;
          s = s\<lparr>tss_seg := (tss_seg s)\<lparr>tss_ss0 := SELECTOR_K_STACK\<rparr>\<rparr>;
          s = s\<lparr>tss_seg := (tss_seg s)\<lparr>tss_io_base := tss_size\<rparr>\<rparr>;
          s = s\<lparr>gdt := (gdt s)(0xc0000923 :=
                make_gdt_desc tss_addr (tss_size - 1) TSS_ATTR_LOW TSS_ATTR_HIGH)\<rparr>;
          s = s\<lparr>gdt := (gdt s)(0xc000092b :=
                make_gdt_desc 0 0xfffff GDT_CODE_ATTR_LOW_DPL3 GDT_ATTR_HIGH)\<rparr>;
          s = s\<lparr>gdt := (gdt s)(0xc0000933 :=
                make_gdt_desc 0 0xfffff GDT_DATA_ATTR_LOW_DPL3 GDT_ATTR_HIGH)\<rparr>;
          s = s\<lparr>gdtr := gdt_operand\<rparr>;
          s = s\<lparr>task_register := ucast SELECTOR_TSS\<rparr>
      in put_str (lit ''tss_init and ltr done'' @ [10]) s)"

section \<open>Reading a descriptor back\<close>

text \<open>How the processor takes base, limit and attributes out of a descriptor.\<close>

definition desc_base :: "gdt_desc \<Rightarrow> u32" where
  "desc_base d = ucast (base_low_word d) OR push_bit 16 (ucast (base_mid_byte d)) OR
     push_bit 24 (ucast (base_high_byte d))"

definition desc_limit :: "gdt_desc \<Rightarrow> u32" where
  "desc_limit d = ucast (limit_low_word d) OR push_bit 16 (ucast (limit_high_attr_high d) AND 0xf)"

definition desc_attr_high :: "gdt_desc \<Rightarrow> u8" where
  "desc_attr_high d = limit_high_attr_high d AND 0xf0"

text \<open>The descriptor a selector picks from the table at \<open>base\<close>.\<close>

definition desc_addr_of :: "u32 \<Rightarrow> u32 \<Rightarrow> u32" where
  "desc_addr_of base sel = base + drop_bit 3 sel * 8"

text \<open>A segment over the whole address space that privilege level 3 may use.\<close>

definition flat_user_segment :: "u32 \<Rightarrow> gdt_desc \<Rightarrow> bool" where
  "flat_user_segment sel d \<longleftrightarrow>
     sel AND 3 = 3 \<and> drop_bit 5 (attr_low_byte d) AND 3 = 3 \<and> desc_base d = 0 \<and> desc_limit d = 0xfffff"

lemma desc_base_make: "desc_base (make_gdt_desc b l lo hi) = b"
proof (rule bit_word_eqI)
  fix n :: nat
  assume "n < LENGTH(32)"
  then show "bit (desc_base (make_gdt_desc b l lo hi)) n = bit b n"
    by (cases "n < 24") (auto simp: desc_base_def make_gdt_desc_def Let_def bit_simps mask_bits)
qed

lemma limit_high_byte:
  assumes "hi AND 0xf = 0"
  shows "limit_high_attr_high (make_gdt_desc b l lo hi) =
    ucast (drop_bit 16 (l AND 0x000f0000)) OR hi"
proof -
  have hi: "bit hi n \<Longrightarrow> 4 \<le> n" for n
  proof (rule ccontr)
    assume "bit hi n" "\<not> 4 \<le> n"
    then have "bit (hi AND 0xf) n" by (auto simp: bit_simps mask_bits)
    with assms show False by simp
  qed
  have "drop_bit 16 (l AND 0x000f0000) + ucast hi = (drop_bit 16 (l AND 0x000f0000) OR ucast hi :: u32)"
    by (intro disjunctive_add_eq_or bit_word_eqI) (auto simp: bit_simps mask_bits dest: hi)
  then show ?thesis
    by (intro bit_word_eqI) (simp add: make_gdt_desc_def bit_simps)
qed

lemma desc_limit_make:
  assumes "hi AND 0xf = 0" "l \<le> 0xfffff"
  shows "desc_limit (make_gdt_desc b l lo hi) = l"
proof (rule bit_word_eqI)
  fix n :: nat
  assume n: "n < LENGTH(32)"
  have hi: "bit hi m \<Longrightarrow> 4 \<le> m" for m
    using bit_and_iff [of hi "0xf" m] assms(1) by (cases "m < 4") (auto simp: mask_bits)
  have "unat l < 2 ^ 20" using assms(2) by (simp add: word_le_nat_alt)
  then have "take_bit 20 l = l"
    by (simp add: take_bit_eq_mod word_unat_eq_iff unat_mod)
  then have small: "bit l m \<Longrightarrow> m < 20" for m by (metis bit_take_bit_iff)
  have "limit_low_word (make_gdt_desc b l lo hi) = ucast (l AND 0xffff)"
    by (simp add: make_gdt_desc_def)
  then show "bit (desc_limit (make_gdt_desc b l lo hi)) n = bit l n"
    using n small [of n] hi [of "n - 16"]
    by (cases "n < 20") (auto simp: desc_limit_def limit_high_byte [OF assms(1)] bit_simps mask_bits)
qed

lemma desc_attr_make:
  assumes "hi AND 0xf = 0"
  shows "desc_attr_high (make_gdt_desc b l lo hi) = hi" "attr_low_byte (make_gdt_desc b l lo hi) = lo"
proof -
  have hi: "bit hi m \<Longrightarrow> 4 \<le> m" for m
    using bit_and_iff [of hi "0xf" m] assms(1) by (cases "m < 4") (auto simp: mask_bits)
  show "desc_attr_high (make_gdt_desc b l lo hi) = hi"
    by (rule bit_word_eqI)
       (auto simp: desc_attr_high_def limit_high_byte [OF assms] bit_simps mask_bits dest: hi)
qed (simp add: make_gdt_desc_def)

text \<open>
  A descriptor built by \<^verbatim>\<open>make_gdt_desc\<close> gives back the base, the limit and both attribute
  parts it was made from, for every base, every limit of twenty bits and every attribute whose low
  half is clear.
\<close>

lemma gdt_desc_roundtrip:
  assumes "attr_high AND 0xf = 0" "limit \<le> 0xfffff"
  shows "desc_base (make_gdt_desc base limit attr_low attr_high) = base \<and>
    desc_limit (make_gdt_desc base limit attr_low attr_high) = limit \<and>
    attr_low_byte (make_gdt_desc base limit attr_low attr_high) = attr_low \<and>
    desc_attr_high (make_gdt_desc base limit attr_low attr_high) = attr_high"
  using assms by (simp add: desc_base_make desc_limit_make desc_attr_make)

lemma gdt_desc_roundtrip_example:
  "desc_base (make_gdt_desc 0xc0012345 107 TSS_ATTR_LOW TSS_ATTR_HIGH) = 0xc0012345 \<and>
   desc_limit (make_gdt_desc 0xc0012345 107 TSS_ATTR_LOW TSS_ATTR_HIGH) = 107"
  using gdt_desc_roundtrip [of TSS_ATTR_HIGH 107 "0xc0012345" TSS_ATTR_LOW]
  by (simp add: TSS_ATTR_HIGH_def)

text \<open>
  After \<^verbatim>\<open>tss_init\<close> the table register points at the loader's table with seven descriptors,
  the descriptor that the task register's selector picks describes the task state segment, the two
  user selectors pick flat descriptors of privilege level 3, and the segment names the kernel's
  stack segment.
\<close>

lemma tss_init_installs:
  "table_base (gdtr (tss_init a s)) = 0xc0000903 \<and> table_limit (gdtr (tss_init a s)) = 55 \<and>
   desc_base (gdt (tss_init a s)
     (desc_addr_of 0xc0000903 (ucast (task_register (tss_init a s))))) = a \<and>
   flat_user_segment SELECTOR_U_CODE (gdt (tss_init a s) (desc_addr_of 0xc0000903 SELECTOR_U_CODE)) \<and>
   flat_user_segment SELECTOR_U_DATA (gdt (tss_init a s) (desc_addr_of 0xc0000903 SELECTOR_U_DATA)) \<and>
   tss_seg (tss_init a s) = zero_tss\<lparr>tss_ss0 := SELECTOR_K_STACK, tss_io_base := 108\<rparr>"
  by (simp add: flat_user_segment_def tss_init_def Let_def put_str_def table_base_def table_limit_def gdt_operand_def
      desc_base_make desc_limit_make desc_attr_make desc_addr_of_def SELECTOR_U_CODE_def
      SELECTOR_U_DATA_def SELECTOR_TSS_def GDT_ATTR_HIGH_def TSS_ATTR_HIGH_def
      GDT_CODE_ATTR_LOW_DPL3_def GDT_DATA_ATTR_LOW_DPL3_def tss_size_def)

end
