(* ===== verification/Thread.thy ===== *)
theory Thread
  imports Tss
begin

text \<open>
  Threads and the scheduler: the task structures of \<^verbatim>\<open>src/thread/thread.h\<close>, the routines
  \<^verbatim>\<open>running_thread\<close>, \<^verbatim>\<open>schedule\<close>, \<^verbatim>\<open>thread_block\<close> and \<^verbatim>\<open>thread_unblock\<close> of
  \<^verbatim>\<open>src/thread/thread.c\<close>, the context switch of \<^verbatim>\<open>src/thread/switch.S\<close> and the address-space
  switch (\<^verbatim>\<open>page_dir_activate\<close>, \<^verbatim>\<open>process_activate\<close>) of \<^verbatim>\<open>src/userprog/process.c\<close> that
  \<^verbatim>\<open>schedule\<close> calls.

  A task structure lives at its (page-aligned) address in \<open>tasks\<close>; its two list tags live in the
  link heap at their offsets. \<open>esp\<close> is the stack pointer of the running thread, of which the code
  only uses the page. The addresses of the two lists are fixed by the linker and are fields that no
  operation changes. A routine that gives up the processor ends in the state in which the next
  thread runs; what the thread it left has still to do is a definition of its own
  (\<open>thread_block_resume\<close>), run when that thread is switched to again.
\<close>

section \<open>thread.h\<close>

datatype task_status =
  TASK_RUNNING | TASK_READY | TASK_BLOCKED | TASK_WAITING | TASK_HANGING | TASK_DIED

type_synonym pid_t = u16

record virtual_addr =
  vaddr_bitmap :: bitmap
  vaddr_start :: u32

record task_struct =
  self_kstack :: u32
  pid :: pid_t
  status :: task_status
  name :: "u8 list"
  priority :: u8
  ticks :: u8
  elapsed_ticks :: u32
  pgdir :: u32
  userprog_vaddr :: virtual_addr
  stack_magic :: u32

text \<open>The offsets of the two list tags in \<^verbatim>\<open>struct task_struct\<close>, and their addresses.\<close>

definition general_tag_offset :: u32 where "general_tag_offset = 36"
definition all_list_tag_offset :: u32 where "all_list_tag_offset = 44"

definition general_tag :: "u32 \<Rightarrow> u32" where "general_tag t = t + general_tag_offset"
definition all_list_tag :: "u32 \<Rightarrow> u32" where "all_list_tag t = t + all_list_tag_offset"

record thread_machine = tss_machine +
  esp :: u32
  tasks :: "u32 \<Rightarrow> task_struct"
  main_thread :: u32
  thread_ready_list :: u32
  thread_all_list :: u32
  thread_tag :: u32

definition upd_task ::
  "u32 \<Rightarrow> (task_struct \<Rightarrow> task_struct) \<Rightarrow> 'a thread_machine_scheme \<Rightarrow> 'a thread_machine_scheme" where
  "upd_task t f s = s\<lparr>tasks := (tasks s)(t := f (tasks s t))\<rparr>"

section \<open>process.c: switching the address space\<close>

definition page_dir_activate ::
  "u32 \<Rightarrow> 'a thread_machine_scheme \<Rightarrow> kerror + 'a thread_machine_scheme" where
  "page_dir_activate p_thread s =
     sbind (if pgdir (tasks s p_thread) \<noteq> 0 then addr_v2p (pgdir (tasks s p_thread)) s
            else Inr 0x100000) (\<lambda>pagedir_phy_addr.
       Inr (s\<lparr>cr3 := pagedir_phy_addr\<rparr>))"

definition process_activate ::
  "u32 \<Rightarrow> 'a thread_machine_scheme \<Rightarrow> kerror + 'a thread_machine_scheme" where
  "process_activate p_thread s =
     sbind (ASSERT ''userprog/process.c'' 61 (p_thread \<noteq> 0)) (\<lambda>_.
     sbind (page_dir_activate p_thread s) (\<lambda>s.
       if pgdir (tasks s p_thread) \<noteq> 0 then Inr (update_tss_esp p_thread s) else Inr s))"

section \<open>thread.c: the scheduler\<close>

definition running_thread :: "'a thread_machine_scheme \<Rightarrow> u32" where
  "running_thread s = esp s AND 0xfffff000"

text \<open>
  \<^verbatim>\<open>switch_to\<close>: the return address and four registers go on the old stack, its pointer into the
  first word of the old task structure; the new thread's pointer is loaded and the same five words
  come off its stack.
\<close>

definition switch_to :: "u32 \<Rightarrow> u32 \<Rightarrow> 'a thread_machine_scheme \<Rightarrow> 'a thread_machine_scheme" where
  "switch_to cur nxt s =
     (let s = upd_task cur (\<lambda>t. t\<lparr>self_kstack := esp s - 20\<rparr>) s
      in s\<lparr>esp := self_kstack (tasks s nxt) + 20\<rparr>)"

text \<open>The first part of \<^verbatim>\<open>schedule\<close>: a thread that still runs goes to the back of the queue.\<close>

definition requeue_current ::
  "u32 \<Rightarrow> 'a thread_machine_scheme \<Rightarrow> kerror + 'a thread_machine_scheme" where
  "requeue_current cur s =
     (if status (tasks s cur) = TASK_RUNNING then
        sbind (elem_find (thread_ready_list s) (general_tag cur) s) (\<lambda>found.
        sbind (ASSERT ''thread/thread.c'' 121 (\<not> found)) (\<lambda>_.
          let s = list_append (thread_ready_list s) (general_tag cur) s;
              s = upd_task cur (\<lambda>t. t\<lparr>ticks := priority t\<rparr>) s;
              s = upd_task cur (\<lambda>t. t\<lparr>status := TASK_READY\<rparr>) s
          in Inr s))
      else Inr s)"

text \<open>The second part: the front of the queue is taken, activated and switched to.\<close>

definition dispatch_next ::
  "u32 \<Rightarrow> 'a thread_machine_scheme \<Rightarrow> kerror + 'a thread_machine_scheme" where
  "dispatch_next cur s =
     sbind (ASSERT ''thread/thread.c'' 129 (\<not> list_empty (thread_ready_list s) s)) (\<lambda>_.
       let s = s\<lparr>thread_tag := 0\<rparr>;
           (tag, s) = list_pop (thread_ready_list s) s;
           s = s\<lparr>thread_tag := tag\<rparr>;
           nxt = elem2enyrt general_tag_offset (thread_tag s);
           s = upd_task nxt (\<lambda>t. t\<lparr>status := TASK_RUNNING\<rparr>) s;
           s = put_str (name (tasks s nxt)) s
       in sbind (process_activate nxt s) (\<lambda>s. Inr (switch_to cur nxt s)))"

definition schedule :: "'a thread_machine_scheme \<Rightarrow> kerror + 'a thread_machine_scheme" where
  "schedule s =
     sbind (ASSERT ''thread/thread.c'' 117 (intr_get_status s = INTR_OFF)) (\<lambda>_.
     let cur = running_thread s in
     sbind (requeue_current cur s) (dispatch_next cur))"

text \<open>
  \<^verbatim>\<open>thread_block\<close> up to the switch, with the interrupt status it has to restore, and the rest of
  it, which the blocked thread runs when it is scheduled again.
\<close>

definition thread_block ::
  "task_status \<Rightarrow> 'a thread_machine_scheme \<Rightarrow> kerror + (intr_status \<times> 'a thread_machine_scheme)" where
  "thread_block stat s =
     sbind (ASSERT ''thread/thread.c'' 156
       (stat = TASK_WAITING \<or> stat = TASK_BLOCKED \<or> stat = TASK_HANGING)) (\<lambda>_.
       let (old_status, s) = intr_disable s;
           cur_thread = running_thread s;
           s = upd_task cur_thread (\<lambda>t. t\<lparr>status := stat\<rparr>) s
       in sbind (schedule s) (\<lambda>s. Inr (old_status, s)))"

definition thread_block_resume :: "intr_status \<Rightarrow> 'a thread_machine_scheme \<Rightarrow> 'a thread_machine_scheme" where
  "thread_block_resume old_status s = snd (intr_set_status old_status s)"

definition thread_unblock ::
  "u32 \<Rightarrow> 'a thread_machine_scheme \<Rightarrow> kerror + 'a thread_machine_scheme" where
  "thread_unblock pthread s =
     (let (old_status, s) = intr_disable s in
      sbind (ASSERT ''thread/thread.c'' 166
        (status (tasks s pthread) = TASK_BLOCKED \<or> status (tasks s pthread) = TASK_HANGING \<or>
         status (tasks s pthread) = TASK_WAITING)) (\<lambda>_.
      sbind
        (if status (tasks s pthread) \<noteq> TASK_READY then
           sbind (elem_find (thread_ready_list s) (general_tag pthread) s) (\<lambda>found.
           sbind (ASSERT ''thread/thread.c'' 168 (\<not> found)) (\<lambda>_.
           sbind (elem_find (thread_ready_list s) (general_tag pthread) s) (\<lambda>found.
             if found then Inl (Panic ''thread/thread.c'' 170)
             else
               let s = list_push (thread_ready_list s) (general_tag pthread) s;
                   s = upd_task pthread (\<lambda>t. t\<lparr>status := TASK_READY\<rparr>) s
               in Inr s)))
         else Inr s)
        (\<lambda>s. Inr (snd (intr_set_status old_status s)))))"

section \<open>The ready queue\<close>

lemma elem2enyrt_general_tag [simp]: "elem2enyrt general_tag_offset (general_tag t) = t"
  by (simp add: elem2enyrt_def general_tag_def)

lemma general_tag_inject [simp]: "general_tag t = general_tag u \<longleftrightarrow> t = u"
  by (simp add: general_tag_def)

lemma inj_general_tag: "inj general_tag"
  by (rule injI) simp

lemma tag_in_tags [simp]: "general_tag t \<in> general_tag ` A \<longleftrightarrow> t \<in> A"
  by auto

lemma tasks_upd_task: "tasks (upd_task t f s) = (tasks s)(t := f (tasks s t))"
  by (simp add: upd_task_def)

text \<open>
  The invariant of the scheduler: the ready list holds the tags of the threads \<open>ts\<close>, each of them
  is ready and its saved stack pointer leads back into its own page, and the running thread's tag
  is not in the list.
\<close>

definition resumable :: "task_struct \<Rightarrow> u32 \<Rightarrow> bool" where
  "resumable t a \<longleftrightarrow> (self_kstack t + 20) AND 0xfffff000 = a"

definition sched_inv :: "'a thread_machine_scheme \<Rightarrow> u32 list \<Rightarrow> bool" where
  "sched_inv s ts \<longleftrightarrow>
     dlist (lnk s) (thread_ready_list s) (map general_tag ts) \<and>
     (\<forall>t \<in> set ts. status (tasks s t) = TASK_READY \<and> resumable (tasks s t) t) \<and>
     general_tag (running_thread s) \<notin> foot (thread_ready_list s) (map general_tag ts)"

text \<open>The page directory that \<^verbatim>\<open>page_dir_activate\<close> loads for a thread.\<close>

definition space_of :: "'a thread_machine_scheme \<Rightarrow> u32 \<Rightarrow> kerror + u32" where
  "space_of s t = (if pgdir (tasks s t) \<noteq> 0 then addr_v2p (pgdir (tasks s t)) s else Inr 0x100000)"

text \<open>The task table after \<open>nxt\<close> has been made running and \<open>cur\<close> has been left at \<open>sp\<close>.\<close>

definition switched_tasks :: "u32 \<Rightarrow> u32 \<Rightarrow> u32 \<Rightarrow> (u32 \<Rightarrow> task_struct) \<Rightarrow> u32 \<Rightarrow> task_struct" where
  "switched_tasks cur nxt sp tk =
     (let tk = tk(nxt := (tk nxt)\<lparr>status := TASK_RUNNING\<rparr>)
      in tk(cur := (tk cur)\<lparr>self_kstack := sp - 20\<rparr>))"

lemma addr_v2p_cong: "cr3 s = cr3 t \<Longrightarrow> phys s = phys t \<Longrightarrow> addr_v2p v s = addr_v2p v t"
  by (simp add: addr_v2p_def rd32_def cong: option.case_cong)

lemma space_of_cong:
  "cr3 s = cr3 t \<Longrightarrow> phys s = phys t \<Longrightarrow> pgdir (tasks s n) = pgdir (tasks t n) \<Longrightarrow>
   space_of s n = space_of t n"
  using addr_v2p_cong [of s t "pgdir (tasks t n)"] by (simp add: space_of_def)

lemma requeue_current_eq:
  assumes "sched_inv s ts"
  shows "requeue_current (running_thread s) s =
    Inr (if status (tasks s (running_thread s)) = TASK_RUNNING
         then upd_task (running_thread s) (\<lambda>t. t\<lparr>ticks := priority t, status := TASK_READY\<rparr>)
                (list_append (thread_ready_list s) (general_tag (running_thread s)) s)
         else s)"
proof -
  have "running_thread s \<notin> set ts"
    using assms by (auto simp: sched_inv_def foot_def)
  then have "elem_find (thread_ready_list s) (general_tag (running_thread s)) s = Inr False"
    using assms elem_find_dlist [of s _ "map general_tag ts"] by (simp add: sched_inv_def)
  then show ?thesis by (simp add: requeue_current_def upd_task_def Let_def)
qed

lemma process_activate_eq:
  assumes "n \<noteq> 0" "space_of s n = Inr d"
  shows "process_activate n s = Inr (s\<lparr>cr3 := d, tss_seg :=
    (if pgdir (tasks s n) = 0 then tss_seg s else (tss_seg s)\<lparr>tss_esp0 := n + PG_SIZE\<rparr>)\<rparr>)"
  using assms
  by (cases "pgdir (tasks s n) = 0")
     (simp_all add: process_activate_def page_dir_activate_def space_of_def update_tss_esp_def)

lemma process_activate_Inr:
  "process_activate n s = Inr s' \<Longrightarrow> n \<noteq> 0 \<and> (\<exists>d. space_of s n = Inr d)"
  by (auto simp: process_activate_def page_dir_activate_def space_of_def sbind_Inr_iff split: if_splits)

text \<open>The state in which the thread \<open>n\<close> at the front of the queue is activated.\<close>

definition dispatched :: "u32 \<Rightarrow> 'a thread_machine_scheme \<Rightarrow> 'a thread_machine_scheme" where
  "dispatched n s = s\<lparr>lnk := rem_lnk (general_tag n) (lnk s), thread_tag := general_tag n,
     tasks := (tasks s)(n := (tasks s n)\<lparr>status := TASK_RUNNING\<rparr>),
     screen := put_chars (name (tasks s n)) (screen s)\<rparr>"

lemma space_of_dispatched: "space_of (dispatched n s) n = space_of s n"
  by (rule space_of_cong) (simp_all add: dispatched_def)

lemma dispatch_next_activates:
  assumes "dlist (lnk s) (thread_ready_list s) (map general_tag (n # ns))"
  shows "dispatch_next cur s = sbind (process_activate n (dispatched n s)) (\<lambda>s. Inr (switch_to cur n s))"
proof -
  have "elem_next (lnk s (thread_ready_list s)) = general_tag n"
    using lq.rep_first [of "lnk s" "thread_ready_list s" "general_tag n" "map general_tag ns"] assms(1)
    by simp
  moreover have "\<not> list_empty (thread_ready_list s) s"
    using list_empty_dlist [OF assms(1)] by simp
  ultimately show ?thesis
    by (simp add: dispatch_next_def list_op_eqs Let_def upd_task_def put_str_def dispatched_def)
qed

lemma dispatch_next_eq:
  assumes "dlist (lnk s) (thread_ready_list s) (map general_tag (n # ns))" "n \<noteq> 0"
    and "space_of s n = Inr d"
  shows "dispatch_next cur s =
    Inr (s\<lparr>lnk := rem_lnk (general_tag n) (lnk s), thread_tag := general_tag n,
           screen := put_chars (name (tasks s n)) (screen s), cr3 := d,
           tss_seg := (if pgdir (tasks s n) = 0 then tss_seg s
                       else (tss_seg s)\<lparr>tss_esp0 := n + PG_SIZE\<rparr>),
           tasks := switched_tasks cur n (esp s) (tasks s),
           esp := self_kstack (switched_tasks cur n (esp s) (tasks s) n) + 20\<rparr>)"
proof -
  have "process_activate n (dispatched n s) = Inr ((dispatched n s)\<lparr>cr3 := d, tss_seg :=
      (if pgdir (tasks s n) = 0 then tss_seg s else (tss_seg s)\<lparr>tss_esp0 := n + PG_SIZE\<rparr>)\<rparr>)"
    using process_activate_eq [OF assms(2), of "dispatched n s" d] assms(3)
    by (simp add: space_of_dispatched) (simp add: dispatched_def)
  then show ?thesis
    by (simp only: dispatch_next_activates [OF assms(1)] sbind_simps sum.inject,
        intro thread_machine.equality)
       (simp_all add: dispatched_def switch_to_def switched_tasks_def upd_task_def Let_def)
qed

section \<open>A turn of the scheduler\<close>

text \<open>The threads that may run next, in order: the running thread counts when it still runs.\<close>

definition runnable :: "'a thread_machine_scheme \<Rightarrow> u32 list \<Rightarrow> u32 list" where
  "runnable s ts =
     ts @ (if status (tasks s (running_thread s)) = TASK_RUNNING then [running_thread s] else [])"

definition requeued_lnk :: "'a thread_machine_scheme \<Rightarrow> link_heap" where
  "requeued_lnk s =
     (if status (tasks s (running_thread s)) = TASK_RUNNING
      then ins_lnk (list_tail (thread_ready_list s)) (general_tag (running_thread s)) (lnk s)
      else lnk s)"

definition requeued_tasks :: "'a thread_machine_scheme \<Rightarrow> u32 \<Rightarrow> task_struct" where
  "requeued_tasks s =
     (if status (tasks s (running_thread s)) = TASK_RUNNING
      then (tasks s)(running_thread s := (tasks s (running_thread s))
             \<lparr>ticks := priority (tasks s (running_thread s)), status := TASK_READY\<rparr>)
      else tasks s)"

lemma requeue_current_record:
  assumes "sched_inv s ts"
  shows "requeue_current (running_thread s) s = Inr (s\<lparr>lnk := requeued_lnk s, tasks := requeued_tasks s\<rparr>)"
  using requeue_current_eq [OF assms]
  by (simp add: upd_task_def list_op_eqs requeued_lnk_def requeued_tasks_def)

lemma requeued_dlist:
  assumes "sched_inv s ts"
  shows "dlist (requeued_lnk s) (thread_ready_list s) (map general_tag (runnable s ts))"
  using assms lq.rep_append [of "lnk s" "thread_ready_list s" "map general_tag ts"]
  by (simp add: requeued_lnk_def runnable_def sched_inv_def)

lemma schedule_eq:
  assumes inv: "sched_inv s ts" and off: "intr_get_status s = INTR_OFF"
    and q: "runnable s ts = n # ns" and n: "n \<noteq> 0" "space_of s n = Inr d"
  shows "schedule s =
    Inr (s\<lparr>lnk := rem_lnk (general_tag n) (requeued_lnk s), thread_tag := general_tag n,
           screen := put_chars (name (tasks s n)) (screen s), cr3 := d,
           tss_seg := (if pgdir (tasks s n) = 0 then tss_seg s
                       else (tss_seg s)\<lparr>tss_esp0 := n + PG_SIZE\<rparr>),
           tasks := switched_tasks (running_thread s) n (esp s) (requeued_tasks s),
           esp := self_kstack (switched_tasks (running_thread s) n (esp s) (requeued_tasks s) n) + 20\<rparr>)"
proof -
  let ?s = "s\<lparr>lnk := requeued_lnk s, tasks := requeued_tasks s\<rparr>"
  have "schedule s = dispatch_next (running_thread s) ?s"
    using off requeue_current_record [OF inv] by (simp add: schedule_def Let_def)
  moreover have "dlist (lnk ?s) (thread_ready_list ?s) (map general_tag (n # ns))"
    using requeued_dlist [OF inv] by (simp add: q)
  moreover have "space_of ?s n = Inr d"
    using n(2) space_of_cong [of ?s s n] by (simp add: requeued_tasks_def)
  ultimately show ?thesis
    using dispatch_next_eq [of ?s n ns d "running_thread s"] n(1)
    by (simp add: requeued_tasks_def)
qed

lemma schedule_nothing_runnable:
  assumes "sched_inv s []" "intr_get_status s = INTR_OFF"
    and "status (tasks s (running_thread s)) \<noteq> TASK_RUNNING"
  shows "schedule s = Inl (Panic ''thread/thread.c'' 129)"
proof -
  have "list_empty (thread_ready_list s) s"
    using list_empty_dlist [of s "thread_ready_list s" "[]"] assms(1) by (simp add: sched_inv_def)
  then show ?thesis
    using assms by (simp add: schedule_def requeue_current_def dispatch_next_def)
qed

text \<open>A turn that succeeds has found a thread to run.\<close>

lemma schedule_Inr:
  assumes inv: "sched_inv s ts" and s': "schedule s = Inr s'"
  obtains n ns d where "intr_get_status s = INTR_OFF" "runnable s ts = n # ns" "n \<noteq> 0"
    "space_of s n = Inr d"
proof -
  let ?s = "s\<lparr>lnk := requeued_lnk s, tasks := requeued_tasks s\<rparr>"
  have off: "intr_get_status s = INTR_OFF" using s' by (auto simp: schedule_def sbind_Inr_iff)
  have eq: "schedule s = dispatch_next (running_thread s) ?s"
    using off requeue_current_record [OF inv] by (simp add: schedule_def Let_def)
  show thesis
  proof (cases "runnable s ts")
    case Nil
    then have "ts = []" "status (tasks s (running_thread s)) \<noteq> TASK_RUNNING"
      by (auto simp: runnable_def split: if_splits)
    with s' inv off schedule_nothing_runnable [of s] show thesis by simp
  next
    case (Cons n ns)
    then have "dlist (lnk ?s) (thread_ready_list ?s) (map general_tag (n # ns))"
      using requeued_dlist [OF inv] by simp
    then obtain s1 where "process_activate n (dispatched n ?s) = Inr s1"
      using s' eq dispatch_next_activates [of ?s n ns] by (auto simp: sbind_Inr_iff)
    then have "n \<noteq> 0 \<and> (\<exists>d. space_of s n = Inr d)"
      using process_activate_Inr [of n "dispatched n ?s" s1] space_of_cong [of ?s s n]
      by (simp add: space_of_dispatched requeued_tasks_def)
    with off Cons that show thesis by blast
  qed
qed

lemma switched_tasks_other: "t \<noteq> cur \<Longrightarrow> t \<noteq> n \<Longrightarrow> switched_tasks cur n sp tk t = tk t"
  by (simp add: switched_tasks_def Let_def)

lemma requeued_tasks_other: "t \<noteq> running_thread s \<Longrightarrow> requeued_tasks s t = tasks s t"
  by (simp add: requeued_tasks_def)

lemma switched_tasks_fields:
  "status (switched_tasks cur n sp tk t) = (if t = n then TASK_RUNNING else status (tk t))"
  "self_kstack (switched_tasks cur n sp tk t) = (if t = cur then sp - 20 else self_kstack (tk t))"
  "ticks (switched_tasks cur n sp tk t) = ticks (tk t)"
  "priority (switched_tasks cur n sp tk t) = priority (tk t)"
  "ticks (switched_tasks cur n sp tk t) = ticks (tk t)"
  "pgdir (switched_tasks cur n sp tk t) = pgdir (tk t)"
  "stack_magic (switched_tasks cur n sp tk t) = stack_magic (tk t)"
  by (simp_all add: switched_tasks_def Let_def)

lemma requeued_tasks_fields:
  "status (requeued_tasks s t) =
     (if t = running_thread s \<and> status (tasks s t) = TASK_RUNNING then TASK_READY else status (tasks s t))"
  "self_kstack (requeued_tasks s t) = self_kstack (tasks s t)"
  "priority (requeued_tasks s t) = priority (tasks s t)"
  "pgdir (requeued_tasks s t) = pgdir (tasks s t)"
  "stack_magic (requeued_tasks s t) = stack_magic (tasks s t)"
  "ticks (requeued_tasks s t) =
     (if t = running_thread s \<and> status (tasks s t) = TASK_RUNNING then priority (tasks s t)
      else ticks (tasks s t))"
  by (auto simp: requeued_tasks_def)

lemmas turn_fields = switched_tasks_fields requeued_tasks_fields

text \<open>After the turn the front of the queue runs and the rest of the queue is ready.\<close>

lemma schedule_invariant:
  assumes inv: "sched_inv s ts" and off: "intr_get_status s = INTR_OFF"
    and q: "runnable s ts = n # ns" and n: "n \<noteq> 0" "space_of s n = Inr d"
    and s': "schedule s = Inr s'"
  shows "running_thread s' = n" "sched_inv s' ns" "status (tasks s' n) = TASK_RUNNING"
proof -
  let ?c = "running_thread s"
  let ?tk = "switched_tasks ?c n (esp s) (requeued_tasks s)"
  have eq: "s' = s\<lparr>lnk := rem_lnk (general_tag n) (requeued_lnk s), thread_tag := general_tag n,
      screen := put_chars (name (tasks s n)) (screen s), cr3 := d,
      tss_seg := (if pgdir (tasks s n) = 0 then tss_seg s else (tss_seg s)\<lparr>tss_esp0 := n + PG_SIZE\<rparr>),
      tasks := ?tk, esp := self_kstack (?tk n) + 20\<rparr>"
    using schedule_eq [OF inv off q n] s' by simp
  have d: "dlist (requeued_lnk s) (thread_ready_list s) (general_tag n # map general_tag ns)"
    using requeued_dlist [OF inv] by (simp add: q)
  have cur: "resumable (?tk ?c) ?c"
    by (simp add: resumable_def turn_fields running_thread_def)
  have mem: "t = ?c \<or> t \<in> set ts \<and> status (tasks s t) = TASK_READY \<and> resumable (tasks s t) t"
    if "t \<in> set (n # ns)" for t
    using that inv unfolding q [symmetric] by (auto simp: runnable_def sched_inv_def split: if_splits)
  have res: "resumable (?tk t) t" if "t \<in> set (n # ns)" for t
    using mem [OF that] cur by (cases "t = ?c") (auto simp: resumable_def turn_fields)
  show run: "running_thread s' = n"
    using res [of n] by (simp add: eq running_thread_def resumable_def)
  show "status (tasks s' n) = TASK_RUNNING" by (simp add: eq turn_fields)
  have dist: "n \<notin> set ns"
    using lq.rep_distinct [OF d] by simp
  have crun: "status (tasks s ?c) = TASK_RUNNING" if "?c \<in> set ns"
    using that q inv by (auto simp: runnable_def sched_inv_def foot_def split: if_splits)
  have ready: "status (?tk t) = TASK_READY" if "t \<in> set ns" for t
    using that mem [of t] dist crun by (cases "t = ?c") (auto simp: turn_fields)
  have "general_tag n \<notin> foot (thread_ready_list s) (map general_tag ns)"
    using lq.own_cells [OF d] .
  moreover have "dlist (rem_lnk (general_tag n) (requeued_lnk s)) (thread_ready_list s) (map general_tag ns)"
    using lq.rep_unlink [of "requeued_lnk s" "thread_ready_list s" "[]" "general_tag n"] d by simp
  ultimately show "sched_inv s' ns"
    using ready res run by (simp add: sched_inv_def eq)
qed

text \<open>A turn leaves every list alone that shares no element with the ready list and the running thread.\<close>

lemma schedule_frame:
  assumes inv: "sched_inv s ts" and off: "intr_get_status s = INTR_OFF"
    and q: "runnable s ts = n # ns" and n: "n \<noteq> 0" "space_of s n = Inr d"
    and s': "schedule s = Inr s'"
    and l: "dlist (lnk s) l xs"
    and disj: "foot l xs \<inter> foot (thread_ready_list s) (map general_tag (runnable s ts)) = {}"
  shows "dlist (lnk s') l xs"
proof -
  have d: "dlist (requeued_lnk s) (thread_ready_list s) ([] @ general_tag n # map general_tag ns)"
    using requeued_dlist [OF inv] by (simp add: q)
  have "dlist (requeued_lnk s) l xs"
  proof (cases "status (tasks s (running_thread s)) = TASK_RUNNING")
    case True
    then have "foot (thread_ready_list s) (map general_tag (runnable s ts)) =
        insert (general_tag (running_thread s)) (foot (thread_ready_list s) (map general_tag ts))"
      by (auto simp: runnable_def foot_def)
    then show ?thesis
      using True inv l disj
        lq.append_frame [of "lnk s" "thread_ready_list s" "map general_tag ts" l xs]
      by (auto simp: requeued_lnk_def sched_inv_def)
  qed (use l in \<open>simp add: requeued_lnk_def\<close>)
  then have "dlist (rem_lnk (general_tag n) (requeued_lnk s)) l xs"
    using disj by (intro lq.unlink_frame [OF d]) (auto simp: q)
  then show ?thesis
    using schedule_eq [OF inv off q n] s' by simp
qed

section \<open>Blocking and waking\<close>

definition blocked_status :: "task_status \<Rightarrow> bool" where
  "blocked_status st \<longleftrightarrow> st = TASK_WAITING \<or> st = TASK_BLOCKED \<or> st = TASK_HANGING"

text \<open>The state in which \<^verbatim>\<open>thread_block\<close> calls \<^verbatim>\<open>schedule\<close>.\<close>

definition blocked_state :: "task_status \<Rightarrow> 'a thread_machine_scheme \<Rightarrow> 'a thread_machine_scheme" where
  "blocked_state st s = upd_task (running_thread s) (\<lambda>t. t\<lparr>status := st\<rparr>) (snd (intr_disable s))"

lemma running_thread_disable [simp]: "running_thread (snd (intr_disable s)) = running_thread s"
  by (simp add: running_thread_def snd_intr_disable)

lemma blocked_state_fields [simp]:
  "running_thread (blocked_state st s) = running_thread s"
  "lnk (blocked_state st s) = lnk s"
  "thread_ready_list (blocked_state st s) = thread_ready_list s"
  "esp (blocked_state st s) = esp s"
  "phys (blocked_state st s) = phys s"
  "cr3 (blocked_state st s) = cr3 s"
  "intr_get_status (blocked_state st s) = INTR_OFF"
  "tasks (blocked_state st s) = (tasks s)(running_thread s := (tasks s (running_thread s))\<lparr>status := st\<rparr>)"
  by (simp_all add: blocked_state_def upd_task_def snd_intr_disable running_thread_def intr_get_status_OFF)

lemma thread_block_eq:
  "thread_block st s =
     (if blocked_status st
      then sbind (schedule (blocked_state st s)) (\<lambda>s'. Inr (intr_get_status s, s'))
      else Inl (Panic ''thread/thread.c'' 156))"
  by (simp add: thread_block_def blocked_status_def blocked_state_def Let_def case_prod_beta
      fst_intr_disable ASSERT_def)

lemma sched_inv_blocked_state:
  assumes "sched_inv s ts"
  shows "sched_inv (blocked_state st s) ts"
proof -
  have "running_thread s \<notin> set ts" using assms by (auto simp: sched_inv_def foot_def)
  with assms show ?thesis by (auto simp: sched_inv_def)
qed

lemma runnable_blocked_state: "blocked_status st \<Longrightarrow> runnable (blocked_state st s) ts = ts"
  by (auto simp: runnable_def blocked_status_def)

lemma thread_unblock_eq:
  assumes "blocked_status (status (tasks s t))"
    and "dlist (lnk s) (thread_ready_list s) xs" "general_tag t \<notin> set xs"
  shows "thread_unblock t s =
    Inr (upd_task t (\<lambda>u. u\<lparr>status := TASK_READY\<rparr>) (list_push (thread_ready_list s) (general_tag t) s))"
proof -
  have "elem_find (thread_ready_list s) (general_tag t) (snd (intr_disable s)) = Inr False"
    using assms elem_find_dlist [of "snd (intr_disable s)" "thread_ready_list s" xs "general_tag t"]
    by (simp add: snd_intr_disable)
  moreover have "status (tasks s t) \<noteq> TASK_READY" using assms(1) by (auto simp: blocked_status_def)
  ultimately show ?thesis
    using assms(1) unfolding blocked_status_def
    by (simp add: thread_unblock_def Let_def bracket_case snd_intr_disable list_op_eqs upd_task_def
        intr_restore disj_commute disj_left_commute)
qed

section \<open>Round robin\<close>

lemma schedule_keeps:
  assumes "sched_inv s ts" "intr_get_status s = INTR_OFF" "runnable s ts = n # ns" "n \<noteq> 0"
    "space_of s n = Inr d" "schedule s = Inr s'"
  shows "cr3 s' = d" "eflags s' = eflags s" "phys s' = phys s" "mem s' = mem s"
    "thread_ready_list s' = thread_ready_list s" "main_thread s' = main_thread s"
    "thread_machine.more s' = thread_machine.more s"
    "tasks s' = switched_tasks (running_thread s) n (esp s) (requeued_tasks s)"
  using schedule_eq [OF assms(1-5)] assms(6) by simp_all

text \<open>A number of turns one after the other, as the timer interrupt causes them.\<close>

fun turns :: "nat \<Rightarrow> 'a thread_machine_scheme \<Rightarrow> kerror + 'a thread_machine_scheme" where
  "turns 0 s = Inr s"
| "turns (Suc k) s = sbind (schedule s) (turns k)"

text \<open>
  Every thread's page directory can be loaded from the current address space and from that of every
  thread, and is the same from all of them: the kernel half, in which the directories lie, is shared.
\<close>

definition spaces_ok :: "'a thread_machine_scheme \<Rightarrow> (u32 \<Rightarrow> u32) \<Rightarrow> u32 list \<Rightarrow> bool" where
  "spaces_ok s dir ring \<longleftrightarrow>
     (\<forall>t \<in> set ring. \<forall>d \<in> insert (cr3 s) (dir ` set ring). space_of (s\<lparr>cr3 := d\<rparr>) t = Inr (dir t))"

text \<open>The running thread, followed by the ready queue.\<close>

definition thread_ring :: "'a thread_machine_scheme \<Rightarrow> u32 list \<Rightarrow> bool" where
  "thread_ring s ring \<longleftrightarrow>
     ring \<noteq> [] \<and> running_thread s = hd ring \<and> sched_inv s (tl ring) \<and>
     intr_get_status s = INTR_OFF \<and> status (tasks s (hd ring)) = TASK_RUNNING \<and>
     0 \<notin> set ring \<and> (\<exists>dir. spaces_ok s dir ring)"

lemma spaces_ok_kernel: "\<forall>t \<in> set ring. pgdir (tasks s t) = 0 \<Longrightarrow> spaces_ok s (\<lambda>_. 0x100000) ring"
  by (simp add: spaces_ok_def space_of_def)

lemma spaces_ok_current:
  assumes "spaces_ok s dir ring" "t \<in> set ring"
  shows "space_of s t = Inr (dir t)"
proof -
  have "space_of (s\<lparr>cr3 := cr3 s\<rparr>) t = Inr (dir t)" using assms unfolding spaces_ok_def by blast
  then show ?thesis by simp
qed

lemma spaces_ok_turn:
  assumes "spaces_ok s dir ring" "cr3 s' \<in> insert (cr3 s) (dir ` set ring)" "phys s' = phys s"
    and "\<And>t. pgdir (tasks s' t) = pgdir (tasks s t)"
  shows "spaces_ok s' dir ring"
proof -
  have "space_of (s'\<lparr>cr3 := d\<rparr>) t = space_of (s\<lparr>cr3 := d\<rparr>) t" for d t
    by (rule space_of_cong) (simp_all add: assms)
  then show ?thesis using assms(1,2) by (auto simp: spaces_ok_def)
qed

lemma thread_ring_distinct: "thread_ring s ring \<Longrightarrow> distinct ring"
proof -
  assume k: "thread_ring s ring"
  then obtain c ts where ring: "ring = c # ts" by (cases ring) (auto simp: thread_ring_def)
  have "distinct (map general_tag ts)" "c \<notin> set ts"
    using k by (auto simp: thread_ring_def sched_inv_def foot_def ring dest: lq.rep_distinct)
  then show ?thesis by (simp add: ring distinct_map)
qed

lemma thread_ring_turn:
  assumes "thread_ring s ring"
  shows "\<exists>s'. schedule s = Inr s' \<and> thread_ring s' (rotate1 ring) \<and>
    (\<forall>t. ticks (tasks s' t) = (if t = hd ring then priority (tasks s t) else ticks (tasks s t)) \<and>
      priority (tasks s' t) = priority (tasks s t) \<and> stack_magic (tasks s' t) = stack_magic (tasks s t)) \<and>
    thread_machine.more s' = thread_machine.more s"
proof -
  obtain c ts where ring: "ring = c # ts" using assms by (cases ring) (auto simp: thread_ring_def)
  have k: "running_thread s = c" "sched_inv s ts" "intr_get_status s = INTR_OFF"
    "status (tasks s c) = TASK_RUNNING" "0 \<notin> set ring"
    using assms by (auto simp: thread_ring_def ring)
  obtain dir where dir: "spaces_ok s dir ring" using assms by (auto simp: thread_ring_def)
  obtain n ns where q: "ts @ [c] = n # ns" by (cases "ts @ [c]") auto
  have run: "runnable s ts = n # ns" using k q by (simp add: runnable_def)
  have set: "set (n # ns) = set ring" using q by (metis ring rotate1.simps(2) set_rotate1)
  then have "n \<in> set ring" by auto
  with k(5) have n: "n \<noteq> 0" "space_of s n = Inr (dir n)" using spaces_ok_current [OF dir] by auto
  obtain s' where s': "schedule s = Inr s'" using schedule_eq [OF k(2,3) run n] by blast
  note keeps = schedule_keeps [OF k(2,3) run n s']
  have "intr_get_status s' = INTR_OFF"
    using k(3) keeps(2) by (simp add: intr_get_status_OFF)
  moreover have "spaces_ok s' dir (n # ns)"
    using spaces_ok_turn [OF dir, of s'] \<open>n \<in> set ring\<close> keeps(1,3)
    by (simp add: keeps(8) turn_fields) (simp add: spaces_ok_def set del: set_simps)
  ultimately have "thread_ring s' (n # ns)"
    using schedule_invariant [OF k(2,3) run n s'] k(5)
    by (auto simp: thread_ring_def set simp del: set_simps)
  then show ?thesis using s' q k(1,4) keeps(7,8) by (auto simp: ring turn_fields)
qed

lemma turns_rotate:
  "thread_ring s ring \<Longrightarrow> \<exists>s'. turns k s = Inr s' \<and> thread_ring s' (rotate k ring)"
proof (induction k arbitrary: s ring)
  case (Suc k)
  then obtain s1 where "schedule s = Inr s1" "thread_ring s1 (rotate1 ring)"
    using thread_ring_turn by blast
  with Suc.IH [of s1 "rotate1 ring"] show ?case
    by (simp add: rotate_def funpow_swap1)
qed simp

text \<open>
  One turn of \<^verbatim>\<open>schedule\<close> with interrupts off and a running thread: the running thread is
  stopped and put at the back of the ready queue with a fresh time slice, the thread at the front
  of the queue runs in its own address space, and the scheduler's invariant holds again for the
  rest of the queue.
\<close>

lemma schedule_takes_turn:
  assumes "sched_inv s ts" "intr_get_status s = INTR_OFF"
    and "status (tasks s (running_thread s)) = TASK_RUNNING"
    and "hd (ts @ [running_thread s]) \<noteq> 0" "space_of s (hd (ts @ [running_thread s])) = Inr d"
  shows "\<exists>s'. schedule s = Inr s' \<and> running_thread s' = hd (ts @ [running_thread s]) \<and>
    sched_inv s' (tl (ts @ [running_thread s])) \<and> cr3 s' = d \<and>
    status (tasks s' (running_thread s')) = TASK_RUNNING \<and>
    ticks (tasks s' (running_thread s)) = priority (tasks s (running_thread s)) \<and>
    self_kstack (tasks s' (running_thread s)) = esp s - 20"
proof -
  obtain n ns where q: "ts @ [running_thread s] = n # ns" by (cases "ts @ [running_thread s]") auto
  have run: "runnable s ts = n # ns" using assms(3) q by (simp add: runnable_def)
  have n: "n \<noteq> 0" "space_of s n = Inr d" using assms(4,5) by (simp_all add: q)
  obtain s' where s': "schedule s = Inr s'" using schedule_eq [OF assms(1,2) run n] by blast
  with schedule_invariant [OF assms(1,2) run n s'] schedule_keeps [OF assms(1,2) run n s'] q assms(3)
  show ?thesis by (simp add: turn_fields requeued_tasks_def)
qed

text \<open>
  Round robin without starvation: with the running thread and the ready queue as a ring of
  threads, \<open>k\<close> turns of \<^verbatim>\<open>schedule\<close> rotate the ring by \<open>k\<close>, for every \<open>k\<close>; so each ready
  thread runs after at most as many turns as its position in the queue.
\<close>

lemma schedule_round_robin:
  assumes "thread_ring s ring"
  shows "\<exists>s'. turns k s = Inr s' \<and> thread_ring s' (rotate k ring) \<and>
    running_thread s' = ring ! (k mod length ring)"
proof -
  obtain s' where s': "turns k s = Inr s'" "thread_ring s' (rotate k ring)"
    using turns_rotate [OF assms] by blast
  have "ring \<noteq> []" using assms by (simp add: thread_ring_def)
  then have "hd (rotate k ring) = ring ! (k mod length ring)" by (simp add: hd_rotate_conv_nth)
  with s' show ?thesis by (auto simp: thread_ring_def)
qed

lemma thread_block_alone:
  assumes "sched_inv s []" "blocked_status stat"
  shows "thread_block stat s = Inl (Panic ''thread/thread.c'' 129)"
  using assms sched_inv_blocked_state [OF assms(1), of stat]
    schedule_nothing_runnable [of "blocked_state stat s"]
  by (auto simp: thread_block_eq blocked_status_def)

lemma thread_block_switches:
  assumes "sched_inv s (n # ns)" "blocked_status stat" "n \<noteq> 0" "space_of s n = Inr d"
  obtains s' where "thread_block stat s = Inr (intr_get_status s, s')"
    and "schedule (blocked_state stat s) = Inr s'" and "running_thread s' = n" and "sched_inv s' ns"
    and "tasks s' = switched_tasks (running_thread s) n (esp s) (tasks (blocked_state stat s))"
    and "thread_machine.more s' = thread_machine.more s" and "intr_get_status s' = INTR_OFF"
proof -
  let ?b = "blocked_state stat s"
  have inv: "sched_inv ?b (n # ns)" using assms(1) by (rule sched_inv_blocked_state)
  have run: "runnable ?b (n # ns) = n # ns" using assms(2) by (rule runnable_blocked_state)
  have off: "intr_get_status ?b = INTR_OFF" by simp
  have n: "n \<noteq> 0" "space_of ?b n = Inr d"
    using assms(1,3,4) space_of_cong [of ?b s n] by simp_all
  obtain s' where s': "schedule ?b = Inr s'" using schedule_eq [OF inv off run n] by blast
  note post = schedule_invariant [OF inv off run n s'] schedule_keeps [OF inv off run n s']
  have "requeued_tasks ?b = tasks ?b"
    using assms(2) by (auto simp: requeued_tasks_def blocked_status_def)
  moreover have "thread_machine.more ?b = thread_machine.more s"
    by (simp add: blocked_state_def upd_task_def snd_intr_disable)
  moreover have "intr_get_status s' = INTR_OFF"
    using off [unfolded intr_get_status_OFF] post by (simp add: intr_get_status_OFF)
  ultimately show thesis
    using that [OF _ s'] post s' assms(2) by (simp add: thread_block_eq)
qed

definition woken :: "u32 \<Rightarrow> 'a thread_machine_scheme \<Rightarrow> 'a thread_machine_scheme" where
  "woken t s =
     upd_task t (\<lambda>u. u\<lparr>status := TASK_READY\<rparr>) (list_push (thread_ready_list s) (general_tag t) s)"

lemma thread_unblock_front:
  assumes inv: "sched_inv s ts" and t: "blocked_status (status (tasks s t))" "resumable (tasks s t) t"
    "t \<noteq> running_thread s" "general_tag t \<notin> foot (thread_ready_list s) (map general_tag ts)"
  shows "thread_unblock t s = Inr (woken t s)"
    and "sched_inv (woken t s) (t # ts)" "running_thread (woken t s) = running_thread s"
proof -
  have "general_tag t \<notin> set (map general_tag ts)" using t(4) by (simp add: foot_def)
  then show "thread_unblock t s = Inr (woken t s)"
    using thread_unblock_eq [of s t "map general_tag ts"] t inv by (simp add: sched_inv_def woken_def)
  show "running_thread (woken t s) = running_thread s"
    by (simp add: woken_def upd_task_def list_op_eqs running_thread_def)
  have "dlist (ins_lnk (elem_next (lnk s (thread_ready_list s))) (general_tag t) (lnk s))
      (thread_ready_list s) (map general_tag (t # ts))"
    using lq.rep_push [of "lnk s" "thread_ready_list s" "map general_tag ts" "general_tag t"] t inv
    by (simp add: sched_inv_def)
  with t inv show "sched_inv (woken t s) (t # ts)"
    by (auto simp: woken_def sched_inv_def upd_task_def list_op_eqs running_thread_def resumable_def)
qed

text \<open>
  Blocking and waking: \<^verbatim>\<open>thread_block\<close> stops the running thread with the given status
  outside the ready queue and runs the front of the queue, and it panics at line 129 when no
  other thread is ready; \<^verbatim>\<open>thread_unblock\<close> of a blocked thread makes it ready at the front of
  the queue.
\<close>

lemma block_and_unblock:
  assumes "sched_inv s ts" "blocked_status stat"
    and "ts = [] \<or> hd ts \<noteq> 0 \<and> space_of s (hd ts) = Inr d"
  shows "(if ts = [] then thread_block stat s = Inl (Panic ''thread/thread.c'' 129)
     else \<exists>s'. thread_block stat s = Inr (intr_get_status s, s') \<and> running_thread s' = hd ts \<and>
       sched_inv s' (tl ts) \<and> status (tasks s' (running_thread s)) = stat) \<and>
    (blocked_status (status (tasks s t)) \<and> resumable (tasks s t) t \<and> t \<noteq> running_thread s \<and>
       general_tag t \<notin> foot (thread_ready_list s) (map general_tag ts) \<longrightarrow>
     (\<exists>s'. thread_unblock t s = Inr s' \<and> sched_inv s' (t # ts) \<and>
       running_thread s' = running_thread s))"
proof
  have notin: "running_thread s \<notin> set ts" using assms(1) by (auto simp: sched_inv_def foot_def)
  show "if ts = [] then thread_block stat s = Inl (Panic ''thread/thread.c'' 129)
     else \<exists>s'. thread_block stat s = Inr (intr_get_status s, s') \<and> running_thread s' = hd ts \<and>
       sched_inv s' (tl ts) \<and> status (tasks s' (running_thread s)) = stat"
  proof (cases ts)
    case Nil
    then show ?thesis using thread_block_alone assms by simp
  next
    case (Cons n ns)
    with assms obtain s' where s': "thread_block stat s = Inr (intr_get_status s, s')"
      "running_thread s' = n" "sched_inv s' ns"
      "tasks s' = switched_tasks (running_thread s) n (esp s) (tasks (blocked_state stat s))"
      using thread_block_switches [of s n ns stat d] by auto
    with Cons notin show ?thesis by (auto simp: turn_fields)
  qed
qed (use assms(1) thread_unblock_front in blast)

section \<open>A small system\<close>

definition zero_vaddr :: virtual_addr where
  "zero_vaddr = \<lparr>vaddr_bitmap = \<lparr>btmp_bytes_len = 0, bits = 0\<rparr>, vaddr_start = 0\<rparr>"

definition demo_task :: "u32 \<Rightarrow> task_status \<Rightarrow> task_struct" where
  "demo_task a st = \<lparr>self_kstack = a + 3664, pid = 1, status = st, name = lit ''t'', priority = 8,
     ticks = 8, elapsed_ticks = 0, pgdir = 0, userprog_vaddr = zero_vaddr, stack_magic = 0x20040207\<rparr>"

text \<open>The main thread runs; two more threads are ready.\<close>

definition demo_threads :: thread_machine where
  "demo_threads =
    (let s = list_init 0xc0005000 (tss_machine.extend (mmu_machine.extend demo_mmu
         \<lparr>tss_seg = zero_tss, gdt = (\<lambda>_. make_gdt_desc 0 0 0 0), gdtr = 0, task_register = 0\<rparr>)
         \<lparr>esp = 0xc009ef00, tasks = (\<lambda>a. demo_task a TASK_READY)
            (0xc009e000 := demo_task 0xc009e000 TASK_RUNNING,
             0xc0300000 := demo_task 0xc0300000 TASK_BLOCKED),
          main_thread = 0xc009e000, thread_ready_list = 0xc0005000, thread_all_list = 0xc0005010,
          thread_tag = 0\<rparr>)
     in (list_append 0xc0005000 (general_tag 0xc0101000)
          (list_append 0xc0005000 (general_tag 0xc0100000) s))\<lparr>eflags := 2\<rparr>)"

lemma demo_threads_fields [simp]:
  "esp demo_threads = 0xc009ef00" "thread_ready_list demo_threads = 0xc0005000"
  "eflags demo_threads = 2" "cr3 demo_threads = cr3 demo_mmu" "phys demo_threads = phys demo_mmu"
  "tasks demo_threads = (\<lambda>a. demo_task a TASK_READY)(0xc009e000 := demo_task 0xc009e000 TASK_RUNNING,
     0xc0300000 := demo_task 0xc0300000 TASK_BLOCKED)"
  by (simp_all add: demo_threads_def Let_def list_op_eqs list_init_def tss_machine.defs mmu_machine.defs)

lemma demo_threads_running [simp]: "running_thread demo_threads = 0xc009e000"
  by (simp add: running_thread_def)

lemma demo_threads_dlist:
  "dlist (lnk demo_threads) 0xc0005000 (map general_tag [0xc0100000, 0xc0101000])"
  using lq.append_all [OF dlist_init, of "map general_tag [0xc0100000, 0xc0101000]" "0xc0005000"]
  by (simp add: demo_threads_def Let_def list_op_eqs list_tail_def general_tag_def general_tag_offset_def)

lemma demo_threads_inv: "sched_inv demo_threads [0xc0100000, 0xc0101000]"
  using demo_threads_dlist
  by (simp add: sched_inv_def resumable_def demo_task_def in_foot_iff list_tail_def general_tag_def
      general_tag_offset_def)

lemma demo_threads_ring: "thread_ring demo_threads [0xc009e000, 0xc0100000, 0xc0101000]"
  using demo_threads_inv spaces_ok_kernel [of "[0xc009e000, 0xc0100000, 0xc0101000]" demo_threads]
  by (auto simp: thread_ring_def demo_task_def intr_get_status_def EFLAGS_IF_def)

lemma schedule_takes_turn_example:
  "\<exists>s'. schedule demo_threads = Inr s' \<and> running_thread s' = 0xc0100000 \<and>
     sched_inv s' [0xc0101000, 0xc009e000]"
  using schedule_takes_turn [OF demo_threads_inv, of "0x100000"]
  by (auto simp: demo_task_def intr_get_status_def EFLAGS_IF_def space_of_def)

lemma schedule_round_robin_example:
  "\<exists>s'. turns 2 demo_threads = Inr s' \<and> running_thread s' = 0xc0101000"
  using schedule_round_robin [OF demo_threads_ring, of 2] by auto

lemma block_and_unblock_example:
  "(\<exists>s'. thread_block TASK_BLOCKED demo_threads = Inr (INTR_OFF, s') \<and> running_thread s' = 0xc0100000) \<and>
   (\<exists>s'. thread_unblock 0xc0300000 demo_threads = Inr s' \<and>
      sched_inv s' [0xc0300000, 0xc0100000, 0xc0101000])"
  using block_and_unblock [OF demo_threads_inv, of TASK_BLOCKED "0x100000" "0xc0300000"]
  by (auto simp: demo_task_def intr_get_status_def EFLAGS_IF_def space_of_def blocked_status_def
      resumable_def in_foot_iff list_tail_def general_tag_def general_tag_offset_def)

end
