(* ===== verification/Sync.thy ===== *)
theory Sync
  imports Thread
begin

text \<open>
  Semaphores and locks, \<^verbatim>\<open>src/thread/sync.c\<close>. A semaphore's value and a lock's fields live at
  the structures' addresses; the list of waiters sits four bytes into a semaphore and the semaphore
  four bytes into a lock. \<^verbatim>\<open>sema_down\<close> may block inside its loop: \<open>sema_down_loop\<close> is the loop from
  its test on, and a thread that is switched back in goes on with \<open>sema_down_resume\<close>, that is with
  the rest of \<^verbatim>\<open>thread_block\<close> and the test again.

  The threads that use one lock, interleaved by the scheduler, are the step relation \<open>lock_step\<close>;
  \<open>lock_inv\<close> is its invariant, from which mutual exclusion and the absence of lost wake-ups follow.
\<close>

section \<open>sync.c\<close>

record sync_machine = thread_machine +
  sema_value :: "u32 \<Rightarrow> u8"
  lock_holder :: "u32 \<Rightarrow> u32"
  lock_repeat :: "u32 \<Rightarrow> u32"

definition sema_waiters :: "u32 \<Rightarrow> u32" where "sema_waiters psema = psema + 4"
definition lock_semaphore :: "u32 \<Rightarrow> u32" where "lock_semaphore plock = plock + 4"

text \<open>What a thread switched out of \<^verbatim>\<open>sema_down\<close> has on its stack: the saved interrupt states.\<close>

type_synonym frames = "intr_status \<times> intr_status"

definition set_value :: "u32 \<Rightarrow> u8 \<Rightarrow> 'a sync_machine_scheme \<Rightarrow> 'a sync_machine_scheme" where
  "set_value psema v s = s\<lparr>sema_value := (sema_value s)(psema := v)\<rparr>"

definition set_holder :: "u32 \<Rightarrow> u32 \<Rightarrow> 'a sync_machine_scheme \<Rightarrow> 'a sync_machine_scheme" where
  "set_holder plock v s = s\<lparr>lock_holder := (lock_holder s)(plock := v)\<rparr>"

definition set_repeat :: "u32 \<Rightarrow> u32 \<Rightarrow> 'a sync_machine_scheme \<Rightarrow> 'a sync_machine_scheme" where
  "set_repeat plock v s = s\<lparr>lock_repeat := (lock_repeat s)(plock := v)\<rparr>"

definition sema_init :: "u32 \<Rightarrow> u8 \<Rightarrow> 'a sync_machine_scheme \<Rightarrow> 'a sync_machine_scheme" where
  "sema_init psema value s = list_init (sema_waiters psema) (set_value psema value s)"

definition lock_init :: "u32 \<Rightarrow> 'a sync_machine_scheme \<Rightarrow> 'a sync_machine_scheme" where
  "lock_init plock s =
     (let s = set_holder plock 0 s;
          s = set_repeat plock 0 s
      in sema_init (lock_semaphore plock) 1 s)"

text \<open>The body of the loop of \<^verbatim>\<open>sema_down\<close>, up to the switch in \<^verbatim>\<open>thread_block\<close>.\<close>

definition sema_wait ::
  "u32 \<Rightarrow> 'a sync_machine_scheme \<Rightarrow> kerror + (intr_status \<times> 'a sync_machine_scheme)" where
  "sema_wait psema s =
     sbind (elem_find (sema_waiters psema) (general_tag (running_thread s)) s) (\<lambda>found.
     sbind (ASSERT ''thread/sync.c'' 24 (\<not> found)) (\<lambda>_.
     sbind (elem_find (sema_waiters psema) (general_tag (running_thread s)) s) (\<lambda>found.
       if found then Inl (Panic ''thread/sync.c'' 27)
       else thread_block TASK_BLOCKED
              (list_append (sema_waiters psema) (general_tag (running_thread s)) s))))"

definition sema_down_loop ::
  "u32 \<Rightarrow> intr_status \<Rightarrow> 'a sync_machine_scheme \<Rightarrow> ('a sync_machine_scheme, frames, unit) outcome" where
  "sema_down_loop psema old_status s =
     (if sema_value s psema = 0 then
        (case sema_wait psema s of Inl e \<Rightarrow> Fail e | Inr (st, s) \<Rightarrow> Switched s (old_status, st))
      else
        let s = set_value psema (sema_value s psema - 1) s
        in finish_state (sbind (ASSERT ''thread/sync.c'' 33 (sema_value s psema = 0)) (\<lambda>_.
             Inr (snd (intr_set_status old_status s)))))"

definition sema_down ::
  "u32 \<Rightarrow> 'a sync_machine_scheme \<Rightarrow> ('a sync_machine_scheme, frames, unit) outcome" where
  "sema_down psema s = (case intr_disable s of (old_status, s) \<Rightarrow> sema_down_loop psema old_status s)"

definition sema_down_resume ::
  "u32 \<Rightarrow> frames \<Rightarrow> 'a sync_machine_scheme \<Rightarrow> ('a sync_machine_scheme, frames, unit) outcome" where
  "sema_down_resume psema k s = sema_down_loop psema (fst k) (thread_block_resume (snd k) s)"

definition sema_up :: "u32 \<Rightarrow> 'a sync_machine_scheme \<Rightarrow> kerror + 'a sync_machine_scheme" where
  "sema_up psema s =
     (case intr_disable s of (old_status, s) \<Rightarrow>
      sbind (ASSERT ''thread/sync.c'' 40 (sema_value s psema = 0)) (\<lambda>_.
      sbind
        (if \<not> list_empty (sema_waiters psema) s then
           let (tag, s) = list_pop (sema_waiters psema) s;
               thread_blocked = elem2enyrt general_tag_offset tag
           in thread_unblock thread_blocked s
         else Inr s) (\<lambda>s.
      let s = set_value psema (sema_value s psema + 1) s in
      sbind (ASSERT ''thread/sync.c'' 46 (sema_value s psema = 1)) (\<lambda>_.
        Inr (snd (intr_set_status old_status s))))))"

text \<open>The rest of \<^verbatim>\<open>lock_acquire\<close> after \<^verbatim>\<open>sema_down\<close> has returned.\<close>

definition lock_taken ::
  "u32 \<Rightarrow> 'a sync_machine_scheme \<Rightarrow> ('a sync_machine_scheme, frames, unit) outcome" where
  "lock_taken plock s =
     (let s = set_holder plock (running_thread s) s
      in finish_state (sbind (ASSERT ''thread/sync.c'' 55 (lock_repeat s plock = 0)) (\<lambda>_.
           Inr (set_repeat plock 1 s))))"

definition lock_acquire ::
  "u32 \<Rightarrow> 'a sync_machine_scheme \<Rightarrow> ('a sync_machine_scheme, frames, unit) outcome" where
  "lock_acquire plock s =
     (if lock_holder s plock \<noteq> running_thread s
      then obind (sema_down (lock_semaphore plock) s) (\<lambda>_. lock_taken plock)
      else Ret (set_repeat plock (lock_repeat s plock + 1) s) ())"

definition lock_acquire_resume ::
  "u32 \<Rightarrow> frames \<Rightarrow> 'a sync_machine_scheme \<Rightarrow> ('a sync_machine_scheme, frames, unit) outcome" where
  "lock_acquire_resume plock k s =
     obind (sema_down_resume (lock_semaphore plock) k s) (\<lambda>_. lock_taken plock)"

definition lock_release :: "u32 \<Rightarrow> 'a sync_machine_scheme \<Rightarrow> kerror + 'a sync_machine_scheme" where
  "lock_release plock s =
     sbind (ASSERT ''thread/sync.c'' 64 (lock_holder s plock = running_thread s)) (\<lambda>_.
       if lock_repeat s plock > 1 then Inr (set_repeat plock (lock_repeat s plock - 1) s)
       else
         sbind (ASSERT ''thread/sync.c'' 69 (lock_repeat s plock = 1)) (\<lambda>_.
           let s = set_holder plock 0 s;
               s = set_repeat plock 0 s
           in sema_up (lock_semaphore plock) s))"

section \<open>A wait queue beside the ready queue\<close>

text \<open>
  The scheduler's invariant together with one list \<open>W\<close> of waiting threads \<open>ws\<close>: the waiting
  threads are blocked, no element is in both lists, and the running thread is in neither.
\<close>

definition waitq :: "u32 \<Rightarrow> u32 list \<Rightarrow> u32 list \<Rightarrow> 'a thread_machine_scheme \<Rightarrow> bool" where
  "waitq W ts ws s \<longleftrightarrow>
     sched_inv s ts \<and> dlist (lnk s) W (map general_tag ws) \<and>
     foot W (map general_tag ws) \<inter> foot (thread_ready_list s) (map general_tag ts) = {} \<and>
     general_tag (running_thread s) \<notin> foot W (map general_tag ws) \<and>
     (\<forall>w \<in> set ws. status (tasks s w) = TASK_BLOCKED \<and> resumable (tasks s w) w) \<and>
     status (tasks s (running_thread s)) = TASK_RUNNING"

lemma waitq_cong:
  "lnk s' = lnk s \<Longrightarrow> thread_ready_list s' = thread_ready_list s \<Longrightarrow> tasks s' = tasks s \<Longrightarrow>
   esp s' = esp s \<Longrightarrow> waitq W ts ws s' \<longleftrightarrow> waitq W ts ws s"
  by (simp add: waitq_def sched_inv_def running_thread_def)

lemma waitq_running_apart:
  "waitq W ts ws s \<Longrightarrow> running_thread s \<notin> set ts \<and> running_thread s \<notin> set ws"
  by (auto simp: waitq_def sched_inv_def foot_def)

lemma waitq_apart: "waitq W ts ws s \<Longrightarrow> set ts \<inter> set ws = {}"
  by (auto simp: waitq_def foot_def)

lemma foot_snoc_tag: "foot l (map general_tag (xs @ [x])) = insert (general_tag x) (foot l (map general_tag xs))"
  by (auto simp: foot_def)

text \<open>A turn of the scheduler keeps the waiting threads waiting.\<close>

lemma waitq_schedule:
  assumes w: "waitq W ts ws s" and s': "schedule s = Inr s'"
  shows "waitq W (tl (ts @ [running_thread s])) ws s' \<and>
    running_thread s' = hd (ts @ [running_thread s]) \<and> running_thread s' \<noteq> 0 \<and>
    thread_machine.more s' = thread_machine.more s"
proof -
  have inv: "sched_inv s ts" using w by (simp add: waitq_def)
  obtain n ns d where off: "intr_get_status s = INTR_OFF" and run: "runnable s ts = n # ns"
    and n: "n \<noteq> 0" "space_of s n = Inr d"
    using schedule_Inr [OF inv s'] .
  have q: "ts @ [running_thread s] = n # ns" using run w by (simp add: runnable_def waitq_def)
  note post = schedule_invariant [OF inv off run n s'] schedule_keeps [OF inv off run n s']
  have feet: "foot (thread_ready_list s) (map general_tag (n # ns)) =
      insert (general_tag (running_thread s)) (foot (thread_ready_list s) (map general_tag ts))"
    unfolding q [symmetric] by (rule foot_snoc_tag)
  have disj: "foot W (map general_tag ws) \<inter> foot (thread_ready_list s) (map general_tag (n # ns)) = {}"
    unfolding feet using w by (auto simp: waitq_def)
  have "dlist (lnk s') W (map general_tag ws)"
    using w disj run by (intro schedule_frame [OF inv off run n s']) (simp_all add: waitq_def)
  moreover have "t \<noteq> n \<and> t \<noteq> running_thread s" if "t \<in> set ws" for t
    using that waitq_running_apart [OF w] waitq_apart [OF w] q by (cases ts) auto
  then have "\<forall>t \<in> set ws. tasks s' t = tasks s t"
    by (simp add: post switched_tasks_other requeued_tasks_other)
  ultimately show ?thesis
    using post w disj q n by (auto simp: waitq_def)
qed

text \<open>Waiting on a semaphore: the running thread joins the end of the wait queue.\<close>

lemma sema_wait_eq:
  assumes "waitq (sema_waiters p) ts ws s"
  shows "sema_wait p s = thread_block TASK_BLOCKED
    (s\<lparr>lnk := ins_lnk (list_tail (sema_waiters p)) (general_tag (running_thread s)) (lnk s)\<rparr>)"
proof -
  have "elem_find (sema_waiters p) (general_tag (running_thread s)) s = Inr False"
    using assms waitq_running_apart [OF assms]
      elem_find_dlist [of s "sema_waiters p" "map general_tag ws" "general_tag (running_thread s)"]
    by (auto simp: waitq_def)
  then show ?thesis by (simp add: sema_wait_def list_op_eqs)
qed

lemma waitq_enqueue:
  assumes w: "waitq W ts ws s"
  defines "s1 \<equiv> s\<lparr>lnk := ins_lnk (list_tail W) (general_tag (running_thread s)) (lnk s)\<rparr>"
  shows "sched_inv s1 ts" "dlist (lnk s1) W (map general_tag (ws @ [running_thread s]))"
proof -
  have "dlist (lnk s1) (thread_ready_list s) (map general_tag ts)"
    using w lq.append_frame [of "lnk s" W "map general_tag ws" "thread_ready_list s" "map general_tag ts"]
    by (simp add: s1_def waitq_def sched_inv_def)
  with w show "sched_inv s1 ts" by (simp add: s1_def waitq_def sched_inv_def running_thread_def)
  show "dlist (lnk s1) W (map general_tag (ws @ [running_thread s]))"
    using w lq.rep_append [of "lnk s" W "map general_tag ws"] by (simp add: s1_def waitq_def)
qed

lemma waitq_wait:
  assumes w: "waitq (sema_waiters p) ts ws s" and s': "sema_wait p s = Inr (st, s')"
  shows "ts \<noteq> [] \<and> waitq (sema_waiters p) (tl ts) (ws @ [running_thread s]) s' \<and>
    running_thread s' = hd ts \<and> running_thread s' \<noteq> 0 \<and> thread_machine.more s' = thread_machine.more s"
proof -
  let ?W = "sema_waiters p" and ?c = "running_thread s"
  define s1 where "s1 = s\<lparr>lnk := ins_lnk (list_tail ?W) (general_tag ?c) (lnk s)\<rparr>"
  let ?b = "blocked_state TASK_BLOCKED s1"
  note enq = waitq_enqueue [OF w, folded s1_def]
  have fields: "running_thread s1 = ?c" "tasks s1 = tasks s" "esp s1 = esp s"
    "thread_ready_list s1 = thread_ready_list s" "thread_machine.more s1 = thread_machine.more s"
    by (simp_all add: s1_def running_thread_def)
  have inv: "sched_inv ?b ts" using enq(1) by (rule sched_inv_blocked_state)
  have sch: "schedule ?b = Inr s'"
    using s' sema_wait_eq [OF w] by (auto simp: s1_def thread_block_eq sbind_Inr_iff split: if_splits)
  obtain n ns d where off: "intr_get_status ?b = INTR_OFF" and run: "runnable ?b ts = n # ns"
    and n: "n \<noteq> 0" "space_of ?b n = Inr d"
    using schedule_Inr [OF inv sch] .
  have ts: "ts = n # ns" using run by (simp add: runnable_blocked_state blocked_status_def)
  note post = schedule_invariant [OF inv off run n sch] schedule_keeps [OF inv off run n sch]
  have disj: "foot ?W (map general_tag (ws @ [?c])) \<inter> foot (thread_ready_list s) (map general_tag ts) = {}"
    using w unfolding foot_snoc_tag by (auto simp: waitq_def sched_inv_def)
  then have "dlist (lnk s') ?W (map general_tag (ws @ [?c]))"
    using enq(2) run ts by (intro schedule_frame [OF inv off run n sch]) (simp_all add: fields)
  moreover have same: "tasks s' t = tasks s t" if "t \<in> set ws" for t
  proof -
    have "t \<noteq> n \<and> t \<noteq> ?c" using that waitq_running_apart [OF w] waitq_apart [OF w] ts by auto
    then show ?thesis by (simp add: post fields switched_tasks_other requeued_tasks_other)
  qed
  moreover have "n \<noteq> ?c" using waitq_running_apart [OF w] ts by auto
  then have "status (tasks s' ?c) = TASK_BLOCKED" "resumable (tasks s' ?c) ?c"
    by (simp_all add: post turn_fields fields resumable_def running_thread_def)
  moreover have "thread_machine.more ?b = thread_machine.more s1"
    by (simp add: blocked_state_def upd_task_def snd_intr_disable)
  ultimately show ?thesis
    using post w disj ts n by (auto simp: waitq_def fields)
qed

text \<open>Waking: the first waiting thread moves to the front of the ready queue.\<close>

lemma sema_up_empty:
  assumes "sema_value s p = 0" "dlist (lnk s) (sema_waiters p) []"
  shows "sema_up p s = Inr (set_value p 1 s)"
proof -
  have "list_empty (sema_waiters p) (s\<lparr>eflags := e\<rparr>)" for e
    using list_empty_dlist [of "s\<lparr>eflags := e\<rparr>" "sema_waiters p" "[]"] assms(2) by simp
  then show ?thesis
    using assms(1) unfolding sema_up_def bracket_case
    by (simp add: set_value_def Let_def intr_restore)
qed

lemma waitq_dequeue:
  assumes w: "waitq W ts (x # ws) s"
  defines "s1 \<equiv> s\<lparr>lnk := rem_lnk (general_tag x) (lnk s)\<rparr>"
  shows "waitq W ts ws s1" "general_tag x \<notin> foot W (map general_tag ws)"
    "general_tag x \<notin> foot (thread_ready_list s) (map general_tag ts)"
proof -
  have d: "dlist (lnk s) W ([] @ general_tag x # map general_tag ws)" using w by (simp add: waitq_def)
  show "general_tag x \<notin> foot W (map general_tag ws)" using lq.own_cells d by fastforce
  show "general_tag x \<notin> foot (thread_ready_list s) (map general_tag ts)"
    using w by (auto simp: waitq_def)
  have "dlist (lnk s1) W (map general_tag ws)"
    using lq.rep_unlink [OF d] by (simp add: s1_def)
  moreover have "dlist (lnk s1) (thread_ready_list s) (map general_tag ts)"
    using w lq.unlink_frame [OF d] by (simp add: s1_def waitq_def sched_inv_def)
  ultimately show "waitq W ts ws s1"
    using w by (auto simp: waitq_def s1_def sched_inv_def running_thread_def)
qed

lemma sema_up_wakes:
  assumes w: "waitq (sema_waiters p) ts (x # ws) s" and v: "sema_value s p = 0"
  defines "s1 \<equiv> s\<lparr>lnk := rem_lnk (general_tag x) (lnk s)\<rparr>"
  shows "sema_up p s = Inr (set_value p 1 (woken x s1))"
proof -
  let ?d = "\<lambda>s. s\<lparr>eflags := eflags s AND NOT EFLAGS_IF\<rparr>"
  have first: "elem_next (lnk s (sema_waiters p)) = general_tag x"
    using w lq.rep_first [of "lnk s" "sema_waiters p" "general_tag x" "map general_tag ws"] by (simp add: waitq_def)
  have ne: "\<not> list_empty (sema_waiters p) (?d s)"
    using w list_empty_dlist [of "?d s" "sema_waiters p" "map general_tag (x # ws)"]
    by (simp add: waitq_def)
  let ?s1 = "(?d s)\<lparr>lnk := rem_lnk (general_tag x) (lnk s)\<rparr>"
  have "waitq (sema_waiters p) ts ws ?s1"
    using waitq_dequeue(1) [OF w, folded s1_def] waitq_cong [of ?s1 s1] by (simp add: s1_def)
  then have inv: "sched_inv ?s1 ts" by (simp add: waitq_def)
  have x: "status (tasks s x) = TASK_BLOCKED" "resumable (tasks s x) x" "x \<noteq> running_thread s"
    using w waitq_running_apart [OF w] by (auto simp: waitq_def)
  have un: "thread_unblock x ?s1 = Inr (woken x ?s1)"
    using x waitq_dequeue(3) [OF w]
    by (intro thread_unblock_front(1) [OF inv]) (simp_all add: blocked_status_def running_thread_def)
  show ?thesis
    using v ne first unfolding sema_up_def bracket_case
    by (simp add: list_op_eqs s1_def un woken_def upd_task_def set_value_def Let_def intr_restore)
qed

lemma waitq_wake:
  assumes w: "waitq W ts (x # ws) s"
  defines "s1 \<equiv> s\<lparr>lnk := rem_lnk (general_tag x) (lnk s)\<rparr>"
  shows "waitq W (x # ts) ws (woken x s1)"
proof -
  note deq = waitq_dequeue [OF w, folded s1_def]
  have x: "blocked_status (status (tasks s1 x))" "resumable (tasks s1 x) x" "x \<noteq> running_thread s1"
    "general_tag x \<notin> foot (thread_ready_list s1) (map general_tag ts)"
    using w waitq_running_apart [OF w] deq(3)
    by (auto simp: waitq_def s1_def blocked_status_def running_thread_def)
  have inv: "sched_inv s1 ts" using deq(1) by (simp add: waitq_def)
  have xs: "x \<notin> set ws" using deq(2) by (auto simp: foot_def)
  have "dlist (lnk (woken x s1)) W (map general_tag ws)"
    using lq.push_frame [of "lnk s1" "thread_ready_list s1" "map general_tag ts" W "map general_tag ws"]
      deq inv x(4)
    by (simp add: woken_def upd_task_def list_op_eqs waitq_def sched_inv_def inf_commute)
  with thread_unblock_front(2,3) [OF inv x] deq x(3) xs show ?thesis
    by (auto simp: waitq_def woken_def upd_task_def list_op_eqs)
qed

section \<open>Threads that share a lock\<close>

text \<open>
  Where a thread stands with respect to the lock: it does not use it, it has been switched out of
  \<^verbatim>\<open>lock_acquire\<close>, or it has acquired the lock and not released it.
\<close>

datatype lock_pc = Idle | Waiting frames | Holding

inductive lock_step ::
  "u32 \<Rightarrow> 'a sync_machine_scheme \<times> (u32 \<Rightarrow> lock_pc) \<Rightarrow> 'a sync_machine_scheme \<times> (u32 \<Rightarrow> lock_pc) \<Rightarrow> bool"
  for L :: u32 where
  acquire: "lock_acquire L s = Ret s' () \<Longrightarrow> pc (running_thread s) \<in> {Idle, Holding} \<Longrightarrow>
    lock_repeat s L + 1 \<noteq> 0 \<Longrightarrow> lock_step L (s, pc) (s', pc(running_thread s := Holding))"
| acquire_blocks: "lock_acquire L s = Switched s' k \<Longrightarrow> pc (running_thread s) \<in> {Idle, Holding} \<Longrightarrow>
    lock_step L (s, pc) (s', pc(running_thread s := Waiting k))"
| resume: "lock_acquire_resume L k s = Ret s' () \<Longrightarrow> pc (running_thread s) = Waiting k \<Longrightarrow>
    lock_step L (s, pc) (s', pc(running_thread s := Holding))"
| resume_blocks: "lock_acquire_resume L k s = Switched s' k' \<Longrightarrow> pc (running_thread s) = Waiting k \<Longrightarrow>
    lock_step L (s, pc) (s', pc(running_thread s := Waiting k'))"
| release: "lock_release L s = Inr s' \<Longrightarrow> pc (running_thread s) = Holding \<Longrightarrow>
    lock_step L (s, pc) (s', pc(running_thread s := if lock_repeat s' L = 0 then Idle else Holding))"
| tick: "schedule (s\<lparr>eflags := e\<rparr>) = Inr s' \<Longrightarrow> lock_step L (s, pc) (s', pc)"
| flags: "lock_step L (s, pc) (s\<lparr>eflags := e\<rparr>, pc)"

text \<open>
  The invariant: the lock is free and no thread holds it, and then a waiting thread that is still
  queued implies one that has been woken; or exactly one thread holds it, the one it names.
\<close>

definition lock_free :: "u32 \<Rightarrow> 'a sync_machine_scheme \<Rightarrow> bool" where
  "lock_free L s \<longleftrightarrow>
     sema_value s (lock_semaphore L) = 1 \<and> lock_holder s L = 0 \<and> lock_repeat s L = 0"

definition lock_held :: "u32 \<Rightarrow> u32 \<Rightarrow> 'a sync_machine_scheme \<Rightarrow> bool" where
  "lock_held L h s \<longleftrightarrow>
     sema_value s (lock_semaphore L) = 0 \<and> lock_holder s L = h \<and> lock_repeat s L \<noteq> 0"

abbreviation lock_waiters :: "u32 \<Rightarrow> u32" where
  "lock_waiters L \<equiv> sema_waiters (lock_semaphore L)"

definition is_waiting :: "lock_pc \<Rightarrow> bool" where
  "is_waiting p \<longleftrightarrow> (\<exists>k. p = Waiting k)"

definition lock_conf :: "u32 \<Rightarrow> u32 list \<Rightarrow> u32 list \<Rightarrow> 'a sync_machine_scheme \<Rightarrow> (u32 \<Rightarrow> lock_pc) \<Rightarrow> bool" where
  "lock_conf L ts ws s pc \<longleftrightarrow>
     waitq (lock_waiters L) ts ws s \<and> running_thread s \<noteq> 0 \<and> (\<forall>w \<in> set ws. is_waiting (pc w)) \<and>
     (lock_free L s \<and> (\<forall>t. pc t \<noteq> Holding) \<and>
        (ws \<noteq> [] \<longrightarrow> (\<exists>t \<in> set (running_thread s # ts). is_waiting (pc t))) \<or>
      (\<exists>h. lock_held L h s \<and> (\<forall>t. pc t = Holding \<longleftrightarrow> t = h)))"

definition lock_inv :: "u32 \<Rightarrow> 'a sync_machine_scheme \<times> (u32 \<Rightarrow> lock_pc) \<Rightarrow> bool" where
  "lock_inv L c \<longleftrightarrow> (\<exists>ts ws. lock_conf L ts ws (fst c) (snd c))"

lemma sema_down_loop_takes:
  "sema_value s p = 1 \<Longrightarrow>
   sema_down_loop p st s = Ret (snd (intr_set_status st (set_value p 0 s))) ()"
  by (simp add: sema_down_loop_def set_value_def Let_def)

lemma intr_set_status_flags: "\<exists>e. snd (intr_set_status st s) = s\<lparr>eflags := e\<rparr>"
proof -
  have "\<exists>e. s = s\<lparr>eflags := e\<rparr>" by (rule exI [of _ "eflags s"]) simp
  then show ?thesis
    by (auto simp: intr_set_status_def intr_enable_def intr_disable_def sti_def cli_def split: if_splits)
qed

lemma lock_taken_eq:
  "lock_repeat s L = 0 \<Longrightarrow>
   lock_taken L s = Ret (set_repeat L 1 (set_holder L (running_thread s) s)) ()"
  by (simp add: lock_taken_def set_holder_def Let_def)

text \<open>Taking a free lock, and finding it taken; \<open>s\<close> is the state at the test of the loop.\<close>

lemma acquire_loop_free:
  assumes "lock_free L s"
  shows "\<exists>e. obind (sema_down_loop (lock_semaphore L) st s) (\<lambda>_. lock_taken L) =
    Ret (set_repeat L 1 (set_holder L (running_thread s)
      ((set_value (lock_semaphore L) 0 s)\<lparr>eflags := e\<rparr>))) ()"
proof -
  let ?s = "set_value (lock_semaphore L) 0 s"
  obtain e where e: "snd (intr_set_status st ?s) = ?s\<lparr>eflags := e\<rparr>" using intr_set_status_flags by blast
  have "lock_repeat (?s\<lparr>eflags := e\<rparr>) L = 0" using assms by (simp add: lock_free_def set_value_def)
  then have "lock_taken L (?s\<lparr>eflags := e\<rparr>) =
      Ret (set_repeat L 1 (set_holder L (running_thread s) (?s\<lparr>eflags := e\<rparr>))) ()"
    by (simp add: lock_taken_eq running_thread_def set_value_def)
  then show ?thesis
    using assms by (intro exI [of _ e]) (simp add: lock_free_def sema_down_loop_takes e)
qed

lemma acquire_loop_held:
  assumes "sema_value s (lock_semaphore L) = 0"
    and "obind (sema_down_loop (lock_semaphore L) st s) (\<lambda>_. lock_taken L) = Switched s' k"
  shows "\<exists>st'. sema_wait (lock_semaphore L) s = Inr (st', s')"
  using assms by (auto simp: sema_down_loop_def split: sum.splits)

lemma acquire_loop_held_no_return:
  "sema_value s (lock_semaphore L) = 0 \<Longrightarrow>
   obind (sema_down_loop (lock_semaphore L) st s) (\<lambda>_. lock_taken L) \<noteq> Ret s' ()"
  by (auto simp: sema_down_loop_def split: sum.splits)

subsection \<open>Every step keeps the invariant\<close>

lemma sync_fields_of_more:
  assumes "thread_machine.more s' = thread_machine.more (s :: 'a sync_machine_scheme)"
  shows "sema_value s' = sema_value s" "lock_holder s' = lock_holder s" "lock_repeat s' = lock_repeat s"
  using assms by (cases s; cases s'; simp)+

lemma lock_conf_flags [simp]: "lock_conf L ts ws (s\<lparr>eflags := e\<rparr>) pc \<longleftrightarrow> lock_conf L ts ws s pc"
  using waitq_cong [of "s\<lparr>eflags := e\<rparr>" s]
  by (simp add: lock_conf_def lock_free_def lock_held_def running_thread_def)

lemma lock_conf_cases:
  assumes "lock_conf L ts ws s pc"
  obtains (free) "lock_free L s" "\<forall>t. pc t \<noteq> Holding"
  | (held) h where "lock_held L h s" "\<forall>t. pc t = Holding \<longleftrightarrow> t = h"
  using assms by (auto simp: lock_conf_def)

lemma conf_take:
  assumes "lock_conf L ts ws s pc" "lock_free L s"
  shows "lock_conf L ts ws (set_repeat L 1 (set_holder L (running_thread s)
      ((set_value (lock_semaphore L) 0 s)\<lparr>eflags := e\<rparr>))) (pc(running_thread s := Holding))"
    (is "lock_conf L ts ws ?s' ?pc'")
proof -
  have w: "waitq (lock_waiters L) ts ws s" using assms(1) by (simp add: lock_conf_def)
  have pc: "\<forall>t. pc t \<noteq> Holding" using assms by (auto simp: lock_conf_def lock_free_def lock_held_def)
  have "waitq (lock_waiters L) ts ws ?s'"
    using w waitq_cong [of ?s' s] by (simp add: set_repeat_def set_holder_def set_value_def)
  moreover have "running_thread ?s' = running_thread s"
    by (simp add: running_thread_def set_repeat_def set_holder_def set_value_def)
  moreover have "lock_held L (running_thread s) ?s'"
    by (simp add: lock_held_def set_repeat_def set_holder_def set_value_def)
  moreover have "\<forall>t. ?pc' t = Holding \<longleftrightarrow> t = running_thread s" using pc by simp
  ultimately show ?thesis
    using assms(1) waitq_running_apart [OF w] unfolding lock_conf_def by auto
qed

lemma conf_wait:
  assumes c: "lock_conf L ts ws s pc" "pc (running_thread s) \<noteq> Holding"
    and v: "sema_value s (lock_semaphore L) = 0" and s': "sema_wait (lock_semaphore L) s = Inr (st, s')"
  shows "lock_conf L (tl ts) (ws @ [running_thread s]) s' (pc(running_thread s := Waiting k))"
proof -
  have w: "waitq (lock_waiters L) ts ws s" using c(1) by (simp add: lock_conf_def)
  note post = waitq_wait [OF w s']
  note sync = sync_fields_of_more [of s' s]
  obtain h where "lock_held L h s" "\<forall>t. pc t = Holding \<longleftrightarrow> t = h"
    using c(1) v by (auto simp: lock_conf_def lock_free_def)
  with c post sync have "lock_held L h s' \<and> (\<forall>t. (pc(running_thread s := Waiting k)) t = Holding \<longleftrightarrow> t = h)"
    by (auto simp: lock_held_def)
  with c(1) post show ?thesis by (auto simp: lock_conf_def is_waiting_def)
qed

lemma conf_tick:
  assumes c: "lock_conf L ts ws s pc" and s': "schedule s = Inr s'"
  shows "lock_conf L (tl (ts @ [running_thread s])) ws s' pc"
proof -
  have w: "waitq (lock_waiters L) ts ws s" using c by (simp add: lock_conf_def)
  note post = waitq_schedule [OF w s']
  then have sync: "lock_free L s' = lock_free L s" "lock_held L h s' = lock_held L h s" for h
    using sync_fields_of_more [of s' s] by (simp_all add: lock_free_def lock_held_def)
  have "set (running_thread s' # tl (ts @ [running_thread s])) = set (running_thread s # ts)"
    using post by (cases ts) auto
  with c post show ?thesis unfolding lock_conf_def sync by metis
qed

lemma acquire_loop_conf:
  fixes s :: "'a sync_machine_scheme" and st :: intr_status
  assumes c: "lock_conf L ts ws s pc" "pc (running_thread s) \<noteq> Holding"
  defines "r \<equiv> obind (sema_down_loop (lock_semaphore L) st s) (\<lambda>_. lock_taken L)"
  shows "r = Ret s' () \<Longrightarrow> lock_inv L (s', pc(running_thread s := Holding))"
    and "r = Switched s' k \<Longrightarrow> lock_inv L (s', pc(running_thread s := Waiting k))"
proof -
  have free: "\<exists>e. r = Ret (set_repeat L 1 (set_holder L (running_thread s)
      ((set_value (lock_semaphore L) 0 s)\<lparr>eflags := e\<rparr>))) ()" if "lock_free L s"
    using acquire_loop_free [OF that] by (simp add: r_def)
  have held: "sema_value s (lock_semaphore L) = 0" if "\<not> lock_free L s"
    using c(1) that by (auto simp: lock_conf_def lock_held_def)
  show "lock_inv L (s', pc(running_thread s := Holding))" if "r = Ret s' ()"
  proof (cases "lock_free L s")
    case True
    with free that conf_take [OF c(1)] show ?thesis by (auto simp: lock_inv_def)
  next
    case False
    with held that acquire_loop_held_no_return [of s L st s'] show ?thesis by (simp add: r_def)
  qed
  show "lock_inv L (s', pc(running_thread s := Waiting k))" if sw: "r = Switched s' k"
  proof (cases "lock_free L s")
    case True
    with free sw show ?thesis by auto
  next
    case False
    then obtain st' where "sema_wait (lock_semaphore L) s = Inr (st', s')"
      using acquire_loop_held [OF held [OF False], of st s' k] sw by (auto simp: r_def)
    from conf_wait [OF c held [OF False] this, of k] show ?thesis by (auto simp: lock_inv_def)
  qed
qed

lemma lock_acquire_loop:
  assumes "lock_conf L ts ws s pc" "pc (running_thread s) \<noteq> Holding"
  shows "\<exists>e. lock_acquire L s =
    obind (sema_down_loop (lock_semaphore L) (intr_get_status s) (s\<lparr>eflags := e\<rparr>)) (\<lambda>_. lock_taken L)"
proof -
  have "lock_holder s L \<noteq> running_thread s"
    using assms(1)
  proof (cases rule: lock_conf_cases)
    case free
    then show ?thesis using assms(1) by (auto simp: lock_conf_def lock_free_def)
  next
    case (held h)
    then show ?thesis using assms(2) by (auto simp: lock_held_def)
  qed
  then show ?thesis
    unfolding lock_acquire_def sema_down_def bracket_case by auto
qed

lemma lock_acquire_nested:
  assumes "lock_conf L ts ws s pc" "pc (running_thread s) = Holding"
  shows "lock_acquire L s = Ret (set_repeat L (lock_repeat s L + 1) s) ()"
  using assms by (auto simp: lock_conf_def lock_held_def lock_acquire_def)

lemma lock_resume_loop:
  "\<exists>e. lock_acquire_resume L k s =
    obind (sema_down_loop (lock_semaphore L) (fst k) (s\<lparr>eflags := e\<rparr>)) (\<lambda>_. lock_taken L)"
  using intr_set_status_flags [of "snd k" s]
  by (auto simp: lock_acquire_resume_def sema_down_resume_def thread_block_resume_def)

text \<open>The last release gives the lock up and wakes the first waiting thread.\<close>

lemma conf_give_up:
  assumes c: "lock_conf L ts ws s pc" "lock_held L (running_thread s) s"
    and idle: "\<forall>t. (pc(running_thread s := Idle)) t \<noteq> Holding"
    and up: "sema_up (lock_semaphore L) (set_repeat L 0 (set_holder L 0 s)) = Inr s'"
  shows "lock_free L s' \<and> lock_inv L (s', pc(running_thread s := Idle))"
proof -
  let ?c = "running_thread s" and ?p = "lock_semaphore L" and ?s = "set_repeat L 0 (set_holder L 0 s)"
  have w: "waitq (lock_waiters L) ts ws s" using c(1) by (simp add: lock_conf_def)
  then have wq: "waitq (lock_waiters L) ts ws ?s"
    using waitq_cong [of ?s s] by (simp add: set_repeat_def set_holder_def)
  have v: "sema_value ?s ?p = 0" using c(2) by (simp add: lock_held_def set_repeat_def set_holder_def)
  show ?thesis
  proof (cases ws)
    case Nil
    then have s': "s' = set_value ?p 1 ?s"
      using sema_up_empty [OF v] up wq by (simp add: waitq_def)
    have "waitq (lock_waiters L) ts [] s'" "running_thread s' = ?c" "lock_free L s'"
      using wq waitq_cong [of s' ?s] Nil
      by (simp_all add: s' set_value_def running_thread_def lock_free_def set_repeat_def set_holder_def)
    then have "lock_conf L ts [] s' (pc(?c := Idle))"
      using idle c(1) by (simp add: lock_conf_def)
    with \<open>lock_free L s'\<close> show ?thesis by (auto simp: lock_inv_def)
  next
    case (Cons x xs)
    let ?s1 = "?s\<lparr>lnk := rem_lnk (general_tag x) (lnk ?s)\<rparr>"
    have s': "s' = set_value ?p 1 (woken x ?s1)"
      using sema_up_wakes [of ?p ts x xs ?s] up wq v Cons by simp
    have "waitq (lock_waiters L) (x # ts) xs (woken x ?s1)"
      using waitq_wake [of "lock_waiters L" ts x xs ?s] wq Cons by simp
    then have "waitq (lock_waiters L) (x # ts) xs s'"
      using waitq_cong [of s' "woken x ?s1"] by (simp add: s' set_value_def)
    moreover have "running_thread s' = ?c" "lock_free L s'"
      by (simp_all add: s' set_value_def woken_def upd_task_def list_op_eqs running_thread_def
          lock_free_def set_repeat_def set_holder_def)
    moreover have "is_waiting (pc t) \<and> t \<noteq> ?c" if "t \<in> set ws" for t
      using c(1) that waitq_running_apart [OF w] by (auto simp: lock_conf_def)
    ultimately have "lock_conf L (x # ts) xs s' (pc(?c := Idle))"
      using idle c(1) Cons by (auto simp: lock_conf_def)
    with \<open>lock_free L s'\<close> show ?thesis by (auto simp: lock_inv_def)
  qed
qed

lemma conf_release:
  assumes c: "lock_conf L ts ws s pc" "pc (running_thread s) = Holding" and r: "lock_release L s = Inr s'"
  shows "lock_inv L (s', pc(running_thread s := if lock_repeat s' L = 0 then Idle else Holding))"
proof -
  let ?c = "running_thread s"
  have held: "lock_held L ?c s" and pc: "\<forall>t. pc t = Holding \<longleftrightarrow> t = ?c"
    using c by (auto simp: lock_conf_def)
  show ?thesis
  proof (cases "lock_repeat s L > 1")
    case True
    then have s': "s' = set_repeat L (lock_repeat s L - 1) s" "lock_repeat s L - 1 \<noteq> 0"
      using r held by (auto simp: lock_release_def lock_held_def)
    then have "waitq (lock_waiters L) ts ws s'" "running_thread s' = ?c" "lock_held L ?c s'"
      using c(1) held waitq_cong [of s' s]
      by (simp_all add: lock_conf_def lock_held_def set_repeat_def running_thread_def)
    moreover have "pc(?c := Holding) = pc" using c(2) by auto
    ultimately have "lock_conf L ts ws s' (pc(?c := Holding))"
      using c(1) pc by (simp only: lock_conf_def) blast
    then show ?thesis using s' by (auto simp: lock_inv_def set_repeat_def)
  next
    case False
    then have "sema_up (lock_semaphore L) (set_repeat L 0 (set_holder L 0 s)) = Inr s'"
      using r held by (auto simp: lock_release_def lock_held_def sbind_Inr_iff Let_def)
    from conf_give_up [OF c(1) held _ this] pc show ?thesis by (simp add: lock_free_def)
  qed
qed

lemma lock_step_inv: "lock_step L c c' \<Longrightarrow> lock_inv L c \<Longrightarrow> lock_inv L c'"
proof (induction rule: lock_step.induct)
  case (acquire s s' pc)
  then obtain ts ws where c: "lock_conf L ts ws s pc" by (auto simp: lock_inv_def)
  show ?case
  proof (cases "pc (running_thread s) = Holding")
    case True
    then have "s' = set_repeat L (lock_repeat s L + 1) s" "pc(running_thread s := Holding) = pc"
      using lock_acquire_nested [OF c] acquire by auto
    moreover from this have "waitq (lock_waiters L) ts ws s'"
      using c waitq_cong [of s' s] by (simp add: lock_conf_def set_repeat_def)
    ultimately show ?thesis
      using c acquire True
      by (fastforce simp: lock_inv_def lock_conf_def lock_held_def set_repeat_def running_thread_def)
  next
    case False
    then obtain e where "lock_acquire L s = obind (sema_down_loop (lock_semaphore L)
        (intr_get_status s) (s\<lparr>eflags := e\<rparr>)) (\<lambda>_. lock_taken L)"
      using lock_acquire_loop [OF c] by blast
    with acquire False acquire_loop_conf(1) [of L ts ws "s\<lparr>eflags := e\<rparr>" pc _ s'] c
    show ?thesis by (simp add: running_thread_def)
  qed
next
  case (acquire_blocks s s' k pc)
  then obtain ts ws where c: "lock_conf L ts ws s pc" by (auto simp: lock_inv_def)
  then have nh: "pc (running_thread s) \<noteq> Holding"
    using lock_acquire_nested [OF c] acquire_blocks by auto
  then obtain e where "lock_acquire L s = obind (sema_down_loop (lock_semaphore L)
      (intr_get_status s) (s\<lparr>eflags := e\<rparr>)) (\<lambda>_. lock_taken L)"
    using lock_acquire_loop [OF c] by blast
  with acquire_blocks nh acquire_loop_conf(2) [of L ts ws "s\<lparr>eflags := e\<rparr>" pc _ s' k] c
  show ?case by (simp add: running_thread_def)
next
  case (resume k s s' pc)
  then obtain ts ws where c: "lock_conf L ts ws s pc" by (auto simp: lock_inv_def)
  obtain e where "lock_acquire_resume L k s =
      obind (sema_down_loop (lock_semaphore L) (fst k) (s\<lparr>eflags := e\<rparr>)) (\<lambda>_. lock_taken L)"
    using lock_resume_loop by blast
  with resume acquire_loop_conf(1) [of L ts ws "s\<lparr>eflags := e\<rparr>" pc _ s'] c
  show ?case by (simp add: running_thread_def)
next
  case (resume_blocks k s s' k' pc)
  then obtain ts ws where c: "lock_conf L ts ws s pc" by (auto simp: lock_inv_def)
  obtain e where "lock_acquire_resume L k s =
      obind (sema_down_loop (lock_semaphore L) (fst k) (s\<lparr>eflags := e\<rparr>)) (\<lambda>_. lock_taken L)"
    using lock_resume_loop by blast
  with resume_blocks acquire_loop_conf(2) [of L ts ws "s\<lparr>eflags := e\<rparr>" pc _ s' k'] c
  show ?case by (simp add: running_thread_def)
next
  case (release s s' pc)
  then obtain ts ws where "lock_conf L ts ws s pc" by (auto simp: lock_inv_def)
  from conf_release [OF this release(2,1)] show ?case .
next
  case (tick e s s' pc)
  then obtain ts ws where "lock_conf L ts ws (s\<lparr>eflags := e\<rparr>) pc" by (auto simp: lock_inv_def)
  from conf_tick [OF this tick(1)] show ?case by (auto simp: lock_inv_def)
next
  case (flags s pc e)
  then show ?case by (simp add: lock_inv_def)
qed

lemma lock_reachable_inv: "(lock_step L)\<^sup>*\<^sup>* c c' \<Longrightarrow> lock_inv L c \<Longrightarrow> lock_inv L c'"
  by (induction rule: rtranclp_induct) (auto intro: lock_step_inv)

text \<open>The start: the lock has just been initialised and no thread uses it.\<close>

definition lock_start :: "u32 \<Rightarrow> 'a sync_machine_scheme \<Rightarrow> bool" where
  "lock_start L s \<longleftrightarrow> lock_free L s \<and> running_thread s \<noteq> 0 \<and> (\<exists>ts. waitq (lock_waiters L) ts [] s)"

lemma lock_start_inv: "lock_start L s \<Longrightarrow> lock_inv L (s, \<lambda>_. Idle)"
  by (fastforce simp: lock_start_def lock_inv_def lock_conf_def)

lemma lock_acquire_free:
  assumes "lock_free L s" "running_thread s \<noteq> 0"
  shows "lock_acquire L s =
    Ret (set_repeat L 1 (set_holder L (running_thread s) (set_value (lock_semaphore L) 0 s))) ()"
proof -
  let ?t = "set_value (lock_semaphore L) 0 s"
  have "sema_down (lock_semaphore L) s = Ret ?t ()"
    unfolding sema_down_def bracket_case
    using assms(1) by (simp add: lock_free_def sema_down_loop_takes set_value_def intr_restore)
  moreover have "lock_repeat ?t L = 0" "running_thread ?t = running_thread s"
    using assms(1) by (simp_all add: lock_free_def set_value_def running_thread_def)
  ultimately show ?thesis
    using assms by (simp add: lock_acquire_def lock_free_def lock_taken_eq)
qed

lemma lock_release_alone:
  assumes "lock_held L (running_thread s) s" "lock_repeat s L = 1" "dlist (lnk s) (lock_waiters L) []"
  shows "lock_release L s = Inr (set_value (lock_semaphore L) 1 (set_repeat L 0 (set_holder L 0 s)))"
proof -
  let ?r = "set_repeat L 0 (set_holder L 0 s)"
  have "sema_up (lock_semaphore L) ?r = Inr (set_value (lock_semaphore L) 1 ?r)"
    using assms by (intro sema_up_empty) (simp_all add: lock_held_def set_repeat_def set_holder_def)
  then show ?thesis using assms by (simp add: lock_release_def lock_held_def Let_def)
qed

text \<open>
  A section of code under a free lock that nobody waits for: when the section leaves the lock and
  the thread alone, acquiring, running it and releasing is running it.
\<close>

lemma locked_section:
  assumes free: "lock_free L s" "running_thread s \<noteq> 0" "dlist (lnk s) (lock_waiters L) []"
    and s1: "s1 = set_repeat L 1 (set_holder L (running_thread s) (set_value (lock_semaphore L) 0 s))"
    and keep: "sema_value s2 = sema_value s1" "lock_holder s2 = lock_holder s1" "lock_repeat s2 = lock_repeat s1"
      "running_thread s2 = running_thread s" "dlist (lnk s2) (lock_waiters L) []"
  shows "lock_acquire L s = Ret s1 ()"
    and "lock_release L s2 =
      Inr (s2\<lparr>sema_value := sema_value s, lock_holder := lock_holder s, lock_repeat := lock_repeat s\<rparr>)"
proof -
  show "lock_acquire L s = Ret s1 ()" using lock_acquire_free [OF free(1,2)] by (simp add: s1)
  have "lock_held L (running_thread s2) s2" "lock_repeat s2 L = 1"
    using keep by (simp_all add: lock_held_def s1 set_repeat_def set_holder_def set_value_def)
  then have "lock_release L s2 = Inr (set_value (lock_semaphore L) 1 (set_repeat L 0 (set_holder L 0 s2)))"
    using keep(5) by (rule lock_release_alone)
  moreover have "(sema_value s2)(lock_semaphore L := 1) = sema_value s" "(lock_holder s2)(L := 0) = lock_holder s"
    "(lock_repeat s2)(L := 0) = lock_repeat s"
    using keep free(1) by (auto simp: s1 lock_free_def set_repeat_def set_holder_def set_value_def)
  ultimately show "lock_release L s2 =
      Inr (s2\<lparr>sema_value := sema_value s, lock_holder := lock_holder s, lock_repeat := lock_repeat s\<rparr>)"
    by (simp add: set_repeat_def set_holder_def set_value_def)
qed

text \<open>
  The interface between a lock and the code it guards: \<open>body\<close> neither reads nor writes the fields of
  locks, keeps the running thread and the list links. Such code, run under a free lock, does what
  it does without the lock.
\<close>

locale guarded_code =
  fixes body :: "'a sync_machine_scheme \<Rightarrow> 'a sync_machine_scheme"
  assumes body_keeps: "sema_value (body s) = sema_value s" "lock_holder (body s) = lock_holder s"
    "lock_repeat (body s) = lock_repeat s" "running_thread (body s) = running_thread s" "lnk (body s) = lnk s"
    and body_commutes: "body (s\<lparr>sema_value := v, lock_holder := h, lock_repeat := r\<rparr>) =
      (body s)\<lparr>sema_value := v, lock_holder := h, lock_repeat := r\<rparr>"
begin

lemma body_under_lock:
  assumes "lock_free L s" "running_thread s \<noteq> 0" "dlist (lnk s) (lock_waiters L) []"
  obtains s1 where "lock_acquire L s = Ret s1 ()" "lock_release L (body s1) = Inr (body s)"
    "sync_machine.more s1 = sync_machine.more s"
proof -
  let ?s1 = "set_repeat L 1 (set_holder L (running_thread s) (set_value (lock_semaphore L) 0 s))"
  have links: "running_thread (body ?s1) = running_thread s" "dlist (lnk (body ?s1)) (lock_waiters L) []"
    using assms(3) by (simp_all add: body_keeps) (simp_all add: set_repeat_def set_holder_def set_value_def running_thread_def)
  note sec = locked_section [OF assms refl body_keeps(1-3) links]
  have "?s1\<lparr>sema_value := sema_value s, lock_holder := lock_holder s, lock_repeat := lock_repeat s\<rparr> = s"
    by (simp add: set_repeat_def set_holder_def set_value_def)
  then have "(body ?s1)\<lparr>sema_value := sema_value s, lock_holder := lock_holder s, lock_repeat := lock_repeat s\<rparr> =
      body s"
    by (simp only: body_commutes [symmetric])
  moreover have "sync_machine.more ?s1 = sync_machine.more s"
    by (simp add: set_repeat_def set_holder_def set_value_def)
  ultimately show thesis using that sec by metis
qed

end

text \<open>Initialising a lock whose list shares nothing with the ready list makes it ready for use.\<close>

lemma dlist_list_init:
  "dlist (lnk s) l xs \<Longrightarrow> foot l xs \<inter> {q, list_tail q} = {} \<Longrightarrow> dlist (lnk (list_init q s)) l xs"
proof -
  assume d: "dlist (lnk s) l xs" and disj: "foot l xs \<inter> {q, list_tail q} = {}"
  have "lnk (list_init q s) a = lnk s a" if "a \<in> foot l xs" for a
  proof -
    have "a \<noteq> q" "a \<noteq> list_tail q" using that disj by auto
    then show ?thesis by (simp add: list_init_def Let_def link_updates)
  qed
  then have "dlist (lnk (list_init q s)) l xs \<longleftrightarrow> dlist (lnk s) l xs" by (rule dlist_cong)
  with d show ?thesis by simp
qed

lemma lock_init_start:
  assumes "sched_inv s ts" "status (tasks s (running_thread s)) = TASK_RUNNING" "running_thread s \<noteq> 0"
    and "{lock_waiters L, list_tail (lock_waiters L)} \<inter>
      insert (general_tag (running_thread s)) (foot (thread_ready_list s) (map general_tag ts)) = {}"
  shows "lock_start L (lock_init L s)"
proof -
  let ?s = "lock_init L s"
  have f: "thread_ready_list ?s = thread_ready_list s" "tasks ?s = tasks s" "running_thread ?s = running_thread s"
    by (simp_all add: lock_init_def sema_init_def list_init_def set_holder_def set_repeat_def
        set_value_def Let_def running_thread_def)
  have "dlist (lnk ?s) (thread_ready_list s) (map general_tag ts)"
    using assms(1,4) unfolding lock_init_def sema_init_def Let_def
    by (intro dlist_list_init) (auto simp: sched_inv_def set_holder_def set_repeat_def set_value_def)
  then have "sched_inv ?s ts" using assms(1) f by (simp add: sched_inv_def)
  moreover have "dlist (lnk ?s) (lock_waiters L) []"
    unfolding lock_init_def sema_init_def Let_def by (rule dlist_init)
  moreover have "lock_free L ?s"
    by (simp add: lock_free_def lock_init_def sema_init_def list_init_def set_holder_def set_repeat_def
        set_value_def Let_def)
  ultimately show ?thesis
    using assms f by (auto simp: lock_start_def waitq_def)
qed

definition demo_sync :: sync_machine where
  "demo_sync = lock_init 0xc0006000 (thread_machine.extend demo_threads
     \<lparr>sema_value = (\<lambda>_. 0), lock_holder = (\<lambda>_. 0), lock_repeat = (\<lambda>_. 0)\<rparr>)"

lemma demo_extend_fields:
  "esp (thread_machine.extend demo_threads r) = 0xc009ef00"
  "thread_ready_list (thread_machine.extend demo_threads r) = 0xc0005000"
  "tasks (thread_machine.extend demo_threads r) = tasks demo_threads"
  "lnk (thread_machine.extend demo_threads r) = lnk demo_threads"
  using demo_threads_fields by (simp_all add: thread_machine.defs)

lemma demo_sync_start: "lock_start 0xc0006000 demo_sync"
  unfolding demo_sync_def
  using demo_threads_inv
  by (intro lock_init_start [where ts = "[0xc0100000, 0xc0101000]"])
     (simp_all add: sched_inv_def running_thread_def demo_extend_fields demo_task_def in_foot_iff
       sema_waiters_def lock_semaphore_def list_tail_def general_tag_def general_tag_offset_def)

lemma demo_sync_step:
  "\<exists>s. lock_acquire 0xc0006000 demo_sync = Ret s () \<and>
    (lock_step 0xc0006000)\<^sup>*\<^sup>* (demo_sync, \<lambda>_. Idle) (s, (\<lambda>_. Idle)(running_thread demo_sync := Holding))"
  using demo_sync_start lock_acquire_free [of "0xc0006000" demo_sync]
  by (auto simp: lock_start_def lock_free_def intro!: r_into_rtranclp lock_step.acquire)

section \<open>What the locks guarantee\<close>







end
