(* ===== verification/Memory.thy ===== *)
theory Memory
  imports Sync
begin

text \<open>
  The page allocator of \<^verbatim>\<open>src/kernel/memory.c\<close>: the two pools of physical frames and the pool of
  kernel addresses, each a bitmap in the byte memory; \<^verbatim>\<open>palloc\<close>, \<^verbatim>\<open>vaddr_get\<close>,
  \<^verbatim>\<open>page_table_add\<close> and the routines built on them, and the division of the memory by
  \<^verbatim>\<open>mem_pool_init\<close>.

  Memory has two views here: bytes by linear address (strings and bitmaps) and 32-bit words by
  physical address behind the page tables (directories and tables). Where the code clears a region
  with \<^verbatim>\<open>memset\<close> both are cleared. The routines that take a lock can block in \<^verbatim>\<open>lock_acquire\<close>
  and nowhere else; the \<open>_resume\<close> definition of such a routine goes on from there.
\<close>

section \<open>State\<close>

datatype pool_flags = PF_KERNEL | PF_USER

text \<open>\<open>pool_lock\<close> is the address of the lock inside the pool.\<close>

record pool =
  pool_bitmap :: bitmap
  phy_addr_start :: u32
  pool_size :: u32
  pool_lock :: u32

record memory_machine = sync_machine +
  kernel_pool :: pool
  user_pool :: pool
  kernel_vaddr :: virtual_addr

definition MEM_BITMAP_BASE :: u32 where "MEM_BITMAP_BASE = 0xc009a000"
definition K_HEAP_START :: u32 where "K_HEAP_START = 0xc0100000"

section \<open>memory.c: frames and addresses\<close>

text \<open>The loops \<^verbatim>\<open>while(cnt < pg_cnt) bitmap_set(..., bit_idx_start + cnt++, 1)\<close>, \<open>n\<close> rounds to go.\<close>

fun set_bits :: "nat \<Rightarrow> bitmap \<Rightarrow> u32 \<Rightarrow> memory \<Rightarrow> kerror + memory" where
  "set_bits 0 btmp i m = Inr m"
| "set_bits (Suc n) btmp i m = sbind (bitmap_set btmp i 1 m) (set_bits n btmp (i + 1))"

definition vaddr_get ::
  "pool_flags \<Rightarrow> u32 \<Rightarrow> 'a memory_machine_scheme \<Rightarrow> kerror + (u32 \<times> 'a memory_machine_scheme)" where
  "vaddr_get pf pg_cnt s =
     (if pf = PF_KERNEL then
        sbind (bitmap_scan (vaddr_bitmap (kernel_vaddr s)) pg_cnt (mem s)) (\<lambda>bit_idx_start.
          if bit_idx_start = -1 then Inr (0, s)
          else
            sbind (set_bits (unat pg_cnt) (vaddr_bitmap (kernel_vaddr s)) bit_idx_start (mem s)) (\<lambda>m.
              Inr (vaddr_start (kernel_vaddr s) + bit_idx_start * PG_SIZE, s\<lparr>mem := m\<rparr>)))
      else
        let cur = running_thread s; va = userprog_vaddr (tasks s cur) in
        sbind (bitmap_scan (vaddr_bitmap va) pg_cnt (mem s)) (\<lambda>bit_idx_start.
          if bit_idx_start = -1 then Inr (0, s)
          else
            sbind (set_bits (unat pg_cnt) (vaddr_bitmap va) bit_idx_start (mem s)) (\<lambda>m.
            let start = vaddr_start va + bit_idx_start * PG_SIZE in
            sbind (ASSERT ''kernel/memory.c'' 62 (start < 0xc0000000 - PG_SIZE)) (\<lambda>_.
              Inr (start, s\<lparr>mem := m\<rparr>)))))"

definition palloc :: "pool \<Rightarrow> 'a memory_machine_scheme \<Rightarrow> kerror + (u32 \<times> 'a memory_machine_scheme)" where
  "palloc m_pool s =
     sbind (bitmap_scan (pool_bitmap m_pool) 1 (mem s)) (\<lambda>bit_idx.
       if bit_idx = -1 then Inr (0, s)
       else
         sbind (bitmap_set (pool_bitmap m_pool) bit_idx 1 (mem s)) (\<lambda>m.
           Inr (bit_idx * PG_SIZE + phy_addr_start m_pool, s\<lparr>mem := m\<rparr>)))"

section \<open>memory.c: mapping\<close>

definition entry_for :: "u32 \<Rightarrow> u32" where
  "entry_for phyaddr = phyaddr OR PG_US_U OR PG_RW_W OR PG_P_1"

definition page_table_add ::
  "u32 \<Rightarrow> u32 \<Rightarrow> 'a memory_machine_scheme \<Rightarrow> kerror + 'a memory_machine_scheme" where
  "page_table_add vaddr page_phyaddr s =
     (let pde = pde_ptr vaddr; pte = pte_ptr vaddr in
      sbind (rd32 pde s) (\<lambda>pde_v.
        if pde_v AND 1 \<noteq> 0 then
          sbind (rd32 pte s) (\<lambda>pte_v.
          sbind (ASSERT ''kernel/memory.c'' 101 (pte_v AND 1 = 0)) (\<lambda>_.
          sbind (rd32 pte s) (\<lambda>pte_v.
            if pte_v AND 1 = 0 then wr32 pte (entry_for page_phyaddr) s
            else Inl (Panic ''kernel/memory.c'' 105))))
        else
          sbind (palloc (kernel_pool s) s) (\<lambda>(pde_phyaddr, s).
          sbind (wr32 pde (entry_for pde_phyaddr) s) (\<lambda>s.
          sbind (clear_words 1024 (pte AND 0xfffff000) s) (\<lambda>s.
          sbind (rd32 pte s) (\<lambda>pte_v.
          sbind (ASSERT ''kernel/memory.c'' 114 (pte_v AND 1 = 0)) (\<lambda>_.
            wr32 pte (entry_for page_phyaddr) s)))))))"

text \<open>The loop of \<^verbatim>\<open>malloc_page\<close>; \<open>False\<close> when a frame could not be had.\<close>

fun map_pages ::
  "nat \<Rightarrow> pool \<Rightarrow> u32 \<Rightarrow> 'a memory_machine_scheme \<Rightarrow> kerror + (bool \<times> 'a memory_machine_scheme)" where
  "map_pages 0 mem_pool vaddr s = Inr (True, s)"
| "map_pages (Suc cnt) mem_pool vaddr s =
     sbind (palloc mem_pool s) (\<lambda>(page_phyaddr, s).
       if page_phyaddr = 0 then Inr (False, s)
       else sbind (page_table_add vaddr page_phyaddr s) (map_pages cnt mem_pool (vaddr + PG_SIZE)))"

definition malloc_page ::
  "pool_flags \<Rightarrow> u32 \<Rightarrow> 'a memory_machine_scheme \<Rightarrow> kerror + (u32 \<times> 'a memory_machine_scheme)" where
  "malloc_page pf pg_cnt s =
     sbind (ASSERT ''kernel/memory.c'' 129 (pg_cnt > 0 \<and> pg_cnt < 3840)) (\<lambda>_.
     sbind (vaddr_get pf pg_cnt s) (\<lambda>(vaddr_start, s).
       if vaddr_start = 0 then Inr (0, s)
       else
         let mem_pool = (if pf = PF_KERNEL then kernel_pool s else user_pool s) in
         sbind (map_pages (unat pg_cnt) mem_pool vaddr_start s) (\<lambda>(ok, s).
           Inr (if ok then vaddr_start else 0, s))))"

text \<open>\<^verbatim>\<open>memset(vaddr, 0, n)\<close> of whole pages, on both views of the memory.\<close>

definition clear_pages ::
  "u32 \<Rightarrow> u32 \<Rightarrow> 'a memory_machine_scheme \<Rightarrow> kerror + 'a memory_machine_scheme" where
  "clear_pages vaddr n s =
     sbind (memset (mem s) vaddr 0 n) (\<lambda>m. clear_words (unat n div 4) vaddr (s\<lparr>mem := m\<rparr>))"

definition get_kernel_pages ::
  "u32 \<Rightarrow> 'a memory_machine_scheme \<Rightarrow> kerror + (u32 \<times> 'a memory_machine_scheme)" where
  "get_kernel_pages pg_cnt s =
     sbind (malloc_page PF_KERNEL pg_cnt s) (\<lambda>(vaddr, s).
       if vaddr \<noteq> 0 then sbind (clear_pages vaddr (pg_cnt * PG_SIZE) s) (\<lambda>s. Inr (vaddr, s))
       else Inr (vaddr, s))"

text \<open>A result with its state as the end of a routine that could have blocked earlier.\<close>

definition finish_with :: "kerror + ('b \<times> 's) \<Rightarrow> ('s, 'k, 'b) outcome" where
  "finish_with r = (case r of Inl e \<Rightarrow> Fail e | Inr (x, s) \<Rightarrow> Ret s x)"

definition user_pages_locked ::
  "u32 \<Rightarrow> 'a memory_machine_scheme \<Rightarrow> ('a memory_machine_scheme, frames, u32) outcome" where
  "user_pages_locked pg_cnt s =
     finish_with (sbind (malloc_page PF_USER pg_cnt s) (\<lambda>(vaddr, s).
       sbind (if vaddr \<noteq> 0 then clear_pages vaddr (pg_cnt * PG_SIZE) s else Inr s) (\<lambda>s.
       sbind (lock_release (pool_lock (user_pool s)) s) (\<lambda>s. Inr (vaddr, s)))))"

definition get_user_pages ::
  "u32 \<Rightarrow> 'a memory_machine_scheme \<Rightarrow> ('a memory_machine_scheme, frames, u32) outcome" where
  "get_user_pages pg_cnt s =
     obind (lock_acquire (pool_lock (user_pool s)) s) (\<lambda>_. user_pages_locked pg_cnt)"

definition get_user_pages_resume ::
  "u32 \<Rightarrow> frames \<Rightarrow> 'a memory_machine_scheme \<Rightarrow> ('a memory_machine_scheme, frames, u32) outcome" where
  "get_user_pages_resume pg_cnt k s =
     obind (lock_acquire_resume (pool_lock (user_pool s)) k s) (\<lambda>_. user_pages_locked pg_cnt)"

definition pool_for :: "pool_flags \<Rightarrow> 'a memory_machine_scheme \<Rightarrow> pool" where
  "pool_for pf s = (if pf = PF_KERNEL then kernel_pool s else user_pool s)"

text \<open>\<^verbatim>\<open>get_a_page\<close> with the lock held; when no frame is left it returns without releasing the lock.\<close>

definition a_page_locked ::
  "pool_flags \<Rightarrow> u32 \<Rightarrow> 'a memory_machine_scheme \<Rightarrow> ('a memory_machine_scheme, frames, u32) outcome" where
  "a_page_locked pf vaddr s =
     (let mem_pool = pool_for pf s; cur = running_thread s in
      finish_with
       (sbind
         (if pgdir (tasks s cur) \<noteq> 0 \<and> pf = PF_USER then
            let va = userprog_vaddr (tasks s cur);
                bit_idx = (vaddr - vaddr_start va) div PG_SIZE in
            sbind (ASSERT ''kernel/memory.c'' 176 (0 < sint bit_idx)) (\<lambda>_.
            sbind (bitmap_set (vaddr_bitmap va) bit_idx 1 (mem s)) (\<lambda>m. Inr (s\<lparr>mem := m\<rparr>)))
          else if pgdir (tasks s cur) = 0 \<and> pf = PF_KERNEL then
            let bit_idx = (vaddr - vaddr_start (kernel_vaddr s)) div PG_SIZE in
            sbind (ASSERT ''kernel/memory.c'' 181 (0 < sint bit_idx)) (\<lambda>_.
            sbind (bitmap_set (vaddr_bitmap (kernel_vaddr s)) bit_idx 1 (mem s)) (\<lambda>m. Inr (s\<lparr>mem := m\<rparr>)))
          else Inl (Panic ''kernel/memory.c'' 184))
         (\<lambda>s. sbind (palloc mem_pool s) (\<lambda>(page_phyaddr, s).
            if page_phyaddr = 0 then Inr (0, s)
            else
              sbind (page_table_add vaddr page_phyaddr s) (\<lambda>s.
              sbind (lock_release (pool_lock mem_pool) s) (\<lambda>s. Inr (vaddr, s)))))))"

definition get_a_page ::
  "pool_flags \<Rightarrow> u32 \<Rightarrow> 'a memory_machine_scheme \<Rightarrow> ('a memory_machine_scheme, frames, u32) outcome" where
  "get_a_page pf vaddr s =
     obind (lock_acquire (pool_lock (pool_for pf s)) s) (\<lambda>_. a_page_locked pf vaddr)"

definition get_a_page_resume ::
  "pool_flags \<Rightarrow> u32 \<Rightarrow> frames \<Rightarrow> 'a memory_machine_scheme
     \<Rightarrow> ('a memory_machine_scheme, frames, u32) outcome" where
  "get_a_page_resume pf vaddr k s =
     obind (lock_acquire_resume (pool_lock (pool_for pf s)) k s) (\<lambda>_. a_page_locked pf vaddr)"

section \<open>memory.c: initialisation\<close>

text \<open>The numbers \<^verbatim>\<open>mem_pool_init\<close> computes, at the widths of its variables.\<close>

definition used_mem :: u32 where
  "used_mem = PG_SIZE * 256 + 0x100000"

definition all_free_pages :: "u32 \<Rightarrow> u16" where
  "all_free_pages all_mem = ucast ((all_mem - used_mem) div PG_SIZE)"

definition kernel_free_pages :: "u32 \<Rightarrow> u16" where
  "kernel_free_pages all_mem = all_free_pages all_mem div 2"

definition user_free_pages :: "u32 \<Rightarrow> u16" where
  "user_free_pages all_mem = all_free_pages all_mem - kernel_free_pages all_mem"

definition kbm_length :: "u32 \<Rightarrow> u32" where
  "kbm_length all_mem = ucast (kernel_free_pages all_mem div 8)"

definition ubm_length :: "u32 \<Rightarrow> u32" where
  "ubm_length all_mem = ucast (user_free_pages all_mem div 8)"

text \<open>The three pools as they are filled in; the locks keep their addresses.\<close>

definition set_pools :: "u32 \<Rightarrow> 'a memory_machine_scheme \<Rightarrow> 'a memory_machine_scheme" where
  "set_pools all_mem s =
     (let kp_start = used_mem;
          up_start = kp_start + ucast (kernel_free_pages all_mem) * PG_SIZE
      in s\<lparr>kernel_pool := (kernel_pool s)
               \<lparr>phy_addr_start := kp_start,
                pool_size := ucast (kernel_free_pages all_mem) * PG_SIZE,
                pool_bitmap := \<lparr>btmp_bytes_len = kbm_length all_mem, bits = MEM_BITMAP_BASE\<rparr>\<rparr>,
           user_pool := (user_pool s)
               \<lparr>phy_addr_start := up_start,
                pool_size := ucast (user_free_pages all_mem) * PG_SIZE,
                pool_bitmap := \<lparr>btmp_bytes_len = ubm_length all_mem,
                                bits = MEM_BITMAP_BASE + kbm_length all_mem\<rparr>\<rparr>\<rparr>)"

definition print_pools :: "'a memory_machine_scheme \<Rightarrow> 'a memory_machine_scheme" where
  "print_pools s =
     (let s = put_str (lit ''   kernel_pool_bitmap_start:'') s;
          s = put_int (bits (pool_bitmap (kernel_pool s))) s;
          s = put_str (lit ''   kernel_pool_phy_addr_start:'') s;
          s = put_int (phy_addr_start (kernel_pool s)) s;
          s = put_str [10] s;
          s = put_str (lit ''   user_pool_bitmap_start:'') s;
          s = put_int (bits (pool_bitmap (user_pool s))) s;
          s = put_str (lit ''     user_pool_phy_addr_start:'') s;
          s = put_int (phy_addr_start (user_pool s)) s
      in put_str [10] s)"

definition init_bitmap :: "bitmap \<Rightarrow> 'a memory_machine_scheme \<Rightarrow> kerror + 'a memory_machine_scheme" where
  "init_bitmap btmp s = sbind (bitmap_init btmp (mem s)) (\<lambda>m. Inr (s\<lparr>mem := m\<rparr>))"

definition mem_pool_init :: "u32 \<Rightarrow> 'a memory_machine_scheme \<Rightarrow> kerror + 'a memory_machine_scheme" where
  "mem_pool_init all_mem s =
     (let s = put_str (lit '' mem_pool_init start'' @ [10]) s;
          s = set_pools all_mem s;
          s = print_pools s in
      sbind (init_bitmap (pool_bitmap (kernel_pool s)) s) (\<lambda>s.
      sbind (init_bitmap (pool_bitmap (user_pool s)) s) (\<lambda>s.
      let s = s\<lparr>kernel_vaddr :=
            \<lparr>vaddr_bitmap = \<lparr>btmp_bytes_len = kbm_length all_mem,
                             bits = MEM_BITMAP_BASE + kbm_length all_mem + ubm_length all_mem\<rparr>,
             vaddr_start = K_HEAP_START\<rparr>\<rparr> in
      sbind (init_bitmap (vaddr_bitmap (kernel_vaddr s)) s) (\<lambda>s.
      let s = lock_init (pool_lock (kernel_pool s)) s;
          s = lock_init (pool_lock (user_pool s)) s
      in Inr (put_str (lit '' mem_pool_init done'' @ [10]) s)))))"

text \<open>A little-endian 32-bit load from the byte memory.\<close>

definition load32 :: "memory \<Rightarrow> u32 \<Rightarrow> u32" where
  "load32 m p = ucast (m p) OR push_bit 8 (ucast (m (p + 1))) OR push_bit 16 (ucast (m (p + 2))) OR
     push_bit 24 (ucast (m (p + 3)))"

definition mem_init :: "'a memory_machine_scheme \<Rightarrow> kerror + 'a memory_machine_scheme" where
  "mem_init s =
     (let s = put_str (lit ''mem_init start'' @ [10]) s;
          mem_bytes_total = load32 (mem s) 0xb00
      in sbind (mem_pool_init mem_bytes_total s) (\<lambda>s. Inr (put_str (lit ''mem_init done'' @ [10]) s)))"

section \<open>Frames\<close>

text \<open>A pool's bitmap is small enough for its bit numbers to be page numbers.\<close>

definition pool_ok :: "pool \<Rightarrow> bool" where
  "pool_ok p \<longleftrightarrow> bm_small (pool_bitmap p)"

definition frame_of :: "pool \<Rightarrow> nat \<Rightarrow> u32" where
  "frame_of p i = of_nat i * PG_SIZE + phy_addr_start p"

lemma of_nat_neq_minus_one: "i < 2 ^ 32 - 1 \<Longrightarrow> (of_nat i :: u32) \<noteq> -1"
proof
  assume i: "i < 2 ^ 32 - 1" and "(of_nat i :: u32) = -1"
  moreover have "(- 1 :: u32) = 0xffffffff" by simp
  ultimately have "unat (of_nat i :: u32) = unat (0xffffffff :: u32)" by metis
  with i show False by simp
qed

lemma palloc_cases:
  assumes "pool_ok p"
  obtains (full) "\<forall>i < bm_cap (pool_bitmap p). \<not> bm_free (pool_bitmap p) (mem s) i"
      "palloc p s = Inl (Panic ''lib/bitmap.c'' 27)"
  | (frame) i where "i < bm_cap (pool_bitmap p)" "bm_free (pool_bitmap p) (mem s) i"
      "\<forall>j < i. \<not> bm_free (pool_bitmap p) (mem s) j"
      "palloc p s = Inr (frame_of p i, s\<lparr>mem := bm_claim (pool_bitmap p) i (mem s)\<rparr>)"
proof -
  let ?b = "pool_bitmap p"
  consider (none) "\<forall>i < bm_cap ?b. \<not> bm_free ?b (mem s) i"
    | (some) "\<exists>i < bm_cap ?b. bm_free ?b (mem s) i" by blast
  then show thesis
  proof cases
    case none
    then have "bitmap_scan ?b 1 (mem s) = Inl (Panic ''lib/bitmap.c'' 27)" by (simp add: bitmap_scan_full)
    with none full show thesis by (simp add: palloc_def)
  next
    case some
    then obtain i where i: "bitmap_scan ?b 1 (mem s) = Inr (of_nat i)" "i < bm_cap ?b"
      "bm_free ?b (mem s) i" "\<forall>j < i. \<not> bm_free ?b (mem s) j"
      using bitmap_scan_one [of ?b "mem s"] assms by (auto simp: pool_ok_def)
    have "i < 2 ^ 31" using i(2) bm_small_cap [of ?b] assms by (simp add: pool_ok_def)
    then have "palloc p s = Inr (frame_of p i, s\<lparr>mem := bm_claim ?b i (mem s)\<rparr>)"
      using i(1) by (simp add: palloc_def of_nat_neq_minus_one bitmap_set_1 frame_of_def)
    with i frame show thesis by blast
  qed
qed

section \<open>Adding a page\<close>

lemma bit_entry_for: "bit (entry_for p) n \<longleftrightarrow> bit p n \<or> n < 3"
proof -
  have "entry_for p = p OR 7"
    by (simp add: entry_for_def PG_US_U_def PG_RW_W_def PG_P_1_def or.assoc)
  then show ?thesis by (auto simp: bit_simps mask_bits)
qed

lemma present_iff: "present e \<longleftrightarrow> bit e 0"
  by (simp add: present_def even_and_iff and_one_eq mod2_eq_if bit_0)

lemma present_entry_for [simp]: "present (entry_for p)"
  by (simp add: present_iff bit_entry_for)

lemma frame_entry_for [simp]: "frame (entry_for p) = frame p"
  by (rule bit_word_eqI) (auto simp: bit_frame bit_entry_for)

lemma not_present_0 [simp]: "\<not> present 0"
  by (simp add: present_def)

abbreviation pde_of :: "'a mmu_machine_scheme \<Rightarrow> u32 \<Rightarrow> u32" where
  "pde_of s v \<equiv> phys s (pde_addr (cr3 s) v)"

abbreviation maps :: "'a mmu_machine_scheme \<Rightarrow> u32 \<Rightarrow> u32 option" where
  "maps s v \<equiv> translate (cr3 s) (phys s) v"

text \<open>
  A well-formed address space: the directory maps itself, and no other present entry points at
  the directory. A frame is fresh when neither the directory nor a table uses it.
\<close>

definition tables_ok :: "'a mmu_machine_scheme \<Rightarrow> bool" where
  "tables_ok s \<longleftrightarrow> self_mapped (cr3 s) (phys s) \<and>
     (\<forall>w. PDE_IDX w \<noteq> 1023 \<longrightarrow> present (pde_of s w) \<longrightarrow> frame (pde_of s w) \<noteq> frame (cr3 s))"

definition fresh :: "'a mmu_machine_scheme \<Rightarrow> u32 \<Rightarrow> bool" where
  "fresh s f \<longleftrightarrow> frame f = f \<and> f \<noteq> frame (cr3 s) \<and> (\<forall>w. present (pde_of s w) \<longrightarrow> frame (pde_of s w) \<noteq> f)"

lemma page_table_add_present:
  assumes "self_mapped (cr3 s) (phys s)" "present (pde_of s v)"
  shows "page_table_add v p s =
    (if present (phys s (pte_addr (cr3 s) (phys s) v)) then Inl (Panic ''kernel/memory.c'' 101)
     else Inr (s\<lparr>phys := (phys s)(pte_addr (cr3 s) (phys s) v := entry_for p)\<rparr>))"
  using assms
  by (simp add: page_table_add_def rd32_pde rd32_pte wr32_pte present_def Let_def)

lemma self_slot_pde: "PDE_IDX w = 1023 \<Longrightarrow> pde_addr dir w = frame dir + 4092"
  by (simp add: pde_addr_def)

lemma pde_addr_eq_iff: "pde_addr dir v = pde_addr dir w \<longleftrightarrow> PDE_IDX v = PDE_IDX w"
  using slot_inj [of "PDE_IDX v" "PDE_IDX w" dir dir] by (simp add: pde_addr_def)

text \<open>The directory and its cleared new table, before the entry of the page is written.\<close>

definition with_table :: "u32 \<Rightarrow> u32 \<Rightarrow> u32 \<Rightarrow> (u32 \<Rightarrow> u32) \<Rightarrow> u32 \<Rightarrow> u32" where
  "with_table dir f v ph = zero_at (slots f 1024) (ph(pde_addr dir v := entry_for f))"

lemma with_table_other:
  "frame f = f \<Longrightarrow> frame a \<noteq> f \<Longrightarrow> a \<noteq> pde_addr dir v \<Longrightarrow> with_table dir f v ph a = ph a"
  using frame_in_slots [of a f 1024] by (auto simp: with_table_def zero_at_def)

lemma with_table_pde:
  assumes "frame f = f" "f \<noteq> frame dir"
  shows "with_table dir f v ph (pde_addr dir w) =
    (if PDE_IDX w = PDE_IDX v then entry_for f else ph (pde_addr dir w))"
proof -
  have "pde_addr dir w \<notin> slots f 1024"
    using frame_in_slots [of "pde_addr dir w" f 1024] assms by auto
  then show ?thesis by (auto simp: with_table_def zero_at_def pde_addr_eq_iff)
qed

lemma with_table_slot: "is_index i \<Longrightarrow> with_table dir f v ph (f + i * 4) = 0"
  by (simp add: with_table_def zero_at_def in_slots)

lemma new_table_cleared:
  assumes sm: "self_mapped (cr3 s) (phys s)" and np: "PDE_IDX v \<noteq> 1023"
    and f: "frame f = f" "f \<noteq> frame (cr3 s)"
  defines "s1 \<equiv> s\<lparr>phys := (phys s)(pde_addr (cr3 s) v := entry_for f)\<rparr>"
  shows "clear_words 1024 (pte_ptr v AND 0xfffff000) s1 =
    Inr (s\<lparr>phys := with_table (cr3 s) f v (phys s)\<rparr>)"
proof -
  have self: "pde_addr (cr3 s) (pte_ptr v) = frame (cr3 s) + 4092" by (simp add: self_slot_pde)
  have "pde_addr (cr3 s) v \<noteq> frame (cr3 s) + 4092"
    using np pde_addr_eq_iff [of "cr3 s" v "pte_ptr v"] by (simp add: self)
  then have pd: "pde_of s1 (pte_ptr v) = phys s (frame (cr3 s) + 4092)" by (simp add: s1_def self)
  then have pt: "pte_addr (cr3 s1) (phys s1) (pte_ptr v) = pde_addr (cr3 s) v"
    using sm by (simp add: pte_addr_def self_mapped_def pde_addr_def s1_def)
  have "clear_words 1024 (frame (pte_ptr v) + of_nat 0 * 4) (s1\<lparr>phys := zero_at (slots f 0) (phys s1)\<rparr>) =
      Inr (s1\<lparr>phys := zero_at (slots f (0 + 1024)) (phys s1)\<rparr>)"
    using sm f pd pt by (intro clear_words_frame) (simp_all add: self_mapped_def s1_def)
  moreover have "zero_at (slots f 0) (phys s1) = phys s1" by (auto simp: zero_at_def slots_def)
  ultimately show ?thesis by (simp add: s1_def with_table_def frame_def)
qed

lemma tables_ok_window: "tables_ok s \<Longrightarrow> \<not> present (pde_of s v) \<Longrightarrow> PDE_IDX v \<noteq> 1023"
  by (auto simp: tables_ok_def self_mapped_def self_slot_pde)

lemma with_table_self_mapped:
  assumes "self_mapped dir ph" "PDE_IDX v \<noteq> 1023" "frame f = f" "f \<noteq> frame dir"
  shows "self_mapped dir (with_table dir f v ph)"
proof -
  have self: "pde_addr dir (pte_ptr v) = frame dir + 4092" by (simp add: self_slot_pde)
  have "with_table dir f v ph (frame dir + 4092) = ph (frame dir + 4092)"
    using with_table_pde [OF assms(3,4), of v ph "pte_ptr v"] assms(2) by (simp add: self)
  with assms(1) show ?thesis by (simp add: self_mapped_def)
qed

lemma page_table_add_missing:
  assumes ok: "tables_ok s" and np: "\<not> present (pde_of s v)"
    and p: "palloc (kernel_pool s) s = Inr (f, s\<lparr>mem := m\<rparr>)" and f: "frame f = f" "f \<noteq> frame (cr3 s)"
  shows "page_table_add v p s = Inr (s\<lparr>mem := m, phys :=
    (with_table (cr3 s) f v (phys s))(f + PTE_IDX v * 4 := entry_for p)\<rparr>)"
proof -
  let ?t = "s\<lparr>mem := m\<rparr>" and ?W = "with_table (cr3 s) f v (phys s)"
  have sm: "self_mapped (cr3 s) (phys s)" using ok by (simp add: tables_ok_def)
  have win: "PDE_IDX v \<noteq> 1023" using ok np by (rule tables_ok_window)
  have clr: "clear_words 1024 (pte_ptr v AND 0xfffff000)
      (?t\<lparr>phys := (phys s)(pde_addr (cr3 s) v := entry_for f)\<rparr>) = Inr (?t\<lparr>phys := ?W\<rparr>)"
    using new_table_cleared [of ?t v f] sm win f by simp
  have sW: "self_mapped (cr3 s) ?W" using sm win f by (rule with_table_self_mapped)
  have pW: "?W (pde_addr (cr3 s) v) = entry_for f" using f by (simp add: with_table_pde)
  then have aW: "pte_addr (cr3 s) ?W v = f + PTE_IDX v * 4" using f by (simp add: pte_addr_def)
  have zW: "?W (f + PTE_IDX v * 4) = 0" by (simp add: with_table_slot)
  have np': "pde_of s v AND 1 = 0" using np by (simp add: present_def)
  show ?thesis
    using sm sW rd32_pte [of "?t\<lparr>phys := ?W\<rparr>" v] wr32_pte [of "?t\<lparr>phys := ?W\<rparr>" v "entry_for p"]
    by (simp add: page_table_add_def rd32_pde [OF sm] np' p wr32_pde clr pW aW zW)
qed

text \<open>
  What the walk sees afterwards. A page other than the one added keeps its translation unless it
  lies in the window onto the page tables or shares the page table with the added one.
\<close>

definition apart :: "'a mmu_machine_scheme \<Rightarrow> u32 \<Rightarrow> u32 \<Rightarrow> bool" where
  "apart s v w \<longleftrightarrow> frame w \<noteq> frame v \<and> PDE_IDX w \<noteq> 1023 \<and>
     (PDE_IDX w \<noteq> PDE_IDX v \<longrightarrow> present (pde_of s w) \<longrightarrow> present (pde_of s v) \<longrightarrow>
       frame (pde_of s w) \<noteq> frame (pde_of s v))"

lemma pte_addr_eq_iff:
  "pte_addr dir ph v = pte_addr dir ph w \<longleftrightarrow>
   frame (ph (pde_addr dir v)) = frame (ph (pde_addr dir w)) \<and> PTE_IDX v = PTE_IDX w"
  by (simp add: pte_addr_def slot_inj)

lemma maps_after_present:
  fixes p :: u32
  assumes ok: "tables_ok s" and v: "PDE_IDX v \<noteq> 1023" "present (pde_of s v)"
  defines "ph' \<equiv> (phys s)(pte_addr (cr3 s) (phys s) v := entry_for p)"
  shows "translate (cr3 s) ph' v = Some (frame p + (v AND 0xfff))"
    and "apart s v w \<Longrightarrow> translate (cr3 s) ph' w = maps s w"
proof -
  have ne: "frame (pde_of s v) \<noteq> frame (cr3 s)" using ok v by (simp add: tables_ok_def)
  note upd = translate_pte_update [of "phys s" "cr3 s" v "entry_for p", OF ne, folded ph'_def]
  show "translate (cr3 s) ph' v = Some (frame p + (v AND 0xfff))" using v by (simp add: upd)
  show "translate (cr3 s) ph' w = maps s w" if "apart s v w"
  proof (cases "PDE_IDX w = PDE_IDX v")
    case True
    with that have "PTE_IDX w \<noteq> PTE_IDX v" using page_eq_iff [of w v] by (auto simp: apart_def)
    then show ?thesis by (simp add: upd pte_addr_eq_iff)
  next
    case False
    show ?thesis
    proof (cases "present (pde_of s w)")
      case True
      with False that v show ?thesis by (auto simp: upd pte_addr_eq_iff apart_def)
    next
      case np: False
      then show ?thesis by (simp add: upd) (simp add: translate_def)
    qed
  qed
qed

lemma maps_after_missing:
  fixes p :: u32
  assumes ok: "tables_ok s" and np: "\<not> present (pde_of s v)" and f: "fresh s f"
  defines "ph' \<equiv> (with_table (cr3 s) f v (phys s))(f + PTE_IDX v * 4 := entry_for p)"
  shows "translate (cr3 s) ph' v = Some (frame p + (v AND 0xfff))"
    and "apart s v w \<Longrightarrow> translate (cr3 s) ph' w = maps s w"
proof -
  let ?W = "with_table (cr3 s) f v (phys s)"
  have ff: "frame f = f" "f \<noteq> frame (cr3 s)" using f by (simp_all add: fresh_def)
  have pW: "?W (pde_addr (cr3 s) x) = (if PDE_IDX x = PDE_IDX v then entry_for f else pde_of s x)" for x
    using ff by (rule with_table_pde)
  have aW: "pte_addr (cr3 s) ?W v = f + PTE_IDX v * 4" using ff by (simp add: pte_addr_def pW)
  have ne: "frame (?W (pde_addr (cr3 s) v)) \<noteq> frame (cr3 s)" using ff by (simp add: pW)
  note upd = translate_pte_update [of ?W "cr3 s" v "entry_for p", OF ne, unfolded aW, folded ph'_def]
  show "translate (cr3 s) ph' v = Some (frame p + (v AND 0xfff))" by (simp add: upd aW pW)
  show "translate (cr3 s) ph' w = maps s w" if "apart s v w"
  proof (cases "PDE_IDX w = PDE_IDX v")
    case True
    then have w: "pde_addr (cr3 s) w = pde_addr (cr3 s) v" by (simp add: pde_addr_def)
    from True that have i: "PTE_IDX w \<noteq> PTE_IDX v" using page_eq_iff [of w v] by (auto simp: apart_def)
    have a: "pte_addr (cr3 s) ?W w = f + PTE_IDX w * 4" using ff by (simp add: pte_addr_def w pW)
    then have "translate (cr3 s) ?W w = None" by (simp add: translate_def with_table_slot)
    moreover have "pte_addr (cr3 s) ?W w \<noteq> f + PTE_IDX v * 4"
      using i slot_inj [of "PTE_IDX w" "PTE_IDX v" f f] ff by (simp add: a)
    ultimately show ?thesis using np w by (simp add: upd) (simp add: translate_def w)
  next
    case False
    then have d: "?W (pde_addr (cr3 s) w) = pde_of s w" by (simp add: pW)
    then have a: "pte_addr (cr3 s) ?W w = pte_addr (cr3 s) (phys s) w" by (simp add: pte_addr_def)
    show ?thesis
    proof (cases "present (pde_of s w)")
      case True
      then have "frame (pte_addr (cr3 s) (phys s) w) \<noteq> f"
        "frame (pte_addr (cr3 s) (phys s) w) \<noteq> frame (cr3 s)"
        using f ok that by (auto simp: fresh_def tables_ok_def apart_def)
      moreover from this have "pte_addr (cr3 s) (phys s) w \<noteq> pde_addr (cr3 s) v"
        "pte_addr (cr3 s) (phys s) w \<noteq> f + PTE_IDX v * 4"
        using ff by (metis frame_pde_addr, metis frame_slot(2))
      ultimately show ?thesis
        using ff by (simp add: upd a) (simp add: translate_def d a with_table_other)
    next
      case False
      then show ?thesis using d by (simp add: upd) (simp add: translate_def)
    qed
  qed
qed

section \<open>Mapping a run of pages\<close>

text \<open>The addresses of \<open>n\<close> pages from \<open>v\<close> on, and what makes the run ready to be mapped.\<close>

definition nth_page :: "u32 \<Rightarrow> nat \<Rightarrow> u32" where
  "nth_page v i = v + of_nat i * PG_SIZE"

abbreviation pte_at :: "'a mmu_machine_scheme \<Rightarrow> u32 \<Rightarrow> u32" where
  "pte_at s v \<equiv> pte_addr (cr3 s) (phys s) v"

definition region_ready :: "'a mmu_machine_scheme \<Rightarrow> u32 \<Rightarrow> nat \<Rightarrow> bool" where
  "region_ready s v n \<longleftrightarrow>
     (\<forall>i < n. PDE_IDX (nth_page v i) \<noteq> 1023 \<and> present (pde_of s (nth_page v i)) \<and>
        \<not> present (phys s (pte_at s (nth_page v i)))) \<and>
     inj_on (\<lambda>i. pte_at s (nth_page v i)) {..<n}"

definition frames_ok :: "pool \<Rightarrow> bool" where
  "frames_ok p \<longleftrightarrow> pool_ok p \<and>
     (\<forall>i < bm_cap (pool_bitmap p). frame_of p i \<noteq> 0 \<and> frame (frame_of p i) = frame_of p i)"

definition free_frames :: "pool \<Rightarrow> memory \<Rightarrow> nat set" where
  "free_frames p m = {i. i < bm_cap (pool_bitmap p) \<and> bm_free (pool_bitmap p) m i}"

lemma nth_page_0 [simp]: "nth_page v 0 = v"
  by (simp add: nth_page_def)

lemma nth_page_Suc: "nth_page (v + PG_SIZE) i = nth_page v (Suc i)"
  by (simp add: nth_page_def algebra_simps)

lemma nth_page_offset: "nth_page u j AND 0xfff = u AND 0xfff"
proof -
  have "nth_page u j mod 4096 = u mod 4096"
    by (simp add: nth_page_def PG_SIZE_def word_unat_eq_iff unat_mod unat_word_ariths mod_simps mod_mod_cancel)
  then show ?thesis by (simp add: word_and_fff)
qed

lemma free_frames_claim:
  assumes "pool_ok p" "i \<in> free_frames p m"
  shows "free_frames p (bm_claim (pool_bitmap p) i m) = free_frames p m - {i}"
    and "card (free_frames p m) = Suc (card (free_frames p (bm_claim (pool_bitmap p) i m)))"
proof -
  let ?b = "pool_bitmap p"
  have cap: "bm_cap ?b < 2 ^ 32" using bm_small_cap [of ?b] assms(1) by (simp add: pool_ok_def)
  then show "free_frames p (bm_claim ?b i m) = free_frames p m - {i}"
    using assms(2) by (auto simp: free_frames_def bm.free_after_claim)
  show "card (free_frames p m) = Suc (card (free_frames p (bm_claim ?b i m)))"
    using bm.count_free_claim [of i "bm_cap ?b" ?b m] cap assms(2) by (simp add: free_frames_def)
qed

lemma palloc_first:
  assumes "pool_ok p" "free_frames p (mem s) \<noteq> {}"
  obtains i where "i \<in> free_frames p (mem s)" "\<forall>j \<in> free_frames p (mem s). i \<le> j"
    "palloc p s = Inr (frame_of p i, s\<lparr>mem := bm_claim (pool_bitmap p) i (mem s)\<rparr>)"
  using assms(1)
proof (cases rule: palloc_cases [of p s])
  case full
  then show ?thesis using assms(2) by (auto simp: free_frames_def)
next
  case (frame i)
  then show ?thesis using that by (auto simp: free_frames_def not_less [symmetric])
qed

text \<open>One round of the loop, where the page table exists.\<close>

lemma add_page_keeps:
  fixes f :: u32
  assumes ok: "tables_ok s" and r: "region_ready s v (Suc n)"
  defines "ph \<equiv> (phys s)(pte_at s v := entry_for f)"
  shows "page_table_add v f s = Inr (s\<lparr>phys := ph\<rparr>)"
    and "tables_ok (s\<lparr>phys := ph\<rparr>)" and "region_ready (s\<lparr>phys := ph\<rparr>) (v + PG_SIZE) n"
    and "pte_addr (cr3 s) ph w = pte_at s w"
proof -
  have v: "PDE_IDX v \<noteq> 1023" "present (pde_of s v)" "\<not> present (phys s (pte_at s v))"
    using r by (auto simp: region_ready_def dest: spec [of _ 0])
  have sm: "self_mapped (cr3 s) (phys s)" using ok by (simp add: tables_ok_def)
  show "page_table_add v f s = Inr (s\<lparr>phys := ph\<rparr>)"
    using page_table_add_present [OF sm v(2)] v(3) by (simp add: ph_def)
  have ne: "frame (pte_at s v) \<noteq> frame (cr3 s)" using ok v by (simp add: tables_ok_def)
  have pd: "ph (pde_addr (cr3 s) x) = pde_of s x" for x unfolding ph_def by (rule pde_kept [OF ne])
  have pt: "pte_addr (cr3 s) ph x = pte_at s x" for x unfolding ph_def by (rule pte_addr_kept [OF ne])
  show "pte_addr (cr3 s) ph w = pte_at s w" by (rule pt)
  show "tables_ok (s\<lparr>phys := ph\<rparr>)"
    using ok self_mapped_kept [OF ne, of "phys s" "entry_for f"] by (simp add: tables_ok_def pd flip: ph_def)
  have inj: "inj_on (\<lambda>i. pte_at s (nth_page v i)) {..<Suc n}" using r by (simp add: region_ready_def)
  have "pte_at s (nth_page v (Suc i)) \<noteq> pte_at s v" if "i < n" for i
    using inj_onD [OF inj, of "Suc i" 0] that by auto
  moreover have "inj_on (\<lambda>i. pte_at s (nth_page v (Suc i))) {..<n}"
    using inj by (auto simp: inj_on_def)
  ultimately show "region_ready (s\<lparr>phys := ph\<rparr>) (v + PG_SIZE) n"
    using r by (simp add: region_ready_def nth_page_Suc pd pt) (simp add: ph_def)
qed

text \<open>
  What mapping a run of pages to the frames with the numbers \<open>fs\<close> amounts to: the pages translate to
  those frames, which are no longer free, and nothing else changes.
\<close>

definition run_mapped ::
  "pool \<Rightarrow> u32 \<Rightarrow> nat list \<Rightarrow> 'a memory_machine_scheme \<Rightarrow> 'a memory_machine_scheme \<Rightarrow> bool" where
  "run_mapped p v fs s s' \<longleftrightarrow>
     distinct fs \<and> set fs \<subseteq> free_frames p (mem s) \<and>
     free_frames p (mem s') = free_frames p (mem s) - set fs \<and>
     mem s' = fold (bm_claim (pool_bitmap p)) fs (mem s) \<and>
     (\<forall>i < length fs. maps s' (nth_page v i) = Some (frame_of p (fs ! i) + (nth_page v i AND 0xfff))) \<and>
     (\<forall>w. (\<forall>i < length fs. pte_at s w \<noteq> pte_at s (nth_page v i)) \<longrightarrow> maps s' w = maps s w) \<and>
     (\<forall>i < length fs. phys s' (pte_at s (nth_page v i)) = entry_for (frame_of p (fs ! i))) \<and>
     (\<forall>a. (\<forall>i < length fs. a \<noteq> pte_at s (nth_page v i)) \<longrightarrow> phys s' a = phys s a) \<and>
     s' = s\<lparr>mem := mem s', phys := phys s'\<rparr>"

lemma run_mapped_Cons:
  assumes p: "frames_ok p" and i: "i \<in> free_frames p (mem s)"
    and ok: "tables_ok s" and r: "region_ready s v (Suc (length fs))"
  defines "s1 \<equiv> s\<lparr>mem := bm_claim (pool_bitmap p) i (mem s), phys := (phys s)(pte_at s v := entry_for (frame_of p i))\<rparr>"
  assumes fs: "run_mapped p (v + PG_SIZE) fs s1 s'"
  shows "run_mapped p v (i # fs) s s'"
proof -
  let ?f = "frame_of p i"
  note keeps = add_page_keeps [OF ok r, where f = ?f]
  have po: "pool_ok p" and fr: "frame ?f = ?f" using p i by (auto simp: frames_ok_def free_frames_def)
  have free: "free_frames p (mem s1) = free_frames p (mem s) - {i}"
    using free_frames_claim(1) [OF po i] by (simp add: s1_def)
  have v: "PDE_IDX v \<noteq> 1023" "present (pde_of s v)" using r by (auto simp: region_ready_def dest: spec [of _ 0])
  have pt: "pte_at s1 w = pte_at s w" for w using keeps(4) by (simp add: s1_def)
  have ne: "frame (pde_of s v) \<noteq> frame (cr3 s)" using ok v by (simp add: tables_ok_def)
  have upd: "maps s1 w = (if pte_at s w = pte_at s v
      then if present (pde_of s w) then Some (?f + (w AND 0xfff)) else None else maps s w)" for w
    using translate_pte_update [of "phys s" "cr3 s" v "entry_for ?f" w, OF ne] fr by (simp add: s1_def)
  have inj: "inj_on (\<lambda>i. pte_at s (nth_page v i)) {..<Suc (length fs)}" using r by (simp add: region_ready_def)
  have other: "maps s' w = maps s1 w" if "\<forall>j < length fs. pte_at s w \<noteq> pte_at s (nth_page v (Suc j))" for w
    using fs that by (simp add: run_mapped_def nth_page_Suc pt)
  have apart: "pte_at s v \<noteq> pte_at s (nth_page v (Suc j))" if "j < length fs" for j
    using inj_onD [OF inj, of "Suc j" 0] that by auto
  then have first: "maps s' v = Some (?f + (v AND 0xfff))" using other [of v] v by (simp add: upd)
  have "\<forall>k < Suc (length fs). maps s' (nth_page v k) = Some (frame_of p ((i # fs) ! k) + (nth_page v k AND 0xfff))"
    using fs first by (auto simp: run_mapped_def nth_page_Suc less_Suc_eq_0_disj)
  moreover have "\<forall>w. (\<forall>k < Suc (length fs). pte_at s w \<noteq> pte_at s (nth_page v k)) \<longrightarrow> maps s' w = maps s w"
    using other by (auto simp: upd All_less_Suc2)
  moreover have words: "phys s' a = phys s1 a" if "\<forall>j < length fs. a \<noteq> pte_at s (nth_page v (Suc j))" for a
    using fs that by (simp add: run_mapped_def nth_page_Suc pt)
  have "phys s' (pte_at s v) = entry_for ?f" using words [of "pte_at s v"] apart by (simp add: s1_def)
  then have "\<forall>k < Suc (length fs). phys s' (pte_at s (nth_page v k)) = entry_for (frame_of p ((i # fs) ! k))"
    using fs by (auto simp: run_mapped_def nth_page_Suc pt less_Suc_eq_0_disj)
  moreover have "\<forall>a. (\<forall>k < Suc (length fs). a \<noteq> pte_at s (nth_page v k)) \<longrightarrow> phys s' a = phys s a"
    using words by (auto simp: All_less_Suc2 s1_def)
  moreover have "s' = s1\<lparr>mem := mem s', phys := phys s'\<rparr>" using fs unfolding run_mapped_def by blast
  then have "s' = s\<lparr>mem := mem s', phys := phys s'\<rparr>" by (simp add: s1_def)
  ultimately show ?thesis
    using fs i free by (auto simp: run_mapped_def s1_def)
qed

lemma map_pages_run:
  assumes p: "frames_ok p"
  shows "tables_ok s \<Longrightarrow> region_ready s v n \<Longrightarrow> n \<le> card (free_frames p (mem s)) \<Longrightarrow>
    \<exists>fs s'. map_pages n p v s = Inr (True, s') \<and> length fs = n \<and> run_mapped p v fs s s'"
proof (induction n arbitrary: v s)
  case 0
  then show ?case by (intro exI [of _ "[]"]) (simp add: run_mapped_def)
next
  case (Suc n)
  have po: "pool_ok p" using p by (simp add: frames_ok_def)
  have "free_frames p (mem s) \<noteq> {}" using Suc.prems(3) by auto
  then obtain i where i: "i \<in> free_frames p (mem s)"
    and pa: "palloc p s = Inr (frame_of p i, s\<lparr>mem := bm_claim (pool_bitmap p) i (mem s)\<rparr>)"
    using palloc_first [OF po] by metis
  let ?m = "bm_claim (pool_bitmap p) i (mem s)"
  let ?s = "s\<lparr>mem := ?m\<rparr>" and ?f = "frame_of p i"
  let ?s1 = "s\<lparr>mem := ?m, phys := (phys s)(pte_at s v := entry_for ?f)\<rparr>"
  have ok: "tables_ok ?s" "region_ready ?s v (Suc n)"
    using Suc.prems by (simp_all add: tables_ok_def region_ready_def)
  note keeps = add_page_keeps [OF ok, where f = ?f]
  have "n \<le> card (free_frames p (mem ?s1))"
    using free_frames_claim(2) [OF po i] Suc.prems(3) by simp
  then obtain fs s' where fs: "map_pages n p (v + PG_SIZE) ?s1 = Inr (True, s')" "length fs = n"
    "run_mapped p (v + PG_SIZE) fs ?s1 s'"
    using Suc.IH [of ?s1 "v + PG_SIZE"] keeps(2,3) by auto
  have "frame_of p i \<noteq> 0" using p i by (simp add: frames_ok_def free_frames_def)
  then have "map_pages (Suc n) p v s = Inr (True, s')" using pa keeps(1) fs(1) by simp
  moreover have "run_mapped p v (i # fs) s s'"
    using run_mapped_Cons [OF p i Suc.prems(1), of v fs s'] Suc.prems(2) fs(2,3) by simp
  ultimately show ?case using fs(2) by (intro exI [of _ "i # fs"] exI [of _ s']) simp
qed

section \<open>Allocating addresses\<close>

lemma set_bits_claims:
  "i + n < 2 ^ 32 \<Longrightarrow> set_bits n btmp (of_nat i) m = Inr (fold (bm_claim btmp) [i..<i + n] m)"
proof (induction n arbitrary: i m)
  case (Suc n)
  have "(of_nat i :: u32) + 1 = of_nat (Suc i)" by simp
  moreover have "[i..<i + Suc n] = i # [Suc i..<Suc i + n]" by (simp add: upt_rec)
  ultimately show ?case
    using Suc.IH [of "Suc i" "bm_claim btmp i m"] Suc.prems by (simp add: bitmap_set_1 del: of_nat_Suc)
qed simp

text \<open>Two bitmaps that share no byte do not disturb each other.\<close>

definition bm_bytes :: "bitmap \<Rightarrow> u32 set" where
  "bm_bytes b = span (bits b) (unat (btmp_bytes_len b))"

lemma claim_keeps_other:
  assumes "bm_bytes b \<inter> bm_bytes c = {}" "i < bm_cap b" "j < bm_cap c"
  shows "bm_free c (bm_claim b i m) j \<longleftrightarrow> bm_free c m j"
proof -
  have byte: "bits x + of_nat (k div 8) \<in> bm_bytes x" if "k < bm_cap x" for x k
    using that by (auto simp: bm_bytes_def mem_span_iff bm_cap_def intro!: exI [of _ "k div 8"])
  from byte [OF assms(2)] byte [OF assms(3)] have "bits c + of_nat (j div 8) \<noteq> bits b + of_nat (i div 8)" using assms(1) by auto
  then show ?thesis by (simp add: bm_free_def bm_claim_def Let_def)
qed

lemma claims_keep_other:
  assumes "bm_bytes b \<inter> bm_bytes c = {}" "\<forall>i \<in> set is. i < bm_cap b" "j < bm_cap c"
  shows "bm_free c (fold (bm_claim b) is m) j \<longleftrightarrow> bm_free c m j"
  using assms(2)
  by (induction "is" arbitrary: m) (simp_all add: claim_keeps_other [OF assms(1) _ assms(3)])

lemma free_frames_other:
  assumes "bm_bytes b \<inter> bm_bytes (pool_bitmap p) = {}" "\<forall>i \<in> set is. i < bm_cap b"
  shows "free_frames p (fold (bm_claim b) is m) = free_frames p m"
  using claims_keep_other [OF assms] by (auto simp: free_frames_def)

lemma vaddr_get_kernel:
  assumes "bitmap_scan (vaddr_bitmap (kernel_vaddr s)) k (mem s) = Inr (of_nat i)"
    and "i + unat k < 2 ^ 32 - 1"
  shows "vaddr_get PF_KERNEL k s = Inr (nth_page (vaddr_start (kernel_vaddr s)) i,
    s\<lparr>mem := fold (bm_claim (vaddr_bitmap (kernel_vaddr s))) [i..<i + unat k] (mem s)\<rparr>)"
  using assms by (simp add: vaddr_get_def of_nat_neq_minus_one set_bits_claims nth_page_def)

section \<open>Dividing the memory\<close>

definition free_page_count :: "u32 \<Rightarrow> nat" where
  "free_page_count all_mem = (unat all_mem - 0x200000) div 4096 mod 65536"

lemma unat_used_mem: "unat used_mem = 0x200000"
  by (simp add: used_mem_def PG_SIZE_def)

lemma unat_all_free_pages:
  assumes "0x200000 \<le> all_mem"
  shows "unat (all_free_pages all_mem) = free_page_count all_mem"
proof -
  have "unat (all_mem - used_mem) = unat all_mem - 0x200000"
    using assms by (simp add: unat_sub used_mem_def PG_SIZE_def)
  then show ?thesis
    by (simp add: all_free_pages_def free_page_count_def unsigned_ucast_eq take_bit_eq_mod unat_div PG_SIZE_def)
qed

lemma free_page_count_less: "free_page_count all_mem < 65536"
  by (simp add: free_page_count_def)

lemma pool_page_counts:
  assumes "0x200000 \<le> all_mem"
  shows "unat (kernel_free_pages all_mem) = free_page_count all_mem div 2"
    and "unat (user_free_pages all_mem) = free_page_count all_mem - free_page_count all_mem div 2"
proof -
  show k: "unat (kernel_free_pages all_mem) = free_page_count all_mem div 2"
    using unat_all_free_pages [OF assms] by (simp add: kernel_free_pages_def unat_div)
  have "kernel_free_pages all_mem \<le> all_free_pages all_mem"
    using k unat_all_free_pages [OF assms] by (simp add: word_le_nat_alt)
  then show "unat (user_free_pages all_mem) = free_page_count all_mem - free_page_count all_mem div 2"
    using k unat_all_free_pages [OF assms] by (simp add: user_free_pages_def unat_sub)
qed

lemma u16_pages: "unat (x :: u16) = n \<Longrightarrow> (ucast x :: u32) = of_nat n"
  by auto

lemma bitmap_lengths:
  assumes "0x200000 \<le> all_mem"
  shows "kbm_length all_mem = of_nat (free_page_count all_mem div 2 div 8)"
    and "ubm_length all_mem = of_nat ((free_page_count all_mem - free_page_count all_mem div 2) div 8)"
  using pool_page_counts [OF assms]
  by (auto simp: kbm_length_def ubm_length_def unat_div intro!: u16_pages)

lemma init_bitmap_eq:
  assumes "bits b \<noteq> 0"
  shows "init_bitmap b s = Inr (s\<lparr>mem := (\<lambda>a. if a \<in> bm_bytes b then 0 else mem s a)\<rparr>)"
  using assms unsigned_less [of "btmp_bytes_len b", where 'a = nat]
  by (simp add: init_bitmap_def bitmap_init_def memset_def memset_loop_eq write_bytes_replicate bm_bytes_def)

text \<open>The state \<^verbatim>\<open>mem_pool_init\<close> leaves, by its fields.\<close>

definition pools_set :: "u32 \<Rightarrow> 'a memory_machine_scheme \<Rightarrow> bool" where
  "pools_set all_mem s \<longleftrightarrow>
     phy_addr_start (kernel_pool s) = used_mem \<and>
     phy_addr_start (user_pool s) = used_mem + ucast (kernel_free_pages all_mem) * PG_SIZE \<and>
     pool_size (kernel_pool s) = ucast (kernel_free_pages all_mem) * PG_SIZE \<and>
     pool_size (user_pool s) = ucast (user_free_pages all_mem) * PG_SIZE \<and>
     pool_bitmap (kernel_pool s) = \<lparr>btmp_bytes_len = kbm_length all_mem, bits = MEM_BITMAP_BASE\<rparr> \<and>
     pool_bitmap (user_pool s) =
       \<lparr>btmp_bytes_len = ubm_length all_mem, bits = MEM_BITMAP_BASE + kbm_length all_mem\<rparr> \<and>
     kernel_vaddr s =
       \<lparr>vaddr_bitmap = \<lparr>btmp_bytes_len = kbm_length all_mem,
                        bits = MEM_BITMAP_BASE + kbm_length all_mem + ubm_length all_mem\<rparr>,
        vaddr_start = K_HEAP_START\<rparr>"

definition bitmaps_clear :: "'a memory_machine_scheme \<Rightarrow> bool" where
  "bitmaps_clear s \<longleftrightarrow>
     (\<forall>b \<in> {pool_bitmap (kernel_pool s), pool_bitmap (user_pool s), vaddr_bitmap (kernel_vaddr s)}.
        \<forall>a \<in> bm_bytes b. mem s a = 0)"

lemma lock_init_memory_fields [simp]:
  "kernel_pool (lock_init L s) = kernel_pool s" "user_pool (lock_init L s) = user_pool s"
  "kernel_vaddr (lock_init L s) = kernel_vaddr s" "mem (lock_init L s) = mem s"
  by (simp_all add: lock_init_def sema_init_def list_init_def set_holder_def set_repeat_def set_value_def Let_def)

lemma print_memory_fields [simp]:
  "kernel_pool (put_str cs s) = kernel_pool s" "user_pool (put_str cs s) = user_pool s"
  "kernel_vaddr (put_str cs s) = kernel_vaddr s" "mem (put_str cs s) = mem s"
  "kernel_pool (put_int n s) = kernel_pool s" "user_pool (put_int n s) = user_pool s"
  "kernel_vaddr (put_int n s) = kernel_vaddr s" "mem (put_int n s) = mem s"
  by (simp_all add: put_str_def put_int_def)

lemma mem_pool_init_result:
  assumes "MEM_BITMAP_BASE + kbm_length all_mem \<noteq> 0"
    "MEM_BITMAP_BASE + kbm_length all_mem + ubm_length all_mem \<noteq> 0"
  shows "\<exists>s'. mem_pool_init all_mem s = Inr s' \<and> pools_set all_mem s' \<and> bitmaps_clear s'"
proof -
  have base: "MEM_BITMAP_BASE \<noteq> 0" by (simp add: MEM_BITMAP_BASE_def)
  show ?thesis
    using assms base
    by (simp add: mem_pool_init_def Let_def set_pools_def print_pools_def init_bitmap_eq pools_set_def bitmaps_clear_def)
qed

lemma pools_set_layout:
  assumes "0x200000 \<le> all_mem" "pools_set all_mem s"
  defines "n \<equiv> free_page_count all_mem"
  shows "unat (phy_addr_start (kernel_pool s)) = 0x200000"
    and "unat (pool_size (kernel_pool s)) = n div 2 * 4096"
    and "unat (pool_size (user_pool s)) = (n - n div 2) * 4096"
    and "unat (phy_addr_start (user_pool s)) = 0x200000 + n div 2 * 4096"
    and "unat (btmp_bytes_len (pool_bitmap (kernel_pool s))) = n div 2 div 8"
    and "unat (btmp_bytes_len (pool_bitmap (user_pool s))) = (n - n div 2) div 8"
    and "unat (bits (pool_bitmap (kernel_pool s))) = 0xc009a000"
    and "unat (bits (pool_bitmap (user_pool s))) = 0xc009a000 + n div 2 div 8"
    and "unat (bits (vaddr_bitmap (kernel_vaddr s))) = 0xc009a000 + n div 2 div 8 + (n - n div 2) div 8"
    and "unat (btmp_bytes_len (vaddr_bitmap (kernel_vaddr s))) = n div 2 div 8"
proof -
  have n: "n < 65536" unfolding n_def by (rule free_page_count_less)
  have kp: "(ucast (kernel_free_pages all_mem) :: u32) = of_nat (n div 2)"
    and up: "(ucast (user_free_pages all_mem) :: u32) = of_nat (n - n div 2)"
    using pool_page_counts [OF assms(1)] unfolding n_def by (simp_all only: u16_pages)
  note lens = bitmap_lengths [OF assms(1), folded n_def]
  have sz: "of_nat k * PG_SIZE = of_nat (k * 4096)" for k by (simp add: PG_SIZE_def)
  have um: "used_mem = of_nat 0x200000" and mb: "MEM_BITMAP_BASE = of_nat 0xc009a000"
    by (simp_all add: used_mem_def PG_SIZE_def MEM_BITMAP_BASE_def)
  note f = assms(2) [unfolded pools_set_def kp up lens sz um mb, folded of_nat_add]
  show "unat (phy_addr_start (kernel_pool s)) = 0x200000"
    "unat (pool_size (kernel_pool s)) = n div 2 * 4096"
    "unat (pool_size (user_pool s)) = (n - n div 2) * 4096"
    "unat (phy_addr_start (user_pool s)) = 0x200000 + n div 2 * 4096"
    "unat (btmp_bytes_len (pool_bitmap (kernel_pool s))) = n div 2 div 8"
    "unat (btmp_bytes_len (pool_bitmap (user_pool s))) = (n - n div 2) div 8"
    "unat (bits (pool_bitmap (kernel_pool s))) = 0xc009a000"
    "unat (bits (pool_bitmap (user_pool s))) = 0xc009a000 + n div 2 div 8"
    "unat (bits (vaddr_bitmap (kernel_vaddr s))) = 0xc009a000 + n div 2 div 8 + (n - n div 2) div 8"
    "unat (btmp_bytes_len (vaddr_bitmap (kernel_vaddr s))) = n div 2 div 8"
    using n f by (simp_all only: f unat_of_nat_u32 bitmap.simps virtual_addr.simps)
qed

section \<open>A small memory\<close>

definition demo_pool :: pool where
  "demo_pool = \<lparr>pool_bitmap = \<lparr>btmp_bytes_len = 1, bits = 0x5000\<rparr>, phy_addr_start = 0x300000,
     pool_size = 0x10000, pool_lock = 0xc0006100\<rparr>"

definition demo_mem :: memory_machine where
  "demo_mem = (sync_machine.extend demo_sync
     \<lparr>kernel_pool = demo_pool, user_pool = demo_pool\<lparr>phy_addr_start := 0x310000, pool_lock := 0xc0006200\<rparr>,
      kernel_vaddr = \<lparr>vaddr_bitmap = \<lparr>btmp_bytes_len = 2, bits = 0x5010\<rparr>, vaddr_start = 0xc0200000\<rparr>\<rparr>)
     \<lparr>mem := (\<lambda>_. 0), cr3 := cr3 demo_mmu, phys := phys demo_mmu\<rparr>"

lemma demo_mem_fields [simp]:
  "mem demo_mem = (\<lambda>_. 0)" "kernel_pool demo_mem = demo_pool"
  "kernel_vaddr demo_mem = \<lparr>vaddr_bitmap = \<lparr>btmp_bytes_len = 2, bits = 0x5010\<rparr>, vaddr_start = 0xc0200000\<rparr>"
  "cr3 demo_mem = cr3 demo_mmu" "phys demo_mem = phys demo_mmu"
  by (simp_all add: demo_mem_def sync_machine.defs)

lemma frame_literal: "frame 0x100000 = 0x100000"
  by (simp add: frame_def)

lemma demo_mem_tables: "tables_ok demo_mem"
proof -
  have "PDE_IDX w = 1023" if "pde_addr 0x100000 w = 0x100ffc" for w
    using that slot_inj [of "PDE_IDX w" 1023 "0x100000" "0x100000"] index_of_nat [of 1023]
    by (simp add: pde_addr_def frame_literal)
  then show ?thesis
    using demo_mmu_self_mapped by (auto simp: tables_ok_def frame_def)
qed

lemma demo_pool_ok: "frames_ok demo_pool"
proof -
  have "frame_of demo_pool i \<noteq> 0 \<and> frame (frame_of demo_pool i) = frame_of demo_pool i" if "i < 8" for i
  proof -
    have "i \<in> {0, 1, 2, 3, 4, 5, 6, 7}" using that by auto
    then show ?thesis by (auto simp: frame_of_def demo_pool_def PG_SIZE_def frame_def)
  qed
  then show ?thesis by (simp add: frames_ok_def pool_ok_def bm_small_def bm_cap_def demo_pool_def)
qed

lemma demo_pool_free: "free_frames demo_pool (\<lambda>_. 0) = {..<8}"
  by (auto simp: free_frames_def demo_pool_def bm_cap_def bm_free_def)

lemmas demo_walk = translate_def pde_addr_def pte_addr_def PDE_IDX_def PTE_IDX_def frame_def present_def

lemma demo_mem_region: "region_ready demo_mem 0xc0200000 1"
  by (simp add: region_ready_def lessThan_Suc del: demo_mem_fields demo_mmu_simps) (simp add: demo_walk)

lemma demo_vaddr_scan:
  "bitmap_scan \<lparr>btmp_bytes_len = 2, bits = 0x5010\<rparr> 1 (\<lambda>_. 0) = Inr (of_nat 0)"
proof -
  let ?b = "\<lparr>btmp_bytes_len = 2, bits = 0x5010\<rparr>"
  have free: "bm_free ?b (\<lambda>_. 0) j" for j by (simp add: bm_free_def)
  have "\<exists>i < bm_cap ?b. bm_free ?b (\<lambda>_. 0) i" by (rule exI [of _ 0]) (simp add: free bm_cap_def)
  then obtain i where "bitmap_scan ?b 1 (\<lambda>_. 0) = Inr (of_nat i)" "\<forall>j < i. \<not> bm_free ?b (\<lambda>_. 0) j"
    using bitmap_scan_one [of ?b "\<lambda>_. 0"] by (auto simp: bm_small_def)
  with free show ?thesis by (cases i) auto
qed

section \<open>What the allocator guarantees\<close>

text \<open>
  C13: \<^verbatim>\<open>page_table_add\<close> on an unmapped page of a well-formed address space: afterwards the page
  translates to the given frame, and every page apart from it translates as before. Where the page
  table is missing, one frame of the kernel's pool becomes the new table, cleared first; the frame
  must be fresh. A page that is already mapped is refused with the assertion of line 101.
\<close>

theorem page_table_add_maps:
  assumes "tables_ok s" "PDE_IDX vaddr \<noteq> 1023" "frame page = page"
    and "present (pde_of s vaddr) \<or> palloc (kernel_pool s) s = Inr (f, s\<lparr>mem := m\<rparr>) \<and> fresh s f"
  shows "if maps s vaddr = None
    then \<exists>s'. page_table_add vaddr page s = Inr s' \<and> maps s' vaddr = Some (page + (vaddr AND 0xfff)) \<and>
      (\<forall>w. apart s vaddr w \<longrightarrow> maps s' w = maps s w)
    else page_table_add vaddr page s = Inl (Panic ''kernel/memory.c'' 101)"
proof (cases "present (pde_of s vaddr)")
  case True
  have sm: "self_mapped (cr3 s) (phys s)" using assms(1) by (simp add: tables_ok_def)
  have "maps s vaddr = None \<longleftrightarrow> \<not> present (phys s (pte_addr (cr3 s) (phys s) vaddr))"
    using True by (simp add: translate_def)
  then show ?thesis
    using assms(3) page_table_add_present [OF sm True, of page]
      maps_after_present [OF assms(1,2) True, where p = page]
    by simp
next
  case False
  then have f: "palloc (kernel_pool s) s = Inr (f, s\<lparr>mem := m\<rparr>)" "fresh s f" using assms(4) by auto
  then have "page_table_add vaddr page s = Inr (s\<lparr>mem := m, phys :=
      (with_table (cr3 s) f vaddr (phys s))(f + PTE_IDX vaddr * 4 := entry_for page)\<rparr>)"
    using page_table_add_missing [OF assms(1) False] by (simp add: fresh_def)
  moreover have "maps s vaddr = None" using False by (simp add: translate_def)
  ultimately show ?thesis
    using assms(3) maps_after_missing [OF assms(1) False f(2), where p = page] by simp
qed

theorem page_table_add_maps_witness:
  "\<exists>s'. page_table_add 0xc0200000 0x300000 demo_mem = Inr s' \<and> maps s' 0xc0200000 = Some 0x300000"
proof -
  have "PDE_IDX 0xc0200000 \<noteq> 1023" "frame 0x300000 = 0x300000" "present (pde_of demo_mem 0xc0200000)"
    "maps demo_mem 0xc0200000 = None"
    by (simp_all add: demo_walk)
  then show ?thesis
    using page_table_add_maps [OF demo_mem_tables, of "0xc0200000" "0x300000"] by auto
qed

text \<open>
  C27: \<^verbatim>\<open>page_table_add\<close> keeps the page tables well formed: whenever it returns, whether the page
  table was there or had to be made in a fresh frame, the directory still maps itself and no other
  entry points at the directory, so that the entry pointers keep working.
\<close>

theorem page_tables_stay_well_formed:
  assumes "tables_ok s" "PDE_IDX vaddr \<noteq> 1023"
    and "present (pde_of s vaddr) \<or> palloc (kernel_pool s) s = Inr (f, s\<lparr>mem := m\<rparr>) \<and> fresh s f"
    and "page_table_add vaddr page s = Inr s'"
  shows "tables_ok s' \<and> cr3 s' = cr3 s"
proof (cases "present (pde_of s vaddr)")
  case True
  have sm: "self_mapped (cr3 s) (phys s)" using assms(1) by (simp add: tables_ok_def)
  have "region_ready s vaddr (Suc 0)"
    using page_table_add_present [OF sm True, of page] True assms(2,4)
    by (auto simp: region_ready_def lessThan_Suc split: if_splits)
  then show ?thesis using add_page_keeps [OF assms(1), of vaddr 0 page] assms(4) by auto
next
  case False
  then have f: "palloc (kernel_pool s) s = Inr (f, s\<lparr>mem := m\<rparr>)" "frame f = f" "f \<noteq> frame (cr3 s)"
    using assms(3) by (auto simp: fresh_def)
  let ?W = "with_table (cr3 s) f vaddr (phys s)" and ?a = "f + PTE_IDX vaddr * 4"
  have s': "s' = s\<lparr>mem := m, phys := ?W(?a := entry_for page)\<rparr>"
    using page_table_add_missing [OF assms(1) False f] assms(4) by simp
  have ne: "frame ?a \<noteq> frame (cr3 s)" using frame_index_slot [of "PTE_IDX vaddr" f] f by simp
  note kept = pde_kept [OF ne, of ?W "entry_for page"] self_mapped_kept [OF ne, of ?W "entry_for page"]
  have "self_mapped (cr3 s) ?W" using assms(1,2) f by (intro with_table_self_mapped) (simp_all add: tables_ok_def)
  then show ?thesis
    using assms(1) f with_table_pde [OF f(2,3), of vaddr "phys s"] by (simp add: tables_ok_def s' kept del: fun_upd_apply)
qed

theorem page_tables_stay_well_formed_witness:
  "\<exists>s'. page_table_add 0xc0200000 0x300000 demo_mem = Inr s' \<and> tables_ok s'"
proof -
  have p: "present (pde_of demo_mem 0xc0200000)" "PDE_IDX 0xc0200000 \<noteq> 1023"
    "\<not> present (phys demo_mem (pte_addr (cr3 demo_mem) (phys demo_mem) 0xc0200000))"
    by (simp_all add: demo_walk)
  have "self_mapped (cr3 demo_mem) (phys demo_mem)" using demo_mem_tables by (simp add: tables_ok_def)
  then obtain s' where "page_table_add 0xc0200000 0x300000 demo_mem = Inr s'"
    using page_table_add_present [of demo_mem "0xc0200000" "0x300000"] p by auto
  then show ?thesis using page_tables_stay_well_formed [OF demo_mem_tables p(2)] p(1) by blast
qed

text \<open>
  \<^verbatim>\<open>palloc\<close> hands out the lowest free frame of its pool, marks exactly that frame used and
  changes nothing else; on an exhausted pool it does not return NULL: the assertion in
  \<^verbatim>\<open>bitmap_scan\<close> stops the kernel.
\<close>

lemma palloc_lowest_frame:
  assumes "pool_ok p"
  shows "if free_frames p (mem s) = {} then palloc p s = Inl (Panic ''lib/bitmap.c'' 27)
    else let i = Min (free_frames p (mem s)); s' = s\<lparr>mem := bm_claim (pool_bitmap p) i (mem s)\<rparr> in
      palloc p s = Inr (phy_addr_start p + of_nat i * 4096, s') \<and>
      free_frames p (mem s') = free_frames p (mem s) - {i}"
  using assms
proof (cases rule: palloc_cases [of p s])
  case full
  then show ?thesis by (auto simp: free_frames_def)
next
  case (frame i)
  then have i: "i \<in> free_frames p (mem s)" "\<forall>j \<in> free_frames p (mem s). i \<le> j"
    by (auto simp: free_frames_def not_less [symmetric])
  have "finite (free_frames p (mem s))" by (simp add: free_frames_def)
  with i have "Min (free_frames p (mem s)) = i" by (intro Min_eqI) auto
  with i frame(4) free_frames_claim(1) [OF assms i(1)] show ?thesis
    by (auto simp: frame_of_def PG_SIZE_def add.commute Let_def)
qed

lemma palloc_lowest_frame_example: "\<exists>s'. palloc demo_pool demo_mem = Inr (0x300000, s')"
proof -
  have ok: "pool_ok demo_pool" using demo_pool_ok by (simp add: frames_ok_def)
  have "Min {..<8 :: nat} = 0" by (rule Min_eqI) auto
  moreover have "{..<8 :: nat} \<noteq> {}" by (simp add: lessThan_empty_iff)
  moreover have "phy_addr_start demo_pool = 0x300000" by (simp add: demo_pool_def)
  ultimately show ?thesis
    using palloc_lowest_frame [OF ok, of demo_mem] by (auto simp: demo_pool_free Let_def)
qed

text \<open>
  \<^verbatim>\<open>malloc_page\<close> for the kernel: when the address bitmap has the run that \<^verbatim>\<open>bitmap_scan\<close>
  reports, the page tables of the run exist and map none of its pages, and the pool has enough
  frames, the call returns the address of the run; its pages translate to pairwise different frames
  that were free and are now used, exactly the bits of the run are taken, and no other page's
  translation changes.
\<close>

lemma malloc_page_maps_run:
  assumes "frames_ok (kernel_pool s)" "tables_ok s" "0 < k" "k < 3840"
    and "bitmap_scan (vaddr_bitmap (kernel_vaddr s)) k (mem s) = Inr (of_nat i)"
    and "bm_small (vaddr_bitmap (kernel_vaddr s))" "i + unat k \<le> bm_cap (vaddr_bitmap (kernel_vaddr s))"
    and "bm_bytes (vaddr_bitmap (kernel_vaddr s)) \<inter> bm_bytes (pool_bitmap (kernel_pool s)) = {}"
    and "region_ready s (nth_page (vaddr_start (kernel_vaddr s)) i) (unat k)"
    and "nth_page (vaddr_start (kernel_vaddr s)) i \<noteq> 0"
    and "unat k \<le> card (free_frames (kernel_pool s) (mem s))"
  shows "\<exists>fs s'. malloc_page PF_KERNEL k s = Inr (nth_page (vaddr_start (kernel_vaddr s)) i, s') \<and>
    length fs = unat k \<and> distinct fs \<and> set fs \<subseteq> free_frames (kernel_pool s) (mem s) \<and>
    free_frames (kernel_pool s) (mem s') = free_frames (kernel_pool s) (mem s) - set fs \<and>
    (\<forall>j < unat k. maps s' (nth_page (vaddr_start (kernel_vaddr s)) (i + j)) =
      Some (frame_of (kernel_pool s) (fs ! j) + (vaddr_start (kernel_vaddr s) AND 0xfff))) \<and>
    (\<forall>j < bm_cap (vaddr_bitmap (kernel_vaddr s)). bm_free (vaddr_bitmap (kernel_vaddr s)) (mem s') j \<longleftrightarrow>
      bm_free (vaddr_bitmap (kernel_vaddr s)) (mem s) j \<and> j \<notin> {i..<i + unat k}) \<and>
    (\<forall>w. (\<forall>j < unat k. pte_at s w \<noteq> pte_at s (nth_page (vaddr_start (kernel_vaddr s)) (i + j))) \<longrightarrow>
      maps s' w = maps s w)"
proof -
  let ?b = "vaddr_bitmap (kernel_vaddr s)" and ?p = "kernel_pool s"
    and ?v = "nth_page (vaddr_start (kernel_vaddr s)) i"
  define s1 where "s1 = s\<lparr>mem := fold (bm_claim ?b) [i..<i + unat k] (mem s)\<rparr>"
  have cap: "bm_cap ?b < 2 ^ 31" using assms(6) by (rule bm_small_cap)
  have get: "vaddr_get PF_KERNEL k s = Inr (?v, s1)"
    using vaddr_get_kernel [OF assms(5)] assms(7) cap by (simp add: s1_def)
  have ff: "free_frames ?p (mem s1) = free_frames ?p (mem s)"
    using free_frames_other [OF assms(8)] assms(7) by (simp add: s1_def)
  have "tables_ok s1" "region_ready s1 ?v (unat k)"
    using assms(2,9) by (simp_all add: s1_def tables_ok_def region_ready_def)
  then obtain fs s' where run: "map_pages (unat k) ?p ?v s1 = Inr (True, s')" "length fs = unat k"
    "run_mapped ?p ?v fs s1 s'"
    using map_pages_run [OF assms(1), of s1 ?v "unat k"] assms(11) ff by auto
  have "malloc_page PF_KERNEL k s = Inr (?v, s')"
    using get run(1) assms(3,4,10) by (simp add: malloc_page_def s1_def)
  moreover have page: "nth_page ?v j = nth_page (vaddr_start (kernel_vaddr s)) (i + j)" for j
    by (simp add: nth_page_def algebra_simps)
  moreover have off: "nth_page u j AND 0xfff = u AND 0xfff" for u j
    by (rule nth_page_offset)
  moreover have "bm_free ?b (mem s') j \<longleftrightarrow> bm_free ?b (mem s) j \<and> j \<notin> {i..<i + unat k}"
    if "j < bm_cap ?b" for j
  proof -
    have "mem s' = fold (bm_claim (pool_bitmap ?p)) fs (mem s1)" "\<forall>x \<in> set fs. x < bm_cap (pool_bitmap ?p)"
      using run(3) by (auto simp: run_mapped_def free_frames_def)
    then have "bm_free ?b (mem s') j \<longleftrightarrow> bm_free ?b (mem s1) j"
      using claims_keep_other [of "pool_bitmap ?p" ?b fs j "mem s1"] that assms(8) by (simp add: inf_commute)
    then show ?thesis
      using bm.free_after_claims [of i "unat k" j ?b "mem s"] that assms(7) cap by (simp add: s1_def)
  qed
  ultimately show ?thesis
    using run(2,3) ff by (intro exI [of _ fs] exI [of _ s']) (auto simp: run_mapped_def page off s1_def)
qed

lemma malloc_page_maps_run_example:
  "\<exists>fs s'. malloc_page PF_KERNEL 1 demo_mem = Inr (0xc0200000, s') \<and> length fs = 1 \<and>
     maps s' 0xc0200000 = Some (frame_of demo_pool (fs ! 0))"
proof -
  have "bm_bytes \<lparr>btmp_bytes_len = 2, bits = 0x5010\<rparr> \<inter> bm_bytes (pool_bitmap demo_pool) = {}"
    by (simp add: bm_bytes_def demo_pool_def)
  then show ?thesis
    using malloc_page_maps_run [of demo_mem 1 0] demo_pool_ok demo_mem_tables demo_vaddr_scan
      demo_mem_region demo_pool_free
    by (simp add: bm_small_def bm_cap_def) blast
qed

text \<open>
  C32: \<^verbatim>\<open>mem_pool_init\<close> divides the memory above the first two megabytes: the kernel pool starts
  there, the user pool follows it without a gap, the bitmaps lie one behind the other between
  0xc009a000 and 0xc009e000, none has more bits than its pool has pages, and all are clear. The two
  pools together have the number of whole pages above two megabytes, but modulo 65536: beyond
  258 megabytes the 16-bit page count wraps and memory is lost.
\<close>

theorem mem_pool_init_divides:
  assumes "0x200000 \<le> all_mem"
  shows "\<exists>s'. mem_pool_init all_mem s = Inr s' \<and> bitmaps_clear s' \<and>
    unat (phy_addr_start (kernel_pool s')) = 0x200000 \<and>
    unat (phy_addr_start (user_pool s')) = 0x200000 + unat (pool_size (kernel_pool s')) \<and>
    unat (pool_size (kernel_pool s')) + unat (pool_size (user_pool s')) =
      (unat all_mem - 0x200000) div 4096 mod 65536 * 4096 \<and>
    bm_cap (pool_bitmap (kernel_pool s')) * 4096 \<le> unat (pool_size (kernel_pool s')) \<and>
    bm_cap (pool_bitmap (user_pool s')) * 4096 \<le> unat (pool_size (user_pool s')) \<and>
    unat (bits (pool_bitmap (kernel_pool s'))) = 0xc009a000 \<and>
    unat (bits (pool_bitmap (user_pool s'))) = unat (bits (pool_bitmap (kernel_pool s'))) +
      unat (btmp_bytes_len (pool_bitmap (kernel_pool s'))) \<and>
    unat (bits (vaddr_bitmap (kernel_vaddr s'))) = unat (bits (pool_bitmap (user_pool s'))) +
      unat (btmp_bytes_len (pool_bitmap (user_pool s'))) \<and>
    unat (bits (vaddr_bitmap (kernel_vaddr s'))) + unat (btmp_bytes_len (vaddr_bitmap (kernel_vaddr s')))
      \<le> 0xc009e000"
proof -
  let ?n = "free_page_count all_mem"
  have n: "?n < 65536" by (rule free_page_count_less)
  note lens = bitmap_lengths [OF assms]
  have mb: "MEM_BITMAP_BASE = of_nat 0xc009a000" by (simp add: MEM_BITMAP_BASE_def)
  have nz: "(of_nat (0xc009a000 + m) :: u32) \<noteq> 0" if "m < 0x10000" for m
    using that of_nat_u32_eq_iff [of "0xc009a000 + m" 0] by simp
  obtain s' where s': "mem_pool_init all_mem s = Inr s'" "pools_set all_mem s'" "bitmaps_clear s'"
    using mem_pool_init_result [of all_mem s] nz [of "?n div 2 div 8"]
      nz [of "?n div 2 div 8 + (?n - ?n div 2) div 8"] n unfolding lens mb by (auto simp: add.assoc)
  note layout = pools_set_layout [OF assms s'(2)]
  have bits: "8 * (k div 8) * 4096 \<le> k * 4096" for k :: nat by simp
  have sum: "?n div 2 * 4096 + (?n - ?n div 2) * 4096 = ?n * 4096"
    by (simp flip: add_mult_distrib)
  have "?n div 2 div 8 \<le> 4096" "(?n - ?n div 2) div 8 \<le> 4096"
    using n by (auto intro!: div_le_mono [of _ "8 * 4096" 8, simplified])
  then have fits: "0xc009a000 + ?n div 2 div 8 + (?n - ?n div 2) div 8 + ?n div 2 div 8 \<le> 0xc009e000"
    by linarith
  show ?thesis
    using s' bits sum fits
    by (intro exI [of _ s'] conjI) (simp_all only: layout bm_cap_def free_page_count_def [symmetric])
qed

theorem mem_pool_init_divides_witness:
  "\<exists>s'. mem_pool_init 0x2000000 demo_mem = Inr s' \<and>
     unat (pool_size (kernel_pool s')) + unat (pool_size (user_pool s')) = 0x1e00000"
  using mem_pool_init_divides [of "0x2000000" demo_mem] by auto

end
