(* ===== verification/Console.thy ===== *)
theory Console
  imports Memory
begin

text \<open>
  The console of \<^verbatim>\<open>src/device/console.c\<close>: printing under a lock. Each printing routine may block in
  \<^verbatim>\<open>lock_acquire\<close>; \<open>console_print\<close> is the common shape of the three, and the rest of a routine that
  was switched out is \<open>console_print_resume\<close>.
\<close>

section \<open>console.c\<close>

text \<open>\<open>console_lock\<close> is the address of the static lock.\<close>

record console_machine = memory_machine +
  console_lock :: u32

type_synonym 'a console_outcome = "('a console_machine_scheme, frames, unit) outcome"

definition console_init :: "'a console_machine_scheme \<Rightarrow> 'a console_machine_scheme" where
  "console_init s = lock_init (console_lock s) s"

definition console_acquire :: "'a console_machine_scheme \<Rightarrow> 'a console_outcome" where
  "console_acquire s = lock_acquire (console_lock s) s"

definition console_release :: "'a console_machine_scheme \<Rightarrow> 'a console_outcome" where
  "console_release s = finish_state (lock_release (console_lock s) s)"

definition console_print ::
  "('a console_machine_scheme \<Rightarrow> 'a console_machine_scheme) \<Rightarrow> 'a console_machine_scheme
     \<Rightarrow> 'a console_outcome" where
  "console_print put s = obind (console_acquire s) (\<lambda>_ s. console_release (put s))"

definition console_print_resume ::
  "('a console_machine_scheme \<Rightarrow> 'a console_machine_scheme) \<Rightarrow> frames \<Rightarrow> 'a console_machine_scheme
     \<Rightarrow> 'a console_outcome" where
  "console_print_resume put k s =
     obind (lock_acquire_resume (console_lock s) k s) (\<lambda>_ s. console_release (put s))"

definition console_put_str :: "u8 list \<Rightarrow> 'a console_machine_scheme \<Rightarrow> 'a console_outcome" where
  "console_put_str str s = console_print (put_str str) s"

definition console_put_char :: "u8 \<Rightarrow> 'a console_machine_scheme \<Rightarrow> 'a console_outcome" where
  "console_put_char char_asci s = console_print (\<lambda>s. s\<lparr>screen := put_char char_asci (screen s)\<rparr>) s"

definition console_put_int :: "u32 \<Rightarrow> 'a console_machine_scheme \<Rightarrow> 'a console_outcome" where
  "console_put_int num s = console_print (put_int num) s"

section \<open>Printing under a free lock\<close>

lemma console_print_eq:
  fixes s :: "'a console_machine_scheme"
  assumes "guarded_code put" "\<And>t. console_lock (put t) = console_lock t"
    and "lock_free (console_lock s) s" "running_thread s \<noteq> 0"
    "dlist (lnk s) (lock_waiters (console_lock s)) []"
  shows "console_print put s = Ret (put s) ()"
proof -
  obtain s1 where s1: "lock_acquire (console_lock s) s = Ret s1 ()"
    "lock_release (console_lock s) (put s1) = Inr (put s)" "sync_machine.more s1 = sync_machine.more s"
    by (rule guarded_code.body_under_lock [OF assms(1,3-5)])
  have "console_lock s1 = console_lock s" using s1(3) by (cases s1, cases s) simp
  then show ?thesis
    using s1(1,2) by (simp add: console_print_def console_acquire_def console_release_def assms(2))
qed

text \<open>Printing is code that a lock can guard.\<close>

interpretation put_str: guarded_code "put_str cs :: 'a sync_machine_scheme \<Rightarrow> 'a sync_machine_scheme" for cs
  by unfold_locales (simp_all add: put_str_def running_thread_def)

interpretation put_int: guarded_code "put_int n :: 'a sync_machine_scheme \<Rightarrow> 'a sync_machine_scheme" for n
  by unfold_locales (simp_all add: put_int_def running_thread_def)

interpretation put_char: guarded_code
  "\<lambda>s :: 'a sync_machine_scheme. s\<lparr>screen := put_char c (screen s)\<rparr>" for c
  by unfold_locales (simp_all add: running_thread_def)

text \<open>
  With the console's lock free and nobody waiting for it, the printing routines of the console
  return at once and do exactly what the unlocked routines do: the lock is free again afterwards.
\<close>

lemma console_prints:
  assumes "lock_free (console_lock s) s" "running_thread s \<noteq> 0"
    "dlist (lnk s) (lock_waiters (console_lock s)) []"
  shows "console_put_str str s = Ret (put_str str s) () \<and>
    console_put_int num s = Ret (put_int num s) () \<and>
    console_put_char c s = Ret (s\<lparr>screen := put_char c (screen s)\<rparr>) ()"
  using console_print_eq [OF put_str.guarded_code_axioms _ assms, of str]
    console_print_eq [OF put_int.guarded_code_axioms _ assms, of num]
    console_print_eq [OF put_char.guarded_code_axioms _ assms, of c]
  by (simp add: console_put_str_def console_put_int_def console_put_char_def) (simp add: put_str_def put_int_def)

definition demo_console :: console_machine where
  "demo_console = console_init (memory_machine.extend demo_mem \<lparr>console_lock = 0xc0006300\<rparr>)"

lemma demo_console_fields [simp]:
  "console_lock demo_console = 0xc0006300" "esp demo_console = esp demo_mem"
  by (simp_all add: demo_console_def console_init_def lock_init_def sema_init_def list_init_def
      set_holder_def set_repeat_def set_value_def Let_def memory_machine.defs)

lemma demo_console_running: "running_thread demo_console = 0xc009e000"
proof -
  have "esp demo_mem = esp demo_threads"
    by (simp add: demo_mem_def demo_sync_def sync_machine.defs lock_init_def sema_init_def list_init_def
        set_holder_def set_repeat_def set_value_def Let_def thread_machine.defs)
  then show ?thesis by (simp add: running_thread_def)
qed

lemma lock_init_free:
  "lock_free L (lock_init L s)" "dlist (lnk (lock_init L s)) (lock_waiters L) []"
  using dlist_init
  by (simp_all add: lock_free_def lock_init_def sema_init_def list_init_def set_holder_def
      set_repeat_def set_value_def Let_def dlist_def link_updates)

lemma console_prints_example:
  "console_put_str (lit ''ok'') demo_console = Ret (put_str (lit ''ok'') demo_console) ()"
proof -
  have "lock_free (console_lock demo_console) demo_console"
    "dlist (lnk demo_console) (lock_waiters (console_lock demo_console)) []"
    using lock_init_free [of "0xc0006300"]
    unfolding demo_console_fields by (simp_all add: demo_console_def console_init_def memory_machine.defs)
  then show ?thesis using console_prints [of demo_console] demo_console_running by simp
qed

end
