(* ===== verification/Process.thy ===== *)
theory Process
  imports Console
begin

text \<open>
  Creating threads and processes: the rest of \<^verbatim>\<open>src/thread/thread.c\<close> (\<^verbatim>\<open>init_thread\<close>,
  \<^verbatim>\<open>thread_create\<close>, \<^verbatim>\<open>thread_start\<close>, \<^verbatim>\<open>thread_init\<close>) and of \<^verbatim>\<open>src/userprog/process.c\<close>, and the
  system call of \<^verbatim>\<open>src/userprog/syscall-init.c\<close>. The stacks that a new thread and a new process
  start from are records at their addresses; entry points that the linker fixes are fields that no
  operation changes. \<^verbatim>\<open>init_thread\<close> can block in \<^verbatim>\<open>allocate_pid\<close>, \<^verbatim>\<open>start_process\<close> in
  \<^verbatim>\<open>get_a_page\<close>.
\<close>

section \<open>Stacks\<close>

record thread_stack =
  ts_ebp :: u32
  ts_ebx :: u32
  ts_edi :: u32
  ts_esi :: u32
  ts_eip :: u32
  ts_unused_retaddr :: u32
  ts_function :: u32
  ts_func_arg :: u32

record intr_stack =
  is_vec_no :: u32
  is_edi :: u32
  is_esi :: u32
  is_ebp :: u32
  is_esp_dummy :: u32
  is_ebx :: u32
  is_edx :: u32
  is_ecx :: u32
  is_eax :: u32
  is_gs :: u32
  is_fs :: u32
  is_es :: u32
  is_ds :: u32
  is_err_code :: u32
  is_eip :: u32
  is_cs :: u32
  is_eflags :: u32
  is_esp :: u32
  is_ss :: u32

definition sizeof_thread_stack :: u32 where "sizeof_thread_stack = 8 * 4"
definition sizeof_intr_stack :: u32 where "sizeof_intr_stack = 19 * 4"

record process_machine = console_machine +
  pid_lock :: u32
  next_pid :: u16
  thread_stacks :: "u32 \<Rightarrow> thread_stack"
  intr_stacks :: "u32 \<Rightarrow> intr_stack"
  kernel_thread_entry :: u32
  start_process_entry :: u32

type_synonym ('a, 'b) process_outcome = "('a process_machine_scheme, frames, 'b) outcome"

section \<open>thread.c: creating a thread\<close>

text \<open>\<^verbatim>\<open>kernel_thread\<close>: the function of the thread is an argument, whatever it ends with.\<close>

definition kernel_thread ::
  "(u32 \<Rightarrow> 'a process_machine_scheme \<Rightarrow> 'r) \<Rightarrow> u32 \<Rightarrow> 'a process_machine_scheme \<Rightarrow> 'r" where
  "kernel_thread function func_arg s = (let s = snd (intr_enable s) in function func_arg s)"

definition pid_locked :: "'a process_machine_scheme \<Rightarrow> ('a, u16) process_outcome" where
  "pid_locked s =
     (let s = s\<lparr>next_pid := next_pid s + 1\<rparr>
      in finish_with (sbind (lock_release (pid_lock s) s) (\<lambda>s. Inr (next_pid s, s))))"

definition allocate_pid :: "'a process_machine_scheme \<Rightarrow> ('a, u16) process_outcome" where
  "allocate_pid s = obind (lock_acquire (pid_lock s) s) (\<lambda>_. pid_locked)"

definition allocate_pid_resume :: "frames \<Rightarrow> 'a process_machine_scheme \<Rightarrow> ('a, u16) process_outcome" where
  "allocate_pid_resume k s = obind (lock_acquire_resume (pid_lock s) k s) (\<lambda>_. pid_locked)"

text \<open>
  The subtractions are on a \<^verbatim>\<open>uint32_t*\<close>, so each takes four times the size off the address.
\<close>

definition thread_create ::
  "u32 \<Rightarrow> u32 \<Rightarrow> u32 \<Rightarrow> 'a process_machine_scheme \<Rightarrow> 'a process_machine_scheme" where
  "thread_create pthread function func_arg s =
     (let s = upd_task pthread (\<lambda>t. t\<lparr>self_kstack := self_kstack t - 4 * sizeof_intr_stack\<rparr>) s;
          s = upd_task pthread (\<lambda>t. t\<lparr>self_kstack := self_kstack t - 4 * sizeof_thread_stack\<rparr>) s;
          kthread_stack = self_kstack (tasks s pthread);
          st = thread_stacks s kthread_stack;
          st = st\<lparr>ts_eip := kernel_thread_entry s, ts_function := function, ts_func_arg := func_arg,
                  ts_ebp := 0, ts_ebx := 0, ts_esi := 0, ts_edi := 0\<rparr>
      in s\<lparr>thread_stacks := (thread_stacks s)(kthread_stack := st)\<rparr>)"

text \<open>The structure after \<^verbatim>\<open>memset(pthread, 0, sizeof(*pthread))\<close>, its list tags included.\<close>

definition zero_task :: task_struct where
  "zero_task = \<lparr>self_kstack = 0, pid = 0, status = TASK_RUNNING, name = replicate 16 0, priority = 0,
     ticks = 0, elapsed_ticks = 0, pgdir = 0, userprog_vaddr = zero_vaddr, stack_magic = 0\<rparr>"

definition clear_task :: "u32 \<Rightarrow> 'a process_machine_scheme \<Rightarrow> kerror + 'a process_machine_scheme" where
  "clear_task pthread s =
     sbind (ASSERT ''lib/string.c'' 9 (pthread \<noteq> 0)) (\<lambda>_.
       Inr (s\<lparr>tasks := (tasks s)(pthread := zero_task),
              lnk := (lnk s)(general_tag pthread := \<lparr>elem_prev = 0, elem_next = 0\<rparr>,
                             all_list_tag pthread := \<lparr>elem_prev = 0, elem_next = 0\<rparr>)\<rparr>))"

text \<open>\<^verbatim>\<open>strcpy\<close> into the sixteen bytes of the name.\<close>

definition copy_name :: "u8 list \<Rightarrow> u8 list \<Rightarrow> kerror + u8 list" where
  "copy_name cs old =
     (if length cs < 16 then Inr (cs @ 0 # drop (length cs + 1) old)
      else Inl (Overflow ''thread/thread.c'' 69))"

definition fill_task ::
  "u32 \<Rightarrow> u8 list \<Rightarrow> int \<Rightarrow> u16 \<Rightarrow> 'a process_machine_scheme \<Rightarrow> ('a, unit) process_outcome" where
  "fill_task pthread nm prio new_pid s =
     (let s = upd_task pthread (\<lambda>t. t\<lparr>pid := new_pid\<rparr>) s in
      finish_state (sbind (copy_name nm (name (tasks s pthread))) (\<lambda>cs.
        let s = upd_task pthread (\<lambda>t. t\<lparr>name := cs\<rparr>) s;
            s = upd_task pthread (\<lambda>t. t\<lparr>status :=
                  if pthread = main_thread s then TASK_RUNNING else TASK_READY\<rparr>) s;
            s = upd_task pthread (\<lambda>t. t\<lparr>ticks := of_int prio, elapsed_ticks := 0\<rparr>) s;
            s = upd_task pthread (\<lambda>t. t\<lparr>priority := of_int prio\<rparr>) s;
            s = upd_task pthread (\<lambda>t. t\<lparr>self_kstack := pthread + PG_SIZE, pgdir := 0,
                  stack_magic := 0x20040207\<rparr>) s
        in Inr s)))"

definition init_thread ::
  "u32 \<Rightarrow> u8 list \<Rightarrow> int \<Rightarrow> 'a process_machine_scheme \<Rightarrow> ('a, unit) process_outcome" where
  "init_thread pthread nm prio s =
     obind (finish_state (clear_task pthread s)) (\<lambda>_ s.
     obind (allocate_pid s) (\<lambda>p. fill_task pthread nm prio p))"

definition init_thread_resume ::
  "u32 \<Rightarrow> u8 list \<Rightarrow> int \<Rightarrow> frames \<Rightarrow> 'a process_machine_scheme \<Rightarrow> ('a, unit) process_outcome" where
  "init_thread_resume pthread nm prio k s =
     obind (allocate_pid_resume k s) (\<lambda>p. fill_task pthread nm prio p)"

text \<open>Both lists get the thread, each after the check that it is not in the list yet.\<close>

definition enlist ::
  "string \<Rightarrow> nat \<Rightarrow> u32 \<Rightarrow> u32 \<Rightarrow> 'a process_machine_scheme \<Rightarrow> kerror + 'a process_machine_scheme" where
  "enlist file line l tag s =
     sbind (elem_find l tag s) (\<lambda>found.
     sbind (ASSERT file line (\<not> found)) (\<lambda>_. Inr (list_append l tag s)))"

definition thread_started ::
  "u32 \<Rightarrow> u32 \<Rightarrow> u32 \<Rightarrow> 'a process_machine_scheme \<Rightarrow> ('a, u32) process_outcome" where
  "thread_started thread function func_arg s =
     (let s = thread_create thread function func_arg s in
      finish_with
        (sbind (enlist ''thread/thread.c'' 92 (thread_ready_list s) (general_tag thread) s) (\<lambda>s.
         sbind (enlist ''thread/thread.c'' 95 (thread_all_list s) (all_list_tag thread) s) (\<lambda>s.
           Inr (thread, s)))))"

text \<open>What a thread switched out of \<^verbatim>\<open>thread_start\<close> remembers: the page it got.\<close>

definition thread_start ::
  "u8 list \<Rightarrow> int \<Rightarrow> u32 \<Rightarrow> u32 \<Rightarrow> 'a process_machine_scheme
     \<Rightarrow> ('a process_machine_scheme, u32 \<times> frames, u32) outcome" where
  "thread_start nm prio function func_arg s =
     (case get_kernel_pages 1 s of
        Inl e \<Rightarrow> Fail e
      | Inr (thread, s) \<Rightarrow>
          (case obind (init_thread thread nm prio s) (\<lambda>_. thread_started thread function func_arg) of
             Fail e \<Rightarrow> Fail e | Switched s k \<Rightarrow> Switched s (thread, k) | Ret s t \<Rightarrow> Ret s t))"

definition thread_start_resume ::
  "u8 list \<Rightarrow> int \<Rightarrow> u32 \<Rightarrow> u32 \<Rightarrow> u32 \<times> frames \<Rightarrow> 'a process_machine_scheme
     \<Rightarrow> ('a process_machine_scheme, u32 \<times> frames, u32) outcome" where
  "thread_start_resume nm prio function func_arg k s =
     (case obind (init_thread_resume (fst k) nm prio (snd k) s)
             (\<lambda>_. thread_started (fst k) function func_arg) of
        Fail e \<Rightarrow> Fail e | Switched s k' \<Rightarrow> Switched s (fst k, k') | Ret s t \<Rightarrow> Ret s t)"

definition make_main_thread :: "'a process_machine_scheme \<Rightarrow> ('a, unit) process_outcome" where
  "make_main_thread s =
     (let s = s\<lparr>main_thread := running_thread s\<rparr> in
      obind (init_thread (main_thread s) (lit ''main'') 31 s) (\<lambda>_ s.
        finish_state (enlist ''thread/thread.c'' 108 (thread_all_list s) (all_list_tag (main_thread s)) s)))"

definition thread_init :: "'a process_machine_scheme \<Rightarrow> ('a, unit) process_outcome" where
  "thread_init s =
     (let s = put_str (lit ''thread_init start'' @ [10]) s;
          s = list_init (thread_all_list s) s;
          s = list_init (thread_ready_list s) s;
          s = lock_init (pid_lock s) s
      in obind (make_main_thread s) (\<lambda>_ s. Ret (put_str (lit ''thread_init done'' @ [10]) s) ()))"

section \<open>process.c\<close>

definition USER_VADDR_START :: u32 where "USER_VADDR_START = 0x8048000"
definition USER_STACK3_VADDR :: u32 where "USER_STACK3_VADDR = 0xc0000000 - 0x1000"
definition default_prio :: int where "default_prio = 31"

definition upd_intr_stack ::
  "u32 \<Rightarrow> (intr_stack \<Rightarrow> intr_stack) \<Rightarrow> 'a process_machine_scheme \<Rightarrow> 'a process_machine_scheme" where
  "upd_intr_stack a f s = s\<lparr>intr_stacks := (intr_stacks s)(a := f (intr_stacks s a))\<rparr>"

text \<open>
  \<^verbatim>\<open>start_process\<close> up to the allocation of the user stack, with the address of the frame it fills;
  the rest of it; and the two together. It ends with the stack pointer at the frame, from which
  \<^verbatim>\<open>intr_exit\<close> of \<^verbatim>\<open>kernel.S\<close> loads the registers.
\<close>

definition process_frame :: "u32 \<Rightarrow> 'a process_machine_scheme \<Rightarrow> u32 \<times> 'a process_machine_scheme" where
  "process_frame filename s =
     (let s = put_str (lit ''start_process'' @ [10]) s;
          function = filename;
          cur = running_thread s;
          s = upd_task cur (\<lambda>t. t\<lparr>self_kstack := self_kstack t + 4 * sizeof_thread_stack\<rparr>) s;
          proc_stack = self_kstack (tasks s cur);
          s = upd_intr_stack proc_stack (\<lambda>st. st\<lparr>is_edi := 0, is_esi := 0, is_ebp := 0,
                is_esp_dummy := 0, is_ebx := 0, is_edx := 0, is_ecx := 0, is_eax := 0\<rparr>) s;
          s = upd_intr_stack proc_stack (\<lambda>st. st\<lparr>is_gs := 0, is_ds := SELECTOR_U_DATA,
                is_es := SELECTOR_U_DATA, is_fs := SELECTOR_U_DATA\<rparr>) s;
          s = upd_intr_stack proc_stack (\<lambda>st. st\<lparr>is_eip := function, is_cs := SELECTOR_U_CODE,
                is_eflags := EFLAGS_IOPL_0 OR EFLAGS_MBS OR EFLAGS_IF_1\<rparr>) s
      in (proc_stack, s))"

definition process_entered ::
  "u32 \<Rightarrow> ('a, u32) process_outcome \<Rightarrow> ('a process_machine_scheme, u32 \<times> frames, unit) outcome" where
  "process_entered proc_stack r =
     (case r of Fail e \<Rightarrow> Fail e
      | Switched s k \<Rightarrow> Switched s (proc_stack, k)
      | Ret s page \<Rightarrow>
          let s = upd_intr_stack proc_stack (\<lambda>st. st\<lparr>is_esp := page + PG_SIZE\<rparr>) s;
              s = upd_intr_stack proc_stack (\<lambda>st. st\<lparr>is_ss := SELECTOR_U_DATA\<rparr>) s
          in Ret (s\<lparr>esp := proc_stack\<rparr>) ())"

definition start_process ::
  "u32 \<Rightarrow> 'a process_machine_scheme \<Rightarrow> ('a process_machine_scheme, u32 \<times> frames, unit) outcome" where
  "start_process filename s =
     (case process_frame filename s of (proc_stack, s) \<Rightarrow>
        process_entered proc_stack (get_a_page PF_USER USER_STACK3_VADDR s))"

definition start_process_resume ::
  "u32 \<times> frames \<Rightarrow> 'a process_machine_scheme \<Rightarrow> ('a process_machine_scheme, u32 \<times> frames, unit) outcome" where
  "start_process_resume k s =
     process_entered (fst k) (get_a_page_resume PF_USER USER_STACK3_VADDR (snd k) s)"

text \<open>\<^verbatim>\<open>memcpy\<close> of aligned words through the page tables.\<close>

fun copy_words :: "nat \<Rightarrow> u32 \<Rightarrow> u32 \<Rightarrow> 'a mmu_machine_scheme \<Rightarrow> kerror + 'a mmu_machine_scheme" where
  "copy_words 0 dst src s = Inr s"
| "copy_words (Suc n) dst src s =
     sbind (rd32 src s) (\<lambda>x. sbind (wr32 dst x s) (copy_words n (dst + 4) (src + 4)))"

definition fill_page_dir :: "u32 \<Rightarrow> 'a mmu_machine_scheme \<Rightarrow> kerror + 'a mmu_machine_scheme" where
  "fill_page_dir page_dir_vaddr s =
     sbind (copy_words 256 (page_dir_vaddr + 0x300 * 4) (0xfffff000 + 0x300 * 4) s) (\<lambda>s.
     sbind (addr_v2p page_dir_vaddr s) (\<lambda>new_page_dir_phy_addr.
       wr32 (page_dir_vaddr + 1023 * 4) (entry_for new_page_dir_phy_addr) s))"

definition create_page_dir :: "'a process_machine_scheme \<Rightarrow> ('a, u32) process_outcome" where
  "create_page_dir s =
     (case get_kernel_pages 1 s of
        Inl e \<Rightarrow> Fail e
      | Inr (page_dir_vaddr, s) \<Rightarrow>
          if page_dir_vaddr = 0 then
            obind (console_put_str (lit ''create_page_dir: get_kernel_page failed!'') s) (\<lambda>_ s. Ret s 0)
          else finish_with (sbind (fill_page_dir page_dir_vaddr s) (\<lambda>s. Inr (page_dir_vaddr, s))))"

definition create_page_dir_resume :: "frames \<Rightarrow> 'a process_machine_scheme \<Rightarrow> ('a, u32) process_outcome" where
  "create_page_dir_resume k s =
     obind (console_print_resume (put_str (lit ''create_page_dir: get_kernel_page failed!'')) k s)
       (\<lambda>_ s. Ret s 0)"

definition upd_vaddr ::
  "u32 \<Rightarrow> (virtual_addr \<Rightarrow> virtual_addr) \<Rightarrow> 'a process_machine_scheme \<Rightarrow> 'a process_machine_scheme" where
  "upd_vaddr t f s = upd_task t (\<lambda>u. u\<lparr>userprog_vaddr := f (userprog_vaddr u)\<rparr>) s"

definition create_user_vaddr_bitmap ::
  "u32 \<Rightarrow> 'a process_machine_scheme \<Rightarrow> kerror + 'a process_machine_scheme" where
  "create_user_vaddr_bitmap user_prog s =
     (let s = upd_vaddr user_prog (\<lambda>v. v\<lparr>vaddr_start := USER_VADDR_START\<rparr>) s;
          len = (0xc0000000 - USER_VADDR_START) div PG_SIZE div 8;
          bitmap_pg_cnt = DIV_ROUND_UP len PG_SIZE in
      sbind (get_kernel_pages bitmap_pg_cnt s) (\<lambda>(pages, s).
        let s = upd_vaddr user_prog (\<lambda>v. v\<lparr>vaddr_bitmap := (vaddr_bitmap v)\<lparr>bits := pages\<rparr>\<rparr>) s;
            s = upd_vaddr user_prog (\<lambda>v. v\<lparr>vaddr_bitmap := (vaddr_bitmap v)\<lparr>btmp_bytes_len := len\<rparr>\<rparr>) s
        in init_bitmap (vaddr_bitmap (userprog_vaddr (tasks s user_prog))) s))"

text \<open>Where \<^verbatim>\<open>process_execute\<close> can be switched out, with the page of the new process.\<close>

datatype exec_point = In_init_thread u32 frames | In_create_page_dir u32 frames

type_synonym 'a exec_outcome = "('a process_machine_scheme, exec_point, unit) outcome"

definition process_enlisted ::
  "u32 \<Rightarrow> ('a, u32) process_outcome \<Rightarrow> 'a exec_outcome" where
  "process_enlisted thread r =
     (case r of Fail e \<Rightarrow> Fail e
      | Switched s k \<Rightarrow> Switched s (In_create_page_dir thread k)
      | Ret s dir \<Rightarrow>
          let s = upd_task thread (\<lambda>t. t\<lparr>pgdir := dir\<rparr>) s in
          (case intr_disable s of (old_status, s) \<Rightarrow>
             finish_state
               (sbind (enlist ''userprog/process.c'' 121 (thread_ready_list s) (general_tag thread) s) (\<lambda>s.
                sbind (enlist ''userprog/process.c'' 124 (thread_all_list s) (all_list_tag thread) s) (\<lambda>s.
                  Inr (snd (intr_set_status old_status s)))))))"

definition process_built :: "u32 \<Rightarrow> u32 \<Rightarrow> ('a, unit) process_outcome \<Rightarrow> 'a exec_outcome" where
  "process_built thread filename r =
     (case r of Fail e \<Rightarrow> Fail e
      | Switched s k \<Rightarrow> Switched s (In_init_thread thread k)
      | Ret s _ \<Rightarrow>
          (case create_user_vaddr_bitmap thread s of
             Inl e \<Rightarrow> Fail e
           | Inr s \<Rightarrow>
               let s = thread_create thread (start_process_entry s) filename s
               in process_enlisted thread (create_page_dir s)))"

definition process_execute :: "u32 \<Rightarrow> u8 list \<Rightarrow> 'a process_machine_scheme \<Rightarrow> 'a exec_outcome" where
  "process_execute filename nm s =
     (case get_kernel_pages 1 s of
        Inl e \<Rightarrow> Fail e
      | Inr (thread, s) \<Rightarrow> process_built thread filename (init_thread thread nm default_prio s))"

fun process_execute_resume ::
  "u32 \<Rightarrow> u8 list \<Rightarrow> exec_point \<Rightarrow> 'a process_machine_scheme \<Rightarrow> 'a exec_outcome" where
  "process_execute_resume filename nm (In_init_thread thread k) s =
     process_built thread filename (init_thread_resume thread nm default_prio k s)"
| "process_execute_resume filename nm (In_create_page_dir thread k) s =
     process_enlisted thread (create_page_dir_resume k s)"

section \<open>System calls\<close>

text \<open>
  The table holds function addresses; \<open>sys_getpid_entry\<close> is that of \<^verbatim>\<open>sys_getpid\<close>. A system call
  is the \<^verbatim>\<open>int 0x80\<close> of \<^verbatim>\<open>lib/user/syscall.c\<close> with its number in \<^verbatim>\<open>eax\<close>: \<^verbatim>\<open>syscall_handler\<close> of
  \<^verbatim>\<open>kernel.S\<close> calls the entry of that number without checking it.
\<close>

definition syscall_nr :: nat where "syscall_nr = 32"
definition SYS_GETPID :: nat where "SYS_GETPID = 0"

record syscall_machine = process_machine +
  syscall_table :: "u32 list"
  sys_getpid_entry :: u32

definition sys_getpid :: "'a thread_machine_scheme \<Rightarrow> u32" where
  "sys_getpid s = ucast (pid (tasks s (running_thread s)))"

definition syscall_init :: "'a syscall_machine_scheme \<Rightarrow> 'a syscall_machine_scheme" where
  "syscall_init s =
     (let s = put_str (lit ''syscall_init start'' @ [10]) s;
          s = s\<lparr>syscall_table := (syscall_table s)[SYS_GETPID := sys_getpid_entry s]\<rparr>
      in put_str (lit ''syscall_init done'' @ [10]) s)"

definition syscall_handler :: "nat \<Rightarrow> 'a syscall_machine_scheme \<Rightarrow> kerror + u32" where
  "syscall_handler eax s =
     (if eax < length (syscall_table s) \<and> syscall_table s ! eax = sys_getpid_entry s
      then Inr (sys_getpid s)
      else Inl (Fault (if eax < length (syscall_table s) then syscall_table s ! eax else of_nat eax)))"

definition getpid :: "'a syscall_machine_scheme \<Rightarrow> kerror + u32" where
  "getpid s = syscall_handler SYS_GETPID s"

section \<open>A new thread\<close>

interpretation next_pid: guarded_code
  "\<lambda>s :: 'a process_machine_scheme. s\<lparr>next_pid := next_pid s + 1\<rparr>"
  by unfold_locales (simp_all add: running_thread_def)

lemma allocate_pid_free:
  fixes s :: "'a process_machine_scheme"
  assumes "lock_free (pid_lock s) s" "running_thread s \<noteq> 0"
    "dlist (lnk s) (lock_waiters (pid_lock s)) []"
  shows "allocate_pid s = Ret (s\<lparr>next_pid := next_pid s + 1\<rparr>) (next_pid s + 1)"
proof -
  obtain s1 where s1: "lock_acquire (pid_lock s) s = Ret s1 ()"
    "lock_release (pid_lock s) (s1\<lparr>next_pid := next_pid s1 + 1\<rparr>) = Inr (s\<lparr>next_pid := next_pid s + 1\<rparr>)"
    "sync_machine.more s1 = sync_machine.more s"
    by (rule next_pid.body_under_lock [OF assms])
  have "pid_lock s1 = pid_lock s" using s1(3) by (cases s1, cases s) simp
  then show ?thesis
    using s1(1,2) by (simp add: allocate_pid_def pid_locked_def Let_def finish_with_def)
qed

lemma copy_name_short:
  "length cs < 16 \<Longrightarrow> copy_name cs (replicate 16 0) = Inr (cs @ replicate (16 - length cs) 0)"
proof -
  assume "length cs < 16"
  then have "16 - length cs = Suc (16 - (length cs + 1))" by simp
  then have "(0 :: u8) # replicate (16 - (length cs + 1)) 0 = replicate (16 - length cs) 0" by simp
  with \<open>length cs < 16\<close> show ?thesis by (simp add: copy_name_def)
qed

lemma new_stack_in_page:
  fixes p :: u32
  assumes "p AND 0xfffff000 = p"
  shows "(p + 3664 + 20) AND 0xfffff000 = p"
proof -
  have "is_index 921" using index_of_nat [of 921] by simp
  then have "frame (frame p + 921 * 4) = frame p" by (rule frame_index_slot)
  then show ?thesis using assms by (simp add: frame_def add.assoc)
qed

text \<open>The task structure of a new thread, ready to be switched to.\<close>

definition fresh_task :: "u32 \<Rightarrow> u8 list \<Rightarrow> int \<Rightarrow> u16 \<Rightarrow> task_status \<Rightarrow> task_struct" where
  "fresh_task p nm prio n st = \<lparr>self_kstack = p + PG_SIZE, pid = n, status = st,
     name = nm @ replicate (16 - length nm) 0, priority = of_int prio, ticks = of_int prio,
     elapsed_ticks = 0, pgdir = 0, userprog_vaddr = zero_vaddr, stack_magic = 0x20040207\<rparr>"

lemma init_thread_eq:
  assumes "lock_free (pid_lock s) s" "running_thread s \<noteq> 0"
    "dlist (lnk s) (lock_waiters (pid_lock s)) []" "p \<noteq> 0" "length nm < 16"
    "{general_tag p, all_list_tag p} \<inter> foot (lock_waiters (pid_lock s)) [] = {}"
  shows "init_thread p nm prio s = Ret (s\<lparr>
     lnk := (lnk s)(general_tag p := \<lparr>elem_prev = 0, elem_next = 0\<rparr>,
                    all_list_tag p := \<lparr>elem_prev = 0, elem_next = 0\<rparr>),
     next_pid := next_pid s + 1,
     tasks := (tasks s)(p := fresh_task p nm prio (next_pid s + 1)
        (if p = main_thread s then TASK_RUNNING else TASK_READY))\<rparr>) ()"
proof -
  let ?s = "s\<lparr>tasks := (tasks s)(p := zero_task), lnk := (lnk s)(general_tag p := \<lparr>elem_prev = 0, elem_next = 0\<rparr>,
    all_list_tag p := \<lparr>elem_prev = 0, elem_next = 0\<rparr>)\<rparr>"
  have "lnk ?s a = lnk s a" if "a \<in> foot (lock_waiters (pid_lock s)) []" for a using that assms(6) by auto
  then have d: "dlist (lnk ?s) (lock_waiters (pid_lock s)) [] \<longleftrightarrow> dlist (lnk s) (lock_waiters (pid_lock s)) []"
    by (rule dlist_cong)
  have pid: "allocate_pid ?s = Ret (?s\<lparr>next_pid := next_pid s + 1\<rparr>) (next_pid s + 1)"
    using allocate_pid_free [of ?s] assms(1,2,3) d by (simp add: lock_free_def running_thread_def)
  have clear: "clear_task p s = Inr ?s" using assms(4) by (simp add: clear_task_def)
  have "init_thread p nm prio s = fill_task p nm prio (next_pid s + 1) (?s\<lparr>next_pid := next_pid s + 1\<rparr>)"
    by (simp add: init_thread_def clear pid)
  also have "\<dots> = Ret (?s\<lparr>next_pid := next_pid s + 1, tasks := (tasks s)(p := fresh_task p nm prio (next_pid s + 1)
      (if p = main_thread s then TASK_RUNNING else TASK_READY))\<rparr>) ()"
    using assms(5) by (simp add: fill_task_def upd_task_def Let_def copy_name_short fresh_task_def zero_task_def)
  finally show ?thesis by simp
qed

lemma thread_create_fields:
  assumes "tasks s p = t" "self_kstack t = p + PG_SIZE"
  shows "tasks (thread_create p f a s) = (tasks s)(p := t\<lparr>self_kstack := p + 3664\<rparr>)"
    and "ts_eip (thread_stacks (thread_create p f a s) (p + 3664)) = kernel_thread_entry s"
    and "ts_function (thread_stacks (thread_create p f a s) (p + 3664)) = f"
    and "ts_func_arg (thread_stacks (thread_create p f a s) (p + 3664)) = a"
    and "lnk (thread_create p f a s) = lnk s"
    and "\<forall>b. b \<noteq> p + 3664 \<longrightarrow> thread_stacks (thread_create p f a s) b = thread_stacks s b"
  using assms
  by (simp_all add: thread_create_def upd_task_def Let_def sizeof_intr_stack_def sizeof_thread_stack_def PG_SIZE_def
      add.commute)

text \<open>
  A thread made by \<^verbatim>\<open>init_thread\<close> and \<^verbatim>\<open>thread_create\<close> in its own page, with a name of
  fewer than sixteen characters and the pid lock free: it is ready, has the next process
  identifier, its priority as its time slice and its terminated name; the scheduler can switch to
  it and finds it in its own page, and its first stack frame leads to \<^verbatim>\<open>kernel_thread\<close> with the
  function and the argument. The stack starts 432 bytes below the end of the page, four times the
  size of the two structures that are meant to be there.
\<close>

lemma new_thread_runs_function:
  assumes "lock_free (pid_lock s) s" "running_thread s \<noteq> 0"
    "dlist (lnk s) (lock_waiters (pid_lock s)) []" "length nm < 16"
    "p \<noteq> 0" "p AND 0xfffff000 = p" "p \<noteq> main_thread s"
    "{general_tag p, all_list_tag p} \<inter> foot (lock_waiters (pid_lock s)) [] = {}"
  shows "\<exists>s1. init_thread p nm prio s = Ret s1 () \<and>
    (let s2 = thread_create p f a s1; t = tasks s2 p in
      resumable t p \<and> status t = TASK_READY \<and> pid t = next_pid s + 1 \<and> name t = nm @ replicate (16 - length nm) 0 \<and>
      ticks t = of_int prio \<and> priority t = of_int prio \<and> pgdir t = 0 \<and> stack_magic t = 0x20040207 \<and>
      self_kstack t = p + PG_SIZE - 4 * (sizeof_intr_stack + sizeof_thread_stack) \<and>
      ts_eip (thread_stacks s2 (self_kstack t)) = kernel_thread_entry s \<and>
      ts_function (thread_stacks s2 (self_kstack t)) = f \<and>
      ts_func_arg (thread_stacks s2 (self_kstack t)) = a)"
proof -
  note init = init_thread_eq [OF assms(1-3,5,4,8), of prio]
  show ?thesis
    unfolding init using assms(7) new_stack_in_page [OF assms(6)]
    by (simp add: thread_create_fields fresh_task_def resumable_def Let_def sizeof_intr_stack_def
        sizeof_thread_stack_def PG_SIZE_def)
qed

section \<open>The address space of a process\<close>

text \<open>The page at \<open>page\<close> is mapped to the frame \<open>f\<close>.\<close>

definition page_at :: "'a mmu_machine_scheme \<Rightarrow> u32 \<Rightarrow> u32 \<Rightarrow> bool" where
  "page_at s page f \<longleftrightarrow> frame page = page \<and> present (pde_of s page) \<and>
     present (phys s (pte_at s page)) \<and> frame (phys s (pte_at s page)) = f"

lemma frame_and_fff: "frame page = page \<Longrightarrow> page AND 0xfff = 0"
proof -
  assume "frame page = page"
  then have "page AND 0xfff = frame page AND 0xfff" by simp
  also have "\<dots> = 0" by (rule bit_word_eqI) (auto simp: bit_simps mask_bits)
  finally show ?thesis .
qed

lemma wr32_slot:
  assumes "page_at s page f" "is_index i"
  shows "wr32 (page + i * 4) x s = Inr (s\<lparr>phys := (phys s)(f + i * 4 := x)\<rparr>)"
  using translate_slot [OF assms(2), of "cr3 s" "phys s" page] assms(1)
  by (simp add: page_at_def wr32_def)

lemma rd32_self_slot:
  assumes "self_mapped (cr3 s) (phys s)" "is_index i"
  shows "rd32 (0xfffff000 + i * 4) s = Inr (phys s (frame (cr3 s) + i * 4))"
proof -
  have "frame 0xfffff000 = 0xfffff000" "PDE_IDX 0xfffff000 = 1023" "PTE_IDX 0xfffff000 = 1023"
    by (simp_all add: frame_def PDE_IDX_def PTE_IDX_def)
  then show ?thesis
    using translate_slot [OF assms(2), of "cr3 s" "phys s" "0xfffff000"] assms(1)
    by (simp add: rd32_def self_mapped_def pde_addr_def pte_addr_def)
qed

lemma addr_v2p_page:
  assumes "self_mapped (cr3 s) (phys s)" "page_at s page f"
  shows "addr_v2p page s = Inr f"
  using rd32_pte [OF assms(1), of page] assms(2) frame_and_fff [of page]
  by (simp add: addr_v2p_def page_at_def flip: frame_def)

lemma write_fresh_keeps:
  assumes "fresh s f" "frame a = f"
  shows "self_mapped (cr3 s) ((phys s)(a := x)) \<longleftrightarrow> self_mapped (cr3 s) (phys s)"
    and "fresh (s\<lparr>phys := (phys s)(a := x)\<rparr>) f"
    and "page_at (s\<lparr>phys := (phys s)(a := x)\<rparr>) page f \<longleftrightarrow> page_at s page f"
proof -
  have ne: "frame a \<noteq> frame (cr3 s)" using assms by (simp add: fresh_def)
  note pd = pde_kept [OF ne, of "phys s" x] and pt = pte_addr_kept [OF ne, of "phys s" x]
  show "self_mapped (cr3 s) ((phys s)(a := x)) \<longleftrightarrow> self_mapped (cr3 s) (phys s)"
    by (rule self_mapped_kept [OF ne])
  show "fresh (s\<lparr>phys := (phys s)(a := x)\<rparr>) f" using assms(1) by (simp add: fresh_def pd del: fun_upd_apply)
  have "pte_at s page \<noteq> a" if "present (pde_of s page)"
    using assms that by (metis frame_pte_addr fresh_def)
  then show "page_at (s\<lparr>phys := (phys s)(a := x)\<rparr>) page f \<longleftrightarrow> page_at s page f"
    by (auto simp: page_at_def pd pt simp del: fun_upd_apply) (simp_all)
qed

lemma slots_distinct:
  "frame f = f \<Longrightarrow> i < 1024 \<Longrightarrow> j < 1024 \<Longrightarrow> f + of_nat i * 4 = f + (of_nat j * 4 :: u32) \<longleftrightarrow> i = j"
  using slot_inj [OF index_of_nat index_of_nat, of i j f f] of_nat_u32_eq_iff [of i j] by auto

lemma copy_words_dir:
  assumes "k + n \<le> 1024" "self_mapped (cr3 s) (phys s)" "page_at s page f" "fresh s f"
  shows "\<exists>ph. copy_words n (page + of_nat k * 4) (0xfffff000 + of_nat k * 4) s = Inr (s\<lparr>phys := ph\<rparr>) \<and>
    (\<forall>i. k \<le> i \<longrightarrow> i < k + n \<longrightarrow> ph (f + of_nat i * 4) = phys s (frame (cr3 s) + of_nat i * 4)) \<and>
    (\<forall>a. (\<forall>i. k \<le> i \<longrightarrow> i < k + n \<longrightarrow> a \<noteq> f + of_nat i * 4) \<longrightarrow> ph a = phys s a)"
  using assms
proof (induction n arbitrary: k s)
  case 0
  then show ?case by (intro exI [of _ "phys s"]) simp
next
  case (Suc n)
  define x a s1 where "x = phys s (frame (cr3 s) + of_nat k * 4)" and "a = f + of_nat k * 4"
    and "s1 = s\<lparr>phys := (phys s)(a := x)\<rparr>"
  have idx: "is_index (of_nat i)" if "i < 1024" for i using that by (rule index_of_nat)
  have ff: "frame f = f" "f \<noteq> frame (cr3 s)" using Suc.prems(4) by (simp_all add: fresh_def)
  have fa: "frame a = f" using frame_index_slot [OF idx, of k f] ff Suc.prems(1) by (simp add: a_def)
  have s1: "self_mapped (cr3 s1) (phys s1)" "page_at s1 page f" "fresh s1 f"
    using write_fresh_keeps [OF Suc.prems(4) fa, of x] Suc.prems(2,3)
    by (simp_all add: s1_def del: fun_upd_apply)
  have step: "copy_words (Suc n) (page + of_nat k * 4) (0xfffff000 + of_nat k * 4) s =
      copy_words n (page + of_nat (Suc k) * 4) (0xfffff000 + of_nat (Suc k) * 4) s1"
    using rd32_self_slot [OF Suc.prems(2) idx, of k] wr32_slot [OF Suc.prems(3) idx, of k x] Suc.prems(1)
    by (simp add: algebra_simps s1_def a_def x_def)
  have "Suc k + n \<le> 1024" using Suc.prems(1) by simp
  from Suc.IH [OF this s1] obtain ph where
    ph: "copy_words n (page + of_nat (Suc k) * 4) (0xfffff000 + of_nat (Suc k) * 4) s1 = Inr (s1\<lparr>phys := ph\<rparr>)"
    "\<And>i. Suc k \<le> i \<Longrightarrow> i < Suc k + n \<Longrightarrow> ph (f + of_nat i * 4) = phys s1 (frame (cr3 s1) + of_nat i * 4)"
    "\<And>b. (\<forall>i. Suc k \<le> i \<longrightarrow> i < Suc k + n \<longrightarrow> b \<noteq> f + of_nat i * 4) \<Longrightarrow> ph b = phys s1 b"
    by metis
  have dir: "phys s1 (frame (cr3 s1) + of_nat i * 4) = phys s (frame (cr3 s) + of_nat i * 4)" if "i < 1024" for i
    using frame_index_slot [OF idx [OF that], of "cr3 s"] fa ff by (auto simp: s1_def)
  have here: "ph a = x"
    using ph(3) [of a] slots_distinct [OF ff(1)] Suc.prems(1) by (auto simp: a_def s1_def)
  have "\<forall>i. k \<le> i \<longrightarrow> i < k + Suc n \<longrightarrow> ph (f + of_nat i * 4) = phys s (frame (cr3 s) + of_nat i * 4)"
  proof (intro allI impI)
    fix i assume i: "k \<le> i" "i < k + Suc n"
    show "ph (f + of_nat i * 4) = phys s (frame (cr3 s) + of_nat i * 4)"
      using here ph(2) [of i] dir [of i] i Suc.prems(1) by (cases "i = k") (auto simp: a_def x_def)
  qed
  moreover have "\<forall>b. (\<forall>i. k \<le> i \<longrightarrow> i < k + Suc n \<longrightarrow> b \<noteq> f + of_nat i * 4) \<longrightarrow> ph b = phys s b"
    using ph(3) by (auto simp: s1_def a_def)
  moreover have "s1\<lparr>phys := ph\<rparr> = s\<lparr>phys := ph\<rparr>" by (simp add: s1_def)
  ultimately show ?case using step ph(1) by (intro exI [of _ ph]) simp
qed

lemma fill_page_dir_eq:
  assumes "self_mapped (cr3 s) (phys s)" "page_at s page f" "fresh s f"
  shows "\<exists>ph. fill_page_dir page s = Inr (s\<lparr>phys := ph\<rparr>) \<and>
    (\<forall>i. 768 \<le> i \<longrightarrow> i < 1023 \<longrightarrow> ph (f + of_nat i * 4) = phys s (frame (cr3 s) + of_nat i * 4)) \<and>
    (\<forall>i < 768. ph (f + of_nat i * 4) = phys s (f + of_nat i * 4)) \<and>
    ph (f + 4092) = entry_for f \<and> (\<forall>a. frame a \<noteq> f \<longrightarrow> ph a = phys s a)"
proof -
  have ff: "frame f = f" using assms(3) by (simp add: fresh_def)
  obtain ph where ph: "copy_words 256 (page + 3072) 4294966272 s = Inr (s\<lparr>phys := ph\<rparr>)"
    "\<And>i. 768 \<le> i \<Longrightarrow> i < 1024 \<Longrightarrow> ph (f + of_nat i * 4) = phys s (frame (cr3 s) + of_nat i * 4)"
    "\<And>a. (\<forall>i. 768 \<le> i \<longrightarrow> i < 1024 \<longrightarrow> a \<noteq> f + of_nat i * 4) \<Longrightarrow> ph a = phys s a"
    using copy_words_dir [OF _ assms, of 768 256] by auto
  have idx: "frame (f + of_nat i * 4) = f" if "i < 1024" for i
    using frame_index_slot [OF index_of_nat [OF that], of f] ff by simp
  then have other: "ph a = phys s a" if "frame a \<noteq> f" for a using ph(3) [of a] that by auto
  have low: "ph (f + of_nat i * 4) = phys s (f + of_nat i * 4)" if "i < 768" for i
    using ph(3) [of "f + of_nat i * 4"] slots_distinct [OF ff] that by auto
  let ?s = "s\<lparr>phys := ph\<rparr>"
  have self: "ph (frame (cr3 s) + 4092) = phys s (frame (cr3 s) + 4092)"
    using other [of "frame (cr3 s) + 4092"] assms(3) by (auto simp: self_slot_frame fresh_def)
  then have sm: "self_mapped (cr3 ?s) (phys ?s)" using assms(1) by (simp add: self_mapped_def)
  have "ph (pde_addr (cr3 s) page) = pde_of s page"
    using other [of "pde_addr (cr3 s) page"] assms(3) by (auto simp: fresh_def)
  moreover from this have "pte_at ?s page = pte_at s page" by (simp add: pte_addr_def)
  moreover have "ph (pte_at s page) = phys s (pte_at s page)"
    using other [of "pte_at s page"] assms(2,3) by (auto simp: fresh_def page_at_def)
  ultimately have pa: "page_at ?s page f" using assms(2) by (simp add: page_at_def)
  have "wr32 (page + 4092) (entry_for f) ?s = Inr (?s\<lparr>phys := (phys ?s)(f + 4092 := entry_for f)\<rparr>)"
    using wr32_slot [OF pa index_of_nat [of 1023]] by simp
  then have "fill_page_dir page s = Inr (s\<lparr>phys := ph(f + 4092 := entry_for f)\<rparr>)"
    using ph(1) addr_v2p_page [OF sm pa] by (simp add: fill_page_dir_def)
  moreover have "f + of_nat i * 4 \<noteq> f + 4092" if "i < 1023" for i
    using slots_distinct [OF ff, of i 1023] that by simp
  moreover have "a \<noteq> f + 4092" if "frame a \<noteq> f" for a using idx [of 1023] that by auto
  ultimately show ?thesis
    using ph(2) other low by (intro exI [of _ "ph(f + 4092 := entry_for f)"]) auto
qed

text \<open>
  The page directory that \<^verbatim>\<open>create_page_dir\<close> fills in a fresh page: in the new address space
  every kernel address below the page-table window translates as in the current one, the user half
  is empty, and the new directory maps itself, so that the entry pointers work there too; the
  current address space is unchanged.
\<close>

lemma process_space_shares_kernel:
  assumes "self_mapped (cr3 s) (phys s)" "page_at s page f" "fresh s f"
    and "\<forall>i < 768. phys s (f + of_nat i * 4) = 0"
  shows "\<exists>s'. fill_page_dir page s = Inr s' \<and> self_mapped f (phys s') \<and>
    (\<forall>v. 768 \<le> unat (PDE_IDX v) \<and> unat (PDE_IDX v) < 1023 \<longrightarrow> translate f (phys s') v = maps s v) \<and>
    (\<forall>v. unat (PDE_IDX v) < 768 \<longrightarrow> translate f (phys s') v = None) \<and>
    (\<forall>v. maps s' v = maps s v)"
proof -
  have ff: "frame f = f" "f \<noteq> frame (cr3 s)" using assms(3) by (simp_all add: fresh_def)
  obtain ph where ph: "fill_page_dir page s = Inr (s\<lparr>phys := ph\<rparr>)"
    "\<And>i. 768 \<le> i \<Longrightarrow> i < 1023 \<Longrightarrow> ph (f + of_nat i * 4) = phys s (frame (cr3 s) + of_nat i * 4)"
    "\<And>i. i < 768 \<Longrightarrow> ph (f + of_nat i * 4) = phys s (f + of_nat i * 4)"
    "ph (f + 4092) = entry_for f" "\<And>a. frame a \<noteq> f \<Longrightarrow> ph a = phys s a"
    using fill_page_dir_eq [OF assms(1-3)] by metis
  have new: "pde_addr f v = f + of_nat (unat (PDE_IDX v)) * 4"
    "pde_addr (cr3 s) v = frame (cr3 s) + of_nat (unat (PDE_IDX v)) * 4" for v
    by (simp_all add: pde_addr_def ff)
  have table: "ph (pte_at s v) = phys s (pte_at s v)" if "present (pde_of s v)" for v
    using ph(5) [of "pte_at s v"] assms(3) that by (auto simp: fresh_def)
  have "self_mapped f ph" using ph(4) ff by (simp add: self_mapped_def)
  moreover have "translate f ph v = maps s v" if "768 \<le> unat (PDE_IDX v)" "unat (PDE_IDX v) < 1023" for v
  proof -
    have "ph (pde_addr f v) = pde_of s v" using ph(2) [OF that] by (simp only: new)
    then show ?thesis
      using table [of v] by (cases "present (pde_of s v)") (simp_all add: translate_def pte_addr_def)
  qed
  moreover have "translate f ph v = None" if "unat (PDE_IDX v) < 768" for v
  proof -
    have "phys s (f + of_nat (unat (PDE_IDX v)) * 4) = 0" using assms(4) that by blast
    then have "ph (pde_addr f v) = 0" using ph(3) [OF that] by (simp only: new)
    then show ?thesis by (simp add: translate_def)
  qed
  moreover have "translate (cr3 s) ph v = maps s v" for v
  proof -
    have "ph (pde_addr (cr3 s) v) = pde_of s v" using ph(5) [of "pde_addr (cr3 s) v"] ff by simp
    then show ?thesis
      using table [of v] by (cases "present (pde_of s v)") (simp_all add: translate_def pte_addr_def)
  qed
  ultimately show ?thesis using ph(1) by auto
qed

text \<open>
  \<^verbatim>\<open>getpid\<close> returns the process identifier of the calling thread once \<^verbatim>\<open>syscall_init\<close> has
  run; with the table still zero, as \<^verbatim>\<open>init_all\<close> leaves it, the call jumps to address 0.
\<close>

lemma getpid_after_init:
  "length (syscall_table s) = syscall_nr \<Longrightarrow>
   getpid (syscall_init s) = Inr (ucast (pid (tasks s (running_thread s)))) \<and>
   (syscall_table s ! SYS_GETPID = 0 \<and> sys_getpid_entry s \<noteq> 0 \<longrightarrow> getpid s = Inl (Fault 0))"
  by (simp add: getpid_def syscall_handler_def syscall_init_def SYS_GETPID_def syscall_nr_def Let_def
      sys_getpid_def put_str_def running_thread_def)

section \<open>A small system with processes\<close>

definition demo_process :: process_machine where
  "demo_process = lock_init 0xc0006400 (console_machine.extend demo_console
     \<lparr>pid_lock = 0xc0006400, next_pid = 4, thread_stacks = (\<lambda>_. \<lparr>ts_ebp = 0, ts_ebx = 0, ts_edi = 0,
        ts_esi = 0, ts_eip = 0, ts_unused_retaddr = 0, ts_function = 0, ts_func_arg = 0\<rparr>),
      intr_stacks = (\<lambda>_. \<lparr>is_vec_no = 0, is_edi = 0, is_esi = 0, is_ebp = 0, is_esp_dummy = 0,
        is_ebx = 0, is_edx = 0, is_ecx = 0, is_eax = 0, is_gs = 0, is_fs = 0, is_es = 0, is_ds = 0,
        is_err_code = 0, is_eip = 0, is_cs = 0, is_eflags = 0, is_esp = 0, is_ss = 0\<rparr>),
      kernel_thread_entry = 0xc0001600, start_process_entry = 0xc0001700\<rparr>)
     \<lparr>main_thread := 0xc009e000, cr3 := cr3 demo_mmu, phys := phys demo_mmu\<rparr>"

lemma demo_process_fields [simp]:
  "pid_lock demo_process = 0xc0006400" "esp demo_process = esp demo_console" "next_pid demo_process = 4"
  "main_thread demo_process = 0xc009e000" "kernel_thread_entry demo_process = 0xc0001600"
  "cr3 demo_process = cr3 demo_mmu" "phys demo_process = phys demo_mmu"
  by (simp_all add: demo_process_def lock_init_def sema_init_def list_init_def
      set_holder_def set_repeat_def set_value_def Let_def console_machine.defs)

lemma demo_process_running: "running_thread demo_process = 0xc009e000"
  using demo_console_running by (simp add: running_thread_def del: demo_console_fields)

lemma demo_process_lock:
  "lock_free 0xc0006400 demo_process" "dlist (lnk demo_process) (lock_waiters 0xc0006400) []"
  using lock_init_free [of "0xc0006400"] by (simp_all add: demo_process_def lock_free_def)

lemma new_thread_runs_function_example:
  "\<exists>s1. init_thread 0xc0102000 (lit ''k'') 8 demo_process = Ret s1 () \<and>
     resumable (tasks (thread_create 0xc0102000 0xc0001800 7 s1) 0xc0102000) 0xc0102000 \<and>
     ts_function (thread_stacks (thread_create 0xc0102000 0xc0001800 7 s1) 0xc0102e50) = 0xc0001800"
proof -
  have "{general_tag 0xc0102000, all_list_tag 0xc0102000} \<inter> foot (lock_waiters 0xc0006400) [] = {}"
    by (simp add: general_tag_def general_tag_offset_def all_list_tag_def all_list_tag_offset_def
        sema_waiters_def lock_semaphore_def list_tail_def)
  moreover have "length (lit ''k'') < 16" by (simp add: lit_def)
  ultimately show ?thesis
    using new_thread_runs_function [of demo_process "lit ''k''" "0xc0102000" 8 "0xc0001800" 7]
      demo_process_lock demo_process_running
    by (auto simp: Let_def PG_SIZE_def sizeof_intr_stack_def sizeof_thread_stack_def)
qed

lemma process_space_shares_kernel_example:
  "\<exists>s'. fill_page_dir 0xc0100000 demo_process = Inr s' \<and> self_mapped 0x200000 (phys s')"
proof -
  have "self_mapped (cr3 demo_process) (phys demo_process)" using demo_mmu_self_mapped by simp
  moreover have "page_at demo_process 0xc0100000 0x200000"
    by (simp add: page_at_def demo_walk)
  moreover have "fresh demo_process 0x200000"
  proof -
    have "pde_addr 0x100000 w \<noteq> 0x101400" for w
    proof
      assume "pde_addr 0x100000 w = 0x101400"
      then have "frame 0x101400 = frame 0x100000" using frame_pde_addr [of "0x100000" w] by simp
      then show False by (simp add: frame_def)
    qed
    then show ?thesis by (auto simp: fresh_def frame_def present_def)
  qed
  moreover have "\<forall>i < 768. phys demo_process (0x200000 + of_nat i * 4) = 0"
  proof (intro allI impI)
    fix i :: nat assume "i < 768"
    define a :: u32 where "a = 0x200000 + of_nat i * 4"
    have "frame a = 0x200000"
      using frame_index_slot [OF index_of_nat, of i "0x200000"] \<open>i < 768\<close> by (simp add: a_def frame_def)
    then have "a \<noteq> 0x100ffc" "a \<noteq> 0x100c00" "a \<noteq> 0x101400" by (auto simp: frame_def)
    then show "phys demo_process (0x200000 + of_nat i * 4) = 0" by (simp flip: a_def)
  qed
  ultimately show ?thesis using process_space_shares_kernel [of demo_process "0xc0100000" "0x200000"] by auto
qed

definition demo_syscalls :: syscall_machine where
  "demo_syscalls = process_machine.extend demo_process
     \<lparr>syscall_table = replicate 32 0, sys_getpid_entry = 0xc0001900\<rparr>"

lemma getpid_after_init_example:
  "getpid (syscall_init demo_syscalls) =
     Inr (ucast (pid (tasks demo_syscalls (running_thread demo_syscalls)))) \<and> getpid demo_syscalls = Inl (Fault 0)"
  using getpid_after_init [of demo_syscalls]
  by (simp add: demo_syscalls_def process_machine.defs syscall_nr_def SYS_GETPID_def)

end
