(* ===== verification/Heap.thy ===== *)
theory Heap
  imports Process
begin

text \<open>
  The kernel's heap: \<^verbatim>\<open>get_kernel_pages\<close> of \<^verbatim>\<open>src/kernel/memory.c\<close> as the rest of the kernel uses
  it. No kernel code gives a page back, so that the heap is used from its lowest page upwards; the
  invariant \<open>heap_at\<close> says that the pages below a number are in use, that those above are free and
  unmapped, and how many more can be had. A request for any number of pages keeps it, and the pages
  come mapped to frames of their own and cleared.
\<close>

section \<open>Writes that leave the directory alone\<close>

definition same_dir :: "'a mmu_machine_scheme \<Rightarrow> (u32 \<Rightarrow> u32) \<Rightarrow> bool" where
  "same_dir s ph \<longleftrightarrow> (\<forall>a. frame a = frame (cr3 s) \<longrightarrow> ph a = phys s a)"

lemma same_dir_walk:
  assumes "same_dir s ph"
  shows "ph (pde_addr (cr3 s) w) = pde_of s w" "pte_addr (cr3 s) ph w = pte_at s w"
    "tables_ok (s\<lparr>phys := ph\<rparr>) \<longleftrightarrow> tables_ok s" "fresh (s\<lparr>phys := ph\<rparr>) f \<longleftrightarrow> fresh s f"
proof -
  show pd: "ph (pde_addr (cr3 s) w) = pde_of s w" for w using assms by (simp add: same_dir_def)
  show "pte_addr (cr3 s) ph w = pte_at s w" by (simp add: pte_addr_def pd)
  have "ph (frame (cr3 s) + 4092) = phys s (frame (cr3 s) + 4092)"
    using assms self_slot_frame by (simp add: same_dir_def)
  then show "tables_ok (s\<lparr>phys := ph\<rparr>) \<longleftrightarrow> tables_ok s" by (simp add: tables_ok_def self_mapped_def pd)
  show "fresh (s\<lparr>phys := ph\<rparr>) f \<longleftrightarrow> fresh s f" by (simp add: fresh_def pd)
qed

lemma zero_slots_other: "frame f = f \<Longrightarrow> frame a \<noteq> f \<Longrightarrow> zero_at (slots f 1024) ph a = ph a"
  using frame_in_slots [of a f 1024] by (auto simp: zero_at_def)

lemma zero_fresh:
  assumes f: "fresh s f"
  defines "ph \<equiv> zero_at (slots f 1024) (phys s)"
  shows "same_dir s ph" "page_at (s\<lparr>phys := ph\<rparr>) w g \<longleftrightarrow> page_at s w g"
proof -
  have ff: "frame f = f" "f \<noteq> frame (cr3 s)" using f by (simp_all add: fresh_def)
  then show dir: "same_dir s ph" using zero_slots_other [OF ff(1)] by (auto simp: same_dir_def ph_def)
  have "ph (pte_at s w) = phys s (pte_at s w)" if "present (pde_of s w)"
    unfolding ph_def using f that by (intro zero_slots_other) (auto simp: fresh_def)
  then show "page_at (s\<lparr>phys := ph\<rparr>) w g \<longleftrightarrow> page_at s w g"
    by (auto simp: page_at_def same_dir_walk [OF dir])
qed

section \<open>Clearing a run of pages\<close>

lemma clear_words_add:
  "clear_words (m + n) v s = sbind (clear_words m v s) (clear_words n (v + of_nat m * 4))"
proof (induction m arbitrary: v s)
  case (Suc m)
  show ?case by (cases "wr32 v 0 s") (simp_all add: Suc algebra_simps)
qed simp

lemma clear_page:
  assumes "page_at s v f" "fresh s f"
  shows "clear_words 1024 v s = Inr (s\<lparr>phys := zero_at (slots f 1024) (phys s)\<rparr>)"
proof -
  have p: "frame v = v" "present (pde_of s v)" "present (phys s (pte_at s v))" "frame (phys s (pte_at s v)) = f"
    using assms(1) by (simp_all add: page_at_def)
  have "f \<noteq> frame (cr3 s)" "f \<noteq> frame (pde_of s v)" using assms(2) p(2) by (auto simp: fresh_def)
  note clear = clear_words_frame [OF p(2-4) this, of 0 1024]
  have "zero_at (slots f 0) (phys s) = phys s" by (auto simp: zero_at_def slots_def)
  with clear p(1) show ?thesis by simp
qed

lemma zero_at_zero_at: "zero_at A (zero_at B ph) = zero_at (B \<union> A) ph"
  by (auto simp: zero_at_def fun_eq_iff)

lemma clear_run_pages:
  assumes "\<forall>j < k. page_at s (nth_page v j) (f j) \<and> fresh s (f j)"
  shows "clear_words (k * 1024) v s = Inr (s\<lparr>phys := zero_at (\<Union>j<k. slots (f j) 1024) (phys s)\<rparr>)"
  using assms
proof (induction k arbitrary: v s f)
  case 0
  show ?case by (simp add: zero_at_def)
next
  case (Suc k)
  let ?s = "s\<lparr>phys := zero_at (slots (f 0) 1024) (phys s)\<rparr>"
  have f0: "page_at s v (f 0)" "fresh s (f 0)" using Suc.prems [rule_format, of 0] by simp_all
  note zero = zero_fresh [OF f0(2)]
  have "\<forall>j < k. page_at ?s (nth_page (v + PG_SIZE) j) (f (Suc j)) \<and> fresh ?s (f (Suc j))"
    using Suc.prems by (simp add: zero(2) nth_page_Suc same_dir_walk(4) [OF zero(1)])
  note rest = Suc.IH [OF this]
  have U: "(\<Union>j<Suc k. slots (f j) 1024) = slots (f 0) 1024 \<union> (\<Union>j<k. slots (f (Suc j)) 1024)"
    by (simp add: lessThan_Suc_eq_insert_0 image_image)
  have "clear_words (1024 + k * 1024) v s = clear_words (k * 1024) (v + PG_SIZE) ?s"
    using clear_page [OF f0] by (simp only: clear_words_add) (simp add: PG_SIZE_def)
  also have "\<dots> = Inr (s\<lparr>phys := zero_at (\<Union>j<Suc k. slots (f j) 1024) (phys s)\<rparr>)"
    unfolding rest U by (simp add: zero_at_zero_at)
  finally show ?case by simp
qed

section \<open>The heap\<close>

definition heap_page :: "'a memory_machine_scheme \<Rightarrow> nat \<Rightarrow> u32" where
  "heap_page s i = nth_page (vaddr_start (kernel_vaddr s)) i"

abbreviation heap_bits :: "'a memory_machine_scheme \<Rightarrow> bitmap" where
  "heap_bits s \<equiv> vaddr_bitmap (kernel_vaddr s)"

abbreviation pool_bits :: "'a memory_machine_scheme \<Rightarrow> bitmap" where
  "pool_bits s \<equiv> pool_bitmap (kernel_pool s)"

abbreviation heap_frame :: "'a memory_machine_scheme \<Rightarrow> nat \<Rightarrow> u32" where
  "heap_frame s \<equiv> frame_of (kernel_pool s)"

text \<open>The addresses of the bytes of a page.\<close>

definition page_bytes :: "u32 \<Rightarrow> u32 set" where
  "page_bytes v = span v 4096"

text \<open>
  What does not change while the kernel runs: where the bitmaps, the pages and the frames of the heap
  lie, and that the page tables for all of the heap exist.
\<close>

definition heap_ok :: "'a memory_machine_scheme \<Rightarrow> bool" where
  "heap_ok s \<longleftrightarrow>
     frames_ok (kernel_pool s) \<and> inj_on (heap_frame s) {..<bm_cap (pool_bits s)} \<and> tables_ok s \<and>
     bm_small (heap_bits s) \<and> bm_bytes (heap_bits s) \<inter> bm_bytes (pool_bits s) = {} \<and>
     inj_on (\<lambda>j. pte_at s (heap_page s j)) {..<bm_cap (heap_bits s)} \<and>
     (\<forall>j < bm_cap (heap_bits s). let v = heap_page s j in
        v \<noteq> 0 \<and> frame v = v \<and> 768 \<le> unat (PDE_IDX v) \<and> unat (PDE_IDX v) < 1023 \<and> present (pde_of s v) \<and>
        page_bytes v \<inter> (bm_bytes (heap_bits s) \<union> bm_bytes (pool_bits s)) = {})"

text \<open>The pages below \<open>i\<close> are in use, the others free, and \<open>n\<close> more can be had.\<close>

definition heap_at :: "'a memory_machine_scheme \<Rightarrow> nat \<Rightarrow> nat \<Rightarrow> bool" where
  "heap_at s i n \<longleftrightarrow> heap_ok s \<and> i + n \<le> bm_cap (heap_bits s) \<and>
     (\<forall>j < bm_cap (heap_bits s). bm_free (heap_bits s) (mem s) j \<longleftrightarrow> i \<le> j) \<and>
     (\<forall>j < bm_cap (heap_bits s). i \<le> j \<longrightarrow> \<not> present (phys s (pte_at s (heap_page s j)))) \<and>
     (\<forall>j \<in> free_frames (kernel_pool s) (mem s). fresh s (heap_frame s j)) \<and>
     n \<le> card (free_frames (kernel_pool s) (mem s))"

text \<open>
  What a request for the pages from \<open>i\<close> on takes, when it gets the frames with the numbers \<open>fs\<close>: the bits
  of the pages and of the frames; the directory stays as it is, and no word changes but the table
  entries of the pages and the words of the frames.
\<close>

definition pages_taken ::
  "'a memory_machine_scheme \<Rightarrow> nat \<Rightarrow> nat list \<Rightarrow> memory \<Rightarrow> (u32 \<Rightarrow> u32) \<Rightarrow> bool" where
  "pages_taken s i fs m ph \<longleftrightarrow>
     distinct fs \<and> set fs \<subseteq> free_frames (kernel_pool s) (mem s) \<and>
     free_frames (kernel_pool s) m = free_frames (kernel_pool s) (mem s) - set fs \<and>
     (\<forall>j < bm_cap (heap_bits s). bm_free (heap_bits s) m j \<longleftrightarrow>
        bm_free (heap_bits s) (mem s) j \<and> j \<notin> {i..<i + length fs}) \<and> same_dir s ph \<and>
     (\<forall>a. (\<forall>j < length fs. a \<noteq> pte_at s (heap_page s (i + j)) \<and> frame a \<noteq> heap_frame s (fs ! j)) \<longrightarrow>
        ph a = phys s a)"

text \<open>What it gives: the pages mapped to the frames and cleared, and no other byte changed.\<close>

definition pages_got ::
  "'a memory_machine_scheme \<Rightarrow> nat \<Rightarrow> nat list \<Rightarrow> memory \<Rightarrow> (u32 \<Rightarrow> u32) \<Rightarrow> bool" where
  "pages_got s i fs m ph \<longleftrightarrow>
     (\<forall>j < length fs. ph (pte_at s (heap_page s (i + j))) = entry_for (heap_frame s (fs ! j))) \<and>
     (\<forall>j < length fs. \<forall>a \<in> slots (heap_frame s (fs ! j)) 1024. ph a = 0) \<and>
     (\<forall>j < length fs. \<forall>a \<in> page_bytes (heap_page s (i + j)). m a = 0) \<and>
     (\<forall>a. a \<notin> bm_bytes (heap_bits s) \<union> bm_bytes (pool_bits s) \<longrightarrow>
        (\<forall>j < length fs. a \<notin> page_bytes (heap_page s (i + j))) \<longrightarrow> m a = mem s a)"

lemma heap_page_plus: "nth_page (heap_page s i) j = heap_page s (i + j)"
  by (simp add: heap_page_def nth_page_def algebra_simps)

lemma heap_atD:
  "heap_at s i n \<Longrightarrow> heap_ok s" "heap_at s i n \<Longrightarrow> i + n \<le> bm_cap (heap_bits s)"
  "heap_at s i n \<Longrightarrow> j \<in> free_frames (kernel_pool s) (mem s) \<Longrightarrow> fresh s (heap_frame s j)"
  by (simp_all add: heap_at_def)

lemma heap_at_cong:
  fixes s :: "'a memory_machine_scheme" and s' :: "'b memory_machine_scheme"
  assumes "mem s' = mem s" "phys s' = phys s" "cr3 s' = cr3 s" "kernel_pool s' = kernel_pool s" "kernel_vaddr s' = kernel_vaddr s"
  shows "heap_at s' i n \<longleftrightarrow> heap_at s i n"
  by (simp add: heap_at_def heap_ok_def heap_page_def tables_ok_def fresh_def assms)

lemma heap_pageD:
  assumes "heap_ok s" "j < bm_cap (heap_bits s)"
  shows "heap_page s j \<noteq> 0" "frame (heap_page s j) = heap_page s j" "768 \<le> unat (PDE_IDX (heap_page s j))"
    "unat (PDE_IDX (heap_page s j)) < 1023" "present (pde_of s (heap_page s j))"
    "page_bytes (heap_page s j) \<inter> (bm_bytes (heap_bits s) \<union> bm_bytes (pool_bits s)) = {}"
    "frame (pde_of s (heap_page s j)) \<noteq> frame (cr3 s)"
proof -
  show p: "heap_page s j \<noteq> 0" "frame (heap_page s j) = heap_page s j" "768 \<le> unat (PDE_IDX (heap_page s j))"
    "unat (PDE_IDX (heap_page s j)) < 1023" "present (pde_of s (heap_page s j))"
    "page_bytes (heap_page s j) \<inter> (bm_bytes (heap_bits s) \<union> bm_bytes (pool_bits s)) = {}"
    using assms unfolding heap_ok_def Let_def by blast+
  have "PDE_IDX (heap_page s j) \<noteq> 1023" using p(4) by auto
  then show "frame (pde_of s (heap_page s j)) \<noteq> frame (cr3 s)"
    using assms(1) p(5) by (simp add: heap_ok_def tables_ok_def)
qed

lemma heap_scan:
  assumes "heap_at s i n" "0 < k" "k \<le> n" "k < 2 ^ 31"
  shows "bitmap_scan (heap_bits s) (of_nat k) (mem s) = Inr (of_nat i)"
proof -
  have h: "bm_small (heap_bits s)" "i + k \<le> bm_cap (heap_bits s)"
    "\<And>j. j < bm_cap (heap_bits s) \<Longrightarrow> bm_free (heap_bits s) (mem s) j \<longleftrightarrow> i \<le> j"
    using assms by (auto simp: heap_at_def heap_ok_def)
  have ex: "\<exists>j < bm_cap (heap_bits s). bm_free (heap_bits s) (mem s) j"
    using h assms(2) by (intro exI [of _ i]) simp
  show ?thesis
  proof (cases "k = 1")
    case True
    obtain j where j: "bitmap_scan (heap_bits s) 1 (mem s) = Inr (of_nat j)" "bm_free (heap_bits s) (mem s) j"
      "j < bm_cap (heap_bits s)" "\<forall>l < j. \<not> bm_free (heap_bits s) (mem s) l"
      using bitmap_scan_one [OF h(1) ex] by blast
    have "\<not> i < j" using j(4) h(2) h(3) [of i] assms(2) by auto
    then have "j = i" using h(3) [OF j(3)] j(2) by simp
    with j(1) True show ?thesis by simp
  next
    case False
    have run: "clear_run (heap_bits s) (mem s) i k" using h(2,3) by (auto simp: clear_run_def)
    have first: "\<not> clear_run (heap_bits s) (mem s) j k" if "j < i" for j
      using that h(3) [of j] h(2) assms(2) by (auto simp: clear_run_def intro!: bexI [of _ j])
    from bitmap_scan_many [OF h(1) ex, of k] False assms(2,4) run h(2) obtain j where
      j: "bitmap_scan (heap_bits s) (of_nat k) (mem s) = Inr (of_nat j)" "clear_run (heap_bits s) (mem s) j k"
      "\<forall>l < j. \<not> clear_run (heap_bits s) (mem s) l k"
      by (metis One_nat_def Suc_lessI trans_le_add1)
    then have "j = i" using run first by (meson linorder_neqE_nat)
    with j(1) show ?thesis by simp
  qed
qed

lemma heap_region:
  assumes "heap_at s i n" "k \<le> n"
  shows "region_ready s (heap_page s i) k"
proof -
  have h: "i + k \<le> bm_cap (heap_bits s)"
    "inj_on (\<lambda>j. pte_at s (heap_page s j)) {..<bm_cap (heap_bits s)}"
    "\<And>j. j < bm_cap (heap_bits s) \<Longrightarrow> PDE_IDX (heap_page s j) \<noteq> 1023 \<and> present (pde_of s (heap_page s j))"
    "\<And>j. j < bm_cap (heap_bits s) \<Longrightarrow> i \<le> j \<Longrightarrow> \<not> present (phys s (pte_at s (heap_page s j)))"
    using assms by (auto simp: heap_at_def heap_ok_def Let_def)
  have "inj_on (\<lambda>j. pte_at s (heap_page s (i + j))) {..<k}"
  proof (rule inj_onI)
    fix x y assume "x \<in> {..<k}" "y \<in> {..<k}" "pte_at s (heap_page s (i + x)) = pte_at s (heap_page s (i + y))"
    then have "i + x = i + y" using h(1) by (intro inj_onD [OF h(2)]) auto
    then show "x = y" by simp
  qed
  then show ?thesis using h by (simp add: region_ready_def heap_page_plus)
qed

lemma heap_malloc:
  fixes s :: "'a memory_machine_scheme"
  assumes h: "heap_at s i n" and k: "0 < k" "k \<le> n" "k < 3840"
  shows "\<exists>fs s2. malloc_page PF_KERNEL (of_nat k) s = Inr (heap_page s i, s2) \<and> length fs = k \<and>
    run_mapped (kernel_pool s) (heap_page s i) fs
      (s\<lparr>mem := fold (bm_claim (heap_bits s)) [i..<i + k] (mem s)\<rparr>) s2"
proof -
  let ?s = "s\<lparr>mem := fold (bm_claim (heap_bits s)) [i..<i + k] (mem s)\<rparr>"
  have ok: "frames_ok (kernel_pool s)" "tables_ok s" "bm_small (heap_bits s)" "i + k \<le> bm_cap (heap_bits s)"
    "bm_bytes (heap_bits s) \<inter> bm_bytes (pool_bits s) = {}" "heap_page s i \<noteq> 0"
    "k \<le> card (free_frames (kernel_pool s) (mem s))"
    using h k by (auto simp: heap_at_def heap_ok_def Let_def)
  have uk: "unat (of_nat k :: u32) = k" using k by simp
  have "i + unat (of_nat k :: u32) < 2 ^ 32 - 1" using bm_small_cap [OF ok(3)] ok(4) uk by simp
  note get = vaddr_get_kernel [OF heap_scan [OF h k(1,2)] this, unfolded uk, folded heap_page_def]
  have "free_frames (kernel_pool s) (mem ?s) = free_frames (kernel_pool s) (mem s)"
    using free_frames_other [OF ok(5), of "[i..<i + k]"] ok(4) by simp
  moreover have "tables_ok ?s" "region_ready ?s (heap_page s i) k"
    using ok(2) heap_region [OF h k(2)] by (simp_all add: tables_ok_def region_ready_def)
  ultimately obtain fs s2 where run: "map_pages k (kernel_pool s) (heap_page s i) ?s = Inr (True, s2)" "length fs = k"
    "run_mapped (kernel_pool s) (heap_page s i) fs ?s s2"
    using map_pages_run [OF ok(1), of ?s "heap_page s i" k] ok(7) by auto
  have "(of_nat k :: u32) > 0 \<and> (of_nat k :: u32) < 3840" using k by (simp add: word_less_nat_alt)
  then have "malloc_page PF_KERNEL (of_nat k) s = Inr (heap_page s i, s2)"
    using get run(1) ok(6) k by (simp add: malloc_page_def)
  with run(2,3) show ?thesis by blast
qed

lemma span_pages: "span v (k * 4096) = (\<Union>j<k. page_bytes (nth_page v j))"
proof (induction k)
  case (Suc k)
  have "span v (k * 4096 + 4096) = span v (k * 4096) \<union> page_bytes (nth_page v k)"
    unfolding span_add page_bytes_def by (simp add: nth_page_def PG_SIZE_def del: span_numeral)
  then show ?case by (auto simp: Suc lessThan_Suc add.commute)
qed simp

lemma clear_pages_run:
  fixes s :: "'a memory_machine_scheme"
  assumes "\<forall>j < k. page_at s (nth_page v j) (f j) \<and> fresh s (f j)" "v \<noteq> 0" "k < 3840"
  shows "clear_pages v (of_nat k * PG_SIZE) s = Inr (s\<lparr>
     mem := (\<lambda>a. if a \<in> (\<Union>j<k. page_bytes (nth_page v j)) then 0 else mem s a),
     phys := zero_at (\<Union>j<k. slots (f j) 1024) (phys s)\<rparr>)"
proof -
  define m where "m = (\<lambda>a. if a \<in> (\<Union>j<k. page_bytes (nth_page v j)) then 0 else mem s a)"
  have sz: "unat (of_nat k * PG_SIZE) = k * 4096"
    using assms(3) unat_of_nat_u32 [of "k * 4096"] by (simp add: PG_SIZE_def)
  have "memset (mem s) v 0 (of_nat k * PG_SIZE) = Inr m"
    using assms(2,3) by (simp add: memset_def memset_loop_eq write_bytes_replicate sz m_def span_pages)
  then have "clear_pages v (of_nat k * PG_SIZE) s = clear_words (k * 1024) v (s\<lparr>mem := m\<rparr>)"
    by (simp add: clear_pages_def sz mult.commute [of 1024])
  also have "\<forall>j < k. page_at (s\<lparr>mem := m\<rparr>) (nth_page v j) (f j) \<and> fresh (s\<lparr>mem := m\<rparr>) (f j)"
    using assms(1) by (simp add: page_at_def fresh_def)
  from clear_run_pages [OF this] have "clear_words (k * 1024) v (s\<lparr>mem := m\<rparr>) =
      Inr (s\<lparr>mem := m, phys := zero_at (\<Union>j<k. slots (f j) 1024) (phys s)\<rparr>)" by simp
  finally show ?thesis by (simp add: m_def)
qed

text \<open>Bits and frames only depend on the bytes of their bitmap.\<close>

lemma bm_free_cong:
  assumes "\<forall>a \<in> bm_bytes b. m a = m' a" "j < bm_cap b"
  shows "bm_free b m j \<longleftrightarrow> bm_free b m' j"
proof -
  have "bits b + of_nat (j div 8) \<in> bm_bytes b"
    using assms(2) by (auto simp: bm_bytes_def mem_span_iff bm_cap_def intro!: exI [of _ "j div 8"])
  with assms(1) show ?thesis by (simp add: bm_free_def)
qed

lemma free_frames_cong:
  "\<forall>a \<in> bm_bytes (pool_bitmap p). m a = m' a \<Longrightarrow> free_frames p m = free_frames p m'"
  using bm_free_cong [of "pool_bitmap p"] by (auto simp: free_frames_def)

lemma claims_outside:
  "a \<notin> bm_bytes b \<Longrightarrow> \<forall>i \<in> set is. i < bm_cap b \<Longrightarrow> fold (bm_claim b) is m a = m a"
  by (induction "is" arbitrary: m) (simp_all add: claim_outside bm_bytes_def bm_cap_def)

lemma heap_mapped:
  fixes s :: "'a memory_machine_scheme"
  assumes h: "heap_at s i n" and k: "0 < k" "k \<le> n" "k < 3840"
  obtains fs m ph where "malloc_page PF_KERNEL (of_nat k) s = Inr (heap_page s i, s\<lparr>mem := m, phys := ph\<rparr>)"
    "length fs = k" "distinct fs" "set fs \<subseteq> free_frames (kernel_pool s) (mem s)"
    "free_frames (kernel_pool s) m = free_frames (kernel_pool s) (mem s) - set fs"
    "\<forall>j < bm_cap (heap_bits s). bm_free (heap_bits s) m j \<longleftrightarrow> bm_free (heap_bits s) (mem s) j \<and> j \<notin> {i..<i + k}"
    "\<forall>j < k. ph (pte_at s (heap_page s (i + j))) = entry_for (heap_frame s (fs ! j))"
    "\<forall>a. (\<forall>j < k. a \<noteq> pte_at s (heap_page s (i + j))) \<longrightarrow> ph a = phys s a"
    "\<forall>a. a \<notin> bm_bytes (heap_bits s) \<union> bm_bytes (pool_bits s) \<longrightarrow> m a = mem s a"
proof -
  let ?m = "fold (bm_claim (heap_bits s)) [i..<i + k] (mem s)"
  have ok: "bm_small (heap_bits s)" "i + k \<le> bm_cap (heap_bits s)"
    "bm_bytes (heap_bits s) \<inter> bm_bytes (pool_bits s) = {}"
    using h k by (auto simp: heap_at_def heap_ok_def)
  have cap: "bm_cap (heap_bits s) < 2 ^ 31" using ok(1) by (rule bm_small_cap)
  obtain fs s2 where s2: "malloc_page PF_KERNEL (of_nat k) s = Inr (heap_page s i, s2)" "length fs = k"
    "run_mapped (kernel_pool s) (heap_page s i) fs (s\<lparr>mem := ?m\<rparr>) s2"
    using heap_malloc [OF h k] by blast
  have ff: "free_frames (kernel_pool s) ?m = free_frames (kernel_pool s) (mem s)"
    using free_frames_other [OF ok(3), of "[i..<i + k]"] ok(2) by simp
  note run = s2(3) [unfolded run_mapped_def heap_page_plus s2(2)]
  have fs: "\<forall>x \<in> set fs. x < bm_cap (pool_bits s)" and m2: "mem s2 = fold (bm_claim (pool_bits s)) fs ?m"
    using run by (auto simp: free_frames_def)
  have bits: "bm_free (heap_bits s) (mem s2) j \<longleftrightarrow> bm_free (heap_bits s) (mem s) j \<and> j \<notin> {i..<i + k}"
    if "j < bm_cap (heap_bits s)" for j
    using claims_keep_other [of "pool_bits s" "heap_bits s" fs j ?m] fs that ok(2,3) cap
      bm.free_after_claims [of i k j "heap_bits s" "mem s"] by (simp add: m2 inf_commute)
  have out: "mem s2 a = mem s a" if "a \<notin> bm_bytes (heap_bits s) \<union> bm_bytes (pool_bits s)" for a
    using claims_outside [of a "pool_bits s" fs ?m] claims_outside [of a "heap_bits s" "[i..<i + k]" "mem s"]
      that fs ok(2) by (simp add: m2)
  define m ph where "m = mem s2" and "ph = phys s2"
  have "s2 = (s\<lparr>mem := ?m\<rparr>)\<lparr>mem := m, phys := ph\<rparr>" using run unfolding m_def ph_def by blast
  then have s2': "s2 = s\<lparr>mem := m, phys := ph\<rparr>" by simp
  show thesis
  proof (rule that)
    show "malloc_page PF_KERNEL (of_nat k) s = Inr (heap_page s i, s\<lparr>mem := m, phys := ph\<rparr>)"
      using s2(1) by (simp only: s2')
    show "\<forall>j < k. ph (pte_at s (heap_page s (i + j))) = entry_for (heap_frame s (fs ! j))"
      "\<forall>a. (\<forall>j < k. a \<noteq> pte_at s (heap_page s (i + j))) \<longrightarrow> ph a = phys s a"
      using run unfolding ph_def by simp_all
    show "distinct fs" "set fs \<subseteq> free_frames (kernel_pool s) (mem s)"
      "free_frames (kernel_pool s) m = free_frames (kernel_pool s) (mem s) - set fs"
      using run ff unfolding m_def by auto
  qed (use s2(2) bits out in \<open>simp_all add: m_def\<close>)
qed

lemma run_off_tables:
  assumes "heap_at s i n" "k \<le> n"
    and "\<forall>a. (\<forall>j < k. a \<noteq> pte_at s (heap_page s (i + j))) \<longrightarrow> ph a = phys s a"
  shows "same_dir s ph"
proof -
  have "frame (pte_at s (heap_page s (i + j))) \<noteq> frame (cr3 s)" if "j < k" for j
    using heap_pageD(7) [of s "i + j"] heap_atD [OF assms(1)] assms(2) that by simp
  with assms(3) show ?thesis unfolding same_dir_def by metis
qed

text \<open>The pages of a run are mapped to frames that are neither the directory nor tables.\<close>

lemma run_pages_at:
  assumes h: "heap_at s i n" and k: "length fs \<le> n" and fs: "set fs \<subseteq> free_frames (kernel_pool s) (mem s)"
    and ph: "\<forall>j < length fs. ph (pte_at s (heap_page s (i + j))) = entry_for (heap_frame s (fs ! j))" "same_dir s ph"
    and j: "j < length fs"
  shows "page_at (s\<lparr>mem := m, phys := ph\<rparr>) (heap_page s (i + j)) (heap_frame s (fs ! j))"
    "fresh (s\<lparr>mem := m, phys := ph\<rparr>) (heap_frame s (fs ! j))"
proof -
  have f: "fs ! j \<in> free_frames (kernel_pool s) (mem s)" using fs j by auto
  have "fresh s (heap_frame s (fs ! j))" using h f by (simp add: heap_at_def)
  then show "fresh (s\<lparr>mem := m, phys := ph\<rparr>) (heap_frame s (fs ! j))"
    by (simp add: fresh_def same_dir_walk [OF ph(2)])
  have "frame (heap_frame s (fs ! j)) = heap_frame s (fs ! j)"
    using h f by (auto simp: heap_at_def heap_ok_def frames_ok_def free_frames_def)
  then show "page_at (s\<lparr>mem := m, phys := ph\<rparr>) (heap_page s (i + j)) (heap_frame s (fs ! j))"
    using h k j ph(1) by (simp add: page_at_def heap_at_def heap_ok_def Let_def same_dir_walk [OF ph(2)])
qed

text \<open>The frames and pages of a mapped run, cleared.\<close>

lemma cleared_run:
  fixes s :: "'a memory_machine_scheme" and m :: memory
  assumes h: "heap_at s i n" and k: "length fs \<le> n"
    and taken: "pages_taken s i fs m ph"
    and pte: "\<forall>j < length fs. ph (pte_at s (heap_page s (i + j))) = entry_for (heap_frame s (fs ! j))"
    and out: "\<forall>a. a \<notin> bm_bytes (heap_bits s) \<union> bm_bytes (pool_bits s) \<longrightarrow> m a = mem s a"
  defines "m' \<equiv> \<lambda>a. if a \<in> (\<Union>j<length fs. page_bytes (heap_page s (i + j))) then 0 else m a"
    and "ph' \<equiv> zero_at (\<Union>j<length fs. slots (heap_frame s (fs ! j)) 1024) ph"
  shows "pages_taken s i fs m' ph'" "pages_got s i fs m' ph'"
proof -
  have t: "distinct fs" "set fs \<subseteq> free_frames (kernel_pool s) (mem s)"
    "free_frames (kernel_pool s) m = free_frames (kernel_pool s) (mem s) - set fs" "same_dir s ph"
    "\<forall>j < bm_cap (heap_bits s). bm_free (heap_bits s) m j \<longleftrightarrow>
       bm_free (heap_bits s) (mem s) j \<and> j \<notin> {i..<i + length fs}"
    "\<And>a. \<forall>j < length fs. a \<noteq> pte_at s (heap_page s (i + j)) \<and> frame a \<noteq> heap_frame s (fs ! j) \<Longrightarrow> ph a = phys s a"
    using taken by (simp_all add: pages_taken_def)
  have page: "page_bytes (heap_page s (i + j)) \<inter> (bm_bytes (heap_bits s) \<union> bm_bytes (pool_bits s)) = {}"
    "present (pde_of s (heap_page s (i + j)))" if "j < length fs" for j
    using heap_pageD(5,6) [of s "i + j"] heap_atD(1,2) [OF h] k that by simp_all
  have fresh: "fresh s (heap_frame s (fs ! j))" if "j < length fs" for j
    using heap_atD(3) [OF h] t(2) that nth_mem [of j fs] by blast
  have slot: "ph' a = ph a" if a: "\<forall>j < length fs. frame a \<noteq> heap_frame s (fs ! j)" for a
  proof -
    have "a \<notin> slots (heap_frame s (fs ! j)) 1024" if "j < length fs" for j
      using fresh [OF that] frame_in_slots [of a "heap_frame s (fs ! j)" 1024] a that by (auto simp: fresh_def)
    then show ?thesis by (auto simp: ph'_def zero_at_def)
  qed
  have bits: "m' a = m a" if "a \<in> bm_bytes (heap_bits s) \<union> bm_bytes (pool_bits s)" for a
    using page(1) that by (auto simp: m'_def)
  have dir: "same_dir s ph'"
  proof -
    have "\<forall>j < length fs. heap_frame s (fs ! j) \<noteq> frame (cr3 s)" using fresh by (simp add: fresh_def)
    then show ?thesis using t(4) slot unfolding same_dir_def by metis
  qed
  show "pages_taken s i fs m' ph'"
    using t free_frames_cong [of "kernel_pool s" m' m] bm_free_cong [of "heap_bits s" m' m] bits dir slot
    unfolding pages_taken_def by simp
  have "ph' (pte_at s (heap_page s (i + j))) = entry_for (heap_frame s (fs ! j))" if j: "j < length fs" for j
  proof -
    have "\<forall>l < length fs. frame (pte_at s (heap_page s (i + j))) \<noteq> heap_frame s (fs ! l)"
      using page(2) [OF j] fresh by (auto simp: fresh_def)
    then show ?thesis using slot pte j by simp
  qed
  then show "pages_got s i fs m' ph'"
    using out unfolding pages_got_def by (auto simp: m'_def ph'_def zero_at_def)
qed

lemma heap_get:
  fixes s :: "'a memory_machine_scheme"
  assumes h: "heap_at s i n" and k: "0 < k" "k \<le> n" "k < 3840"
  obtains fs m ph where "get_kernel_pages (of_nat k) s = Inr (heap_page s i, s\<lparr>mem := m, phys := ph\<rparr>)"
    "length fs = k" "pages_taken s i fs m ph" "pages_got s i fs m ph"
proof -
  obtain fs m ph where mp: "malloc_page PF_KERNEL (of_nat k) s = Inr (heap_page s i, s\<lparr>mem := m, phys := ph\<rparr>)"
    "length fs = k" "distinct fs" "set fs \<subseteq> free_frames (kernel_pool s) (mem s)"
    "free_frames (kernel_pool s) m = free_frames (kernel_pool s) (mem s) - set fs"
    "\<forall>j < bm_cap (heap_bits s). bm_free (heap_bits s) m j \<longleftrightarrow> bm_free (heap_bits s) (mem s) j \<and> j \<notin> {i..<i + k}"
    "\<forall>j < k. ph (pte_at s (heap_page s (i + j))) = entry_for (heap_frame s (fs ! j))"
    "\<forall>a. (\<forall>j < k. a \<noteq> pte_at s (heap_page s (i + j))) \<longrightarrow> ph a = phys s a"
    "\<forall>a. a \<notin> bm_bytes (heap_bits s) \<union> bm_bytes (pool_bits s) \<longrightarrow> m a = mem s a"
    by (rule heap_mapped [OF h k])
  have dir: "same_dir s ph" using run_off_tables [OF h k(2) mp(8)] .
  then have taken: "pages_taken s i fs m ph" using mp by (simp add: pages_taken_def)
  have pages: "\<forall>j < k. page_at (s\<lparr>mem := m, phys := ph\<rparr>) (nth_page (heap_page s i) j) (heap_frame s (fs ! j)) \<and>
      fresh (s\<lparr>mem := m, phys := ph\<rparr>) (heap_frame s (fs ! j))"
    using run_pages_at [OF h _ mp(4) _ dir] k mp(2,7) by (simp add: heap_page_plus)
  have nz: "heap_page s i \<noteq> 0" using heap_atD [OF h] heap_pageD(1) [of s i] k by simp
  show thesis
  proof (rule that)
    show "get_kernel_pages (of_nat k) s = Inr (heap_page s i, s\<lparr>
        mem := \<lambda>a. if a \<in> (\<Union>j<length fs. page_bytes (heap_page s (i + j))) then 0 else m a,
        phys := zero_at (\<Union>j<length fs. slots (heap_frame s (fs ! j)) 1024) ph\<rparr>)"
      using mp(1) clear_pages_run [OF pages nz k(3)] nz
      by (simp add: get_kernel_pages_def heap_page_plus mp(2) cong: if_cong)
  qed (use cleared_run [OF h _ taken] k mp in simp_all)
qed

lemma heap_ok_same:
  assumes "same_dir s ph"
  shows "heap_ok (s\<lparr>mem := m, phys := ph\<rparr>) \<longleftrightarrow> heap_ok s"
proof -
  note walk = same_dir_walk [OF assms]
  have "tables_ok (s\<lparr>mem := m, phys := ph\<rparr>) \<longleftrightarrow> tables_ok (s\<lparr>phys := ph\<rparr>)" by (simp add: tables_ok_def)
  then show ?thesis by (simp add: heap_ok_def heap_page_def walk Let_def)
qed

lemma heap_after:
  assumes h: "heap_at s i n" and k: "length fs \<le> n" and got: "pages_taken s i fs m ph"
  shows "heap_at (s\<lparr>mem := m, phys := ph\<rparr>) (i + length fs) (n - length fs)"
proof -
  let ?F = "free_frames (kernel_pool s) (mem s)" and ?c = "bm_cap (heap_bits s)"
  have g: "distinct fs" "set fs \<subseteq> ?F" "free_frames (kernel_pool s) m = ?F - set fs" "same_dir s ph"
    "\<forall>j < ?c. bm_free (heap_bits s) m j \<longleftrightarrow> bm_free (heap_bits s) (mem s) j \<and> j \<notin> {i..<i + length fs}"
    "\<And>a. \<forall>j < length fs. a \<noteq> pte_at s (heap_page s (i + j)) \<and> frame a \<noteq> heap_frame s (fs ! j) \<Longrightarrow> ph a = phys s a"
    using got by (simp_all add: pages_taken_def)
  have inj: "inj_on (\<lambda>j. pte_at s (heap_page s j)) {..<?c}" using heap_atD(1) [OF h] by (simp add: heap_ok_def)
  have un: "\<not> present (ph (pte_at s (heap_page s j)))" if j: "j < ?c" "i + length fs \<le> j" for j
  proof -
    have "pte_at s (heap_page s j) \<noteq> pte_at s (heap_page s (i + l))" if "l < length fs" for l
      using inj_onD [OF inj, of j "i + l"] j that by auto
    moreover have "frame (pte_at s (heap_page s j)) \<noteq> heap_frame s (fs ! l)" if "l < length fs" for l
      using heap_atD(3) [OF h, of "fs ! l"] g(2) nth_mem [OF that] heap_pageD(5) [OF heap_atD(1) [OF h] j(1)]
      by (auto simp: fresh_def)
    ultimately have "ph (pte_at s (heap_page s j)) = phys s (pte_at s (heap_page s j))" by (intro g(6)) blast
    then show ?thesis using h j by (simp add: heap_at_def)
  qed
  have "finite ?F" by (simp add: free_frames_def)
  then have "card (?F - set fs) = card ?F - length fs"
    using g(1,2) by (simp add: card_Diff_subset distinct_card)
  moreover have "fresh (s\<lparr>mem := m, phys := ph\<rparr>) (heap_frame s j)" if "j \<in> ?F" for j
    using heap_atD(3) [OF h that] by (simp add: fresh_def same_dir_walk [OF g(4)])
  ultimately show ?thesis
    using h k g(3,5) un heap_ok_same [OF g(4), of m]
    by (auto simp: heap_at_def heap_page_def same_dir_walk [OF g(4)])
qed

lemma taken_maps_other:
  assumes h: "heap_at s i n" and k: "length fs \<le> n" and taken: "pages_taken s i fs m ph"
    and w: "\<forall>j < length fs. pte_at s w \<noteq> pte_at s (heap_page s (i + j))"
  shows "present (pde_of s w) \<Longrightarrow> ph (pte_at s w) = phys s (pte_at s w)"
    "maps (s\<lparr>mem := m, phys := ph\<rparr>) w = maps s w"
proof -
  have t: "set fs \<subseteq> free_frames (kernel_pool s) (mem s)" "same_dir s ph"
    "\<And>a. \<forall>j < length fs. a \<noteq> pte_at s (heap_page s (i + j)) \<and> frame a \<noteq> heap_frame s (fs ! j) \<Longrightarrow> ph a = phys s a"
    using taken by (simp_all add: pages_taken_def)
  show pt: "ph (pte_at s w) = phys s (pte_at s w)" if "present (pde_of s w)"
  proof (rule t(3), intro allI impI conjI)
    fix j assume j: "j < length fs"
    then show "pte_at s w \<noteq> pte_at s (heap_page s (i + j))" using w by blast
    show "frame (pte_at s w) \<noteq> heap_frame s (fs ! j)"
      using heap_atD(3) [OF h, of "fs ! j"] t(1) nth_mem [OF j] that by (auto simp: fresh_def)
  qed
  show "maps (s\<lparr>mem := m, phys := ph\<rparr>) w = maps s w"
    using pt by (cases "present (pde_of s w)") (simp_all add: translate_def same_dir_walk [OF t(2)])
qed

section \<open>What the heap promises\<close>

text \<open>
  C8: \<^verbatim>\<open>get_kernel_pages\<close> for any number of pages that the heap can still give: the lowest free
  pages are returned, mapped to different frames that were free and cleared, in the bytes and in the
  words; the heap's invariant holds again with so many pages fewer to be had, and no other page's
  translation changes.
\<close>

theorem kernel_pages_allocated:
  fixes s :: "'a memory_machine_scheme"
  assumes "heap_at s i n" "0 < k" "k \<le> n" "k < 3840"
  shows "\<exists>fs m ph. get_kernel_pages (of_nat k) s = Inr (heap_page s i, s\<lparr>mem := m, phys := ph\<rparr>) \<and>
    length fs = k \<and> distinct fs \<and> set fs \<subseteq> free_frames (kernel_pool s) (mem s) \<and>
    (let s' = s\<lparr>mem := m, phys := ph\<rparr> in
      heap_at s' (i + k) (n - k) \<and>
      (\<forall>j < k. maps s' (heap_page s (i + j)) = Some (heap_frame s (fs ! j)) \<and>
        (\<forall>a \<in> page_bytes (heap_page s (i + j)). m a = 0) \<and> (\<forall>a \<in> slots (heap_frame s (fs ! j)) 1024. ph a = 0)) \<and>
      (\<forall>w. (\<forall>j < k. pte_at s w \<noteq> pte_at s (heap_page s (i + j))) \<longrightarrow> maps s' w = maps s w))"
proof -
  obtain fs m ph where g: "get_kernel_pages (of_nat k) s = Inr (heap_page s i, s\<lparr>mem := m, phys := ph\<rparr>)"
    "length fs = k" "pages_taken s i fs m ph" "pages_got s i fs m ph"
    by (rule heap_get [OF assms])
  have k: "length fs \<le> n" using g(2) assms(3) by simp
  have "maps (s\<lparr>mem := m, phys := ph\<rparr>) (heap_page s (i + j)) = Some (heap_frame s (fs ! j))" if "j < k" for j
  proof -
    have "page_at (s\<lparr>mem := m, phys := ph\<rparr>) (heap_page s (i + j)) (heap_frame s (fs ! j))"
      using run_pages_at(1) [OF assms(1) k, of ph j m] g(2-4) that by (simp add: pages_taken_def pages_got_def)
    then show ?thesis using frame_and_fff [of "heap_page s (i + j)"] by (simp add: page_at_def translate_def)
  qed
  moreover note heap_after [OF assms(1) k g(3)] taken_maps_other(2) [OF assms(1) k g(3)]
  ultimately show ?thesis
    using g unfolding Let_def
    by (intro exI [of _ fs] exI [of _ m] exI [of _ ph]) (simp add: pages_taken_def pages_got_def)
qed

section \<open>Where the pages lie\<close>

lemma frame_page_byte:
  assumes "frame v = v" "a \<in> page_bytes v"
  shows "frame a = v"
proof -
  obtain k where k: "k < 4096" "a = v + of_nat k" using assms(2) unfolding page_bytes_def mem_span_iff by blast
  have "(of_nat k :: u32) AND 0xfff = of_nat k"
    using k(1) by (simp add: word_and_fff word_unat_eq_iff unat_mod)
  then show ?thesis using frame_offset [of v "of_nat k"] assms(1) k(2) by simp
qed

text \<open>The page with the number \<open>k\<close>, of the 1048576 pages of the address space.\<close>

definition page_no :: "nat \<Rightarrow> u32" where
  "page_no k = push_bit 12 (of_nat k)"

lemma nth_page_no: "nth_page (page_no b) j = page_no (b + j)"
  by (simp add: page_no_def nth_page_def PG_SIZE_def push_bit_eq_mult algebra_simps)

lemma frame_page_no [simp]: "frame (page_no k) = page_no k"
  by (rule bit_word_eqI) (auto simp: page_no_def bit_simps)

lemma unat_page_no: "k < 2 ^ 20 \<Longrightarrow> unat (page_no k) = k * 4096"
  using unat_of_nat_u32 [of "k * 4096"] by (simp add: page_no_def push_bit_eq_mult mult.commute)

lemma page_no_inject: "j < 2 ^ 20 \<Longrightarrow> k < 2 ^ 20 \<Longrightarrow> page_no j = page_no k \<longleftrightarrow> j = k"
  by (auto dest: arg_cong [where f = unat] simp: unat_page_no)

lemma unat_PDE_IDX: "unat (PDE_IDX v) = unat v div 2 ^ 22"
proof -
  have "PDE_IDX v = drop_bit 22 v" by (rule bit_word_eqI) (auto simp: bit_simps dest: bit_imp_le_length)
  then show ?thesis by (simp add: drop_bit_eq_div unat_div)
qed

lemma PDE_IDX_page_no: "k < 2 ^ 20 \<Longrightarrow> unat (PDE_IDX (page_no k)) = k div 1024"
  by (simp add: unat_PDE_IDX unat_page_no div_mult2_eq [of _ 4096 1024, simplified, symmetric])

lemma PTE_IDX_page_no: "k < 2 ^ 20 \<Longrightarrow> unat (PTE_IDX (page_no k)) = k mod 1024"
proof -
  assume k: "k < 2 ^ 20"
  have "PTE_IDX v = take_bit 10 (drop_bit 12 v)" for v by (rule bit_word_eqI) (auto simp: bit_simps)
  then show ?thesis
    using k by (simp add: take_bit_eq_mod drop_bit_eq_div unat_mod unat_div unat_page_no)
qed

text \<open>A heap of \<open>c\<close> pages from page number \<open>b\<close> on, whose page tables exist and are different.\<close>

lemma heap_pages_ok:
  fixes s :: "'a memory_machine_scheme"
  assumes base: "vaddr_start (kernel_vaddr s) = page_no b" "768 * 1024 \<le> b" "b + c \<le> 1023 * 1024"
    and tabs: "\<And>w. b div 1024 \<le> unat (PDE_IDX w) \<Longrightarrow> unat (PDE_IDX w) \<le> (b + c) div 1024 \<Longrightarrow>
        unat (PDE_IDX w) < 1023 \<Longrightarrow> present (pde_of s w)"
    and diff: "\<And>v w. b div 1024 \<le> unat (PDE_IDX v) \<Longrightarrow> unat (PDE_IDX v) \<le> (b + c) div 1024 \<Longrightarrow>
        unat (PDE_IDX v) < 1023 \<Longrightarrow> b div 1024 \<le> unat (PDE_IDX w) \<Longrightarrow> unat (PDE_IDX w) \<le> (b + c) div 1024 \<Longrightarrow>
        unat (PDE_IDX w) < 1023 \<Longrightarrow> frame (pde_of s v) = frame (pde_of s w) \<Longrightarrow> PDE_IDX v = PDE_IDX w"
    and low: "\<And>a. a \<in> B \<Longrightarrow> unat a < b * 4096"
  shows "inj_on (\<lambda>j. pte_at s (heap_page s j)) {..<c}"
    and "\<forall>j < c. let v = heap_page s j in v \<noteq> 0 \<and> frame v = v \<and> 768 \<le> unat (PDE_IDX v) \<and>
      unat (PDE_IDX v) < 1023 \<and> present (pde_of s v) \<and> page_bytes v \<inter> B = {}"
proof -
  have page: "heap_page s j = page_no (b + j)" for j by (simp add: heap_page_def base nth_page_no)
  have idx: "unat (PDE_IDX (heap_page s j)) = (b + j) div 1024" if "j < c" for j
    using that base by (simp add: page PDE_IDX_page_no)
  have rng: "b div 1024 \<le> (b + j) div 1024" "(b + j) div 1024 \<le> (b + c) div 1024" "(b + j) div 1024 < 1023"
    "768 \<le> (b + j) div 1024" if "j < c" for j
    using that base(2,3) by (auto intro: div_le_mono)
  show "inj_on (\<lambda>j. pte_at s (heap_page s j)) {..<c}"
  proof (rule inj_onI)
    fix x y assume x: "x \<in> {..<c}" "y \<in> {..<c}" and eq: "pte_at s (heap_page s x) = pte_at s (heap_page s y)"
    then have "PDE_IDX (heap_page s x) = PDE_IDX (heap_page s y)" "PTE_IDX (heap_page s x) = PTE_IDX (heap_page s y)"
      using diff [of "heap_page s x" "heap_page s y"] idx rng by (simp_all add: pte_addr_eq_iff)
    then have "frame (page_no (b + x)) = frame (page_no (b + y))" using page_eq_iff by (metis page)
    then show "x = y" using x base(3) by (simp add: page_no_inject)
  qed
  have "page_bytes (heap_page s j) \<inter> B = {}" if j: "j < c" for j
  proof -
    have "b * 4096 \<le> unat a" if "a \<in> page_bytes (heap_page s j)" for a
    proof -
      have "frame a = page_no (b + j)" using frame_page_byte [OF _ that] by (simp add: page)
      moreover have "unat (frame a) \<le> unat a" by (simp add: frame_def flip: word_le_nat_alt) (rule word_and_le2)
      ultimately show ?thesis using unat_page_no [of "b + j"] j base(3) by simp
    qed
    with low show ?thesis by (meson disjoint_iff not_less)
  qed
  moreover have "heap_page s j \<noteq> 0" if "j < c" for j
    using unat_page_no [of "b + j"] that base by (auto simp: page)
  ultimately show "\<forall>j < c. let v = heap_page s j in v \<noteq> 0 \<and> frame v = v \<and> 768 \<le> unat (PDE_IDX v) \<and>
      unat (PDE_IDX v) < 1023 \<and> present (pde_of s v) \<and> page_bytes v \<inter> B = {}"
    using idx rng tabs by (simp add: page)
qed

section \<open>A small heap\<close>

text \<open>Thirty-two pages from 0xc0200000 on and as many frames from 0x300000 on.\<close>

definition demo_frames :: pool where
  "demo_frames = demo_pool\<lparr>pool_bitmap := \<lparr>btmp_bytes_len = 4, bits = 0x5000\<rparr>\<rparr>"

definition demo_heap :: process_machine where
  "demo_heap = demo_process\<lparr>mem := (\<lambda>_. 0), kernel_pool := demo_frames,
     kernel_vaddr := \<lparr>vaddr_bitmap = \<lparr>btmp_bytes_len = 4, bits = 0x5010\<rparr>, vaddr_start = 0xc0200000\<rparr>\<rparr>"

lemma demo_heap_fields [simp]:
  "mem demo_heap = (\<lambda>_. 0)" "kernel_pool demo_heap = demo_frames"
  "kernel_vaddr demo_heap = \<lparr>vaddr_bitmap = \<lparr>btmp_bytes_len = 4, bits = 0x5010\<rparr>, vaddr_start = 0xc0200000\<rparr>"
  "cr3 demo_heap = cr3 demo_mmu" "phys demo_heap = phys demo_mmu"
  by (simp_all add: demo_heap_def)

lemma demo_frames_no: "frame_of demo_frames j = page_no (0x300 + j)"
  by (simp add: frame_of_def demo_frames_def demo_pool_def PG_SIZE_def page_no_def push_bit_eq_mult algebra_simps)

lemma demo_frames_ok: "frames_ok demo_frames"
proof -
  have "page_no (0x300 + j) \<noteq> 0" if "j < 32" for j using unat_page_no [of "0x300 + j"] that by auto
  then show ?thesis by (simp add: frames_ok_def pool_ok_def bm_small_def bm_cap_def demo_frames_no)
      (simp add: demo_frames_def)
qed

lemma demo_frames_free: "free_frames demo_frames (\<lambda>_. 0) = {..<32}"
  by (auto simp: free_frames_def demo_frames_def bm_cap_def bm_free_def)

lemma demo_heap_frames:
  "inj_on (frame_of demo_frames) {..<32}" "j < 32 \<Longrightarrow> fresh demo_heap (frame_of demo_frames j)"
proof -
  note f = demo_frames_no
  show "inj_on (frame_of demo_frames) {..<32}" by (rule inj_onI) (simp add: f page_no_inject)
  show "fresh demo_heap (frame_of demo_frames j)" if "j < 32"
  proof -
    have "unat (page_no (0x300 + j)) = (0x300 + j) * 4096" using that by (intro unat_page_no) simp
    then have "page_no (0x300 + j) \<noteq> 0x100000" "page_no (0x300 + j) \<noteq> 0x101000" by auto
    moreover have "pde_addr 0x100000 w \<noteq> 0x101400" for w
      using frame_pde_addr [of "0x100000" w] by (auto simp: frame_def)
    ultimately show ?thesis by (auto simp: f fresh_def) (auto simp: frame_def present_def)
  qed
qed

lemma demo_heap_at: "heap_at demo_heap 0 32"
proof -
  let ?B = "bm_bytes \<lparr>btmp_bytes_len = 4, bits = 0x5010\<rparr> \<union> bm_bytes (pool_bitmap demo_frames)"
  have B: "?B = {0x5010, 0x5011, 0x5012, 0x5013, 0x5000, 0x5001, 0x5002, 0x5003}"
    by (auto simp: bm_bytes_def demo_frames_def)
  have base: "vaddr_start (kernel_vaddr demo_heap) = page_no 0xc0200" by (simp add: page_no_def push_bit_eq_mult)
  have "present (pde_of demo_heap w)" if "unat (PDE_IDX w) = 768" for w
  proof -
    have "PDE_IDX w = 768" using that by (simp add: word_unat_eq_iff)
    then show ?thesis by (simp add: pde_addr_def frame_def present_def)
  qed
  then have pages: "inj_on (\<lambda>j. pte_at demo_heap (heap_page demo_heap j)) {..<32}"
    "\<forall>j < 32. let v = heap_page demo_heap j in v \<noteq> 0 \<and> frame v = v \<and> 768 \<le> unat (PDE_IDX v) \<and>
      unat (PDE_IDX v) < 1023 \<and> present (pde_of demo_heap v) \<and> page_bytes v \<inter> ?B = {}"
    by (intro heap_pages_ok [OF base, of 32 ?B]; force simp: B word_unat_eq_iff)+
  have "\<not> present (phys demo_heap (pte_at demo_heap (heap_page demo_heap j)))" if "j < 32" for j
  proof -
    have page: "heap_page demo_heap j = page_no (0xc0200 + j)" by (simp only: heap_page_def base nth_page_no)
    have "(0xc0200 + j) div 1024 = 768" using that by (intro div_nat_eqI) simp_all
    moreover have "(0xc0200 + j) mod 1024 = 512 + j" using that by (intro mod_nat_eqI) simp_all
    ultimately have pd: "PDE_IDX (page_no (0xc0200 + j)) = 768" and pt: "PTE_IDX (page_no (0xc0200 + j)) = of_nat (512 + j)"
      using that PDE_IDX_page_no [of "0xc0200 + j"] PTE_IDX_page_no [of "0xc0200 + j"] unat_of_nat_u32 [of "512 + j"]
      by (simp_all add: word_unat_eq_iff)
    have pde: "pde_of demo_heap (page_no (0xc0200 + j)) = 0x101007" by (simp add: pde_addr_def pd frame_def)
    have "pte_at demo_heap (heap_page demo_heap j) = of_nat (0x101000 + (512 + j) * 4)"
      by (simp only: page pte_addr_def pde pt) (simp add: frame_def)
    moreover have "unat (of_nat (0x101000 + (512 + j) * 4) :: u32) = 0x101000 + (512 + j) * 4"
      using that by (intro unat_of_nat_u32) simp
    ultimately have "0x101800 \<le> unat (pte_at demo_heap (heap_page demo_heap j))" by simp
    then show ?thesis by (auto simp: present_def)
  qed
  moreover have "tables_ok demo_heap" using demo_mem_tables by (simp add: tables_ok_def)
  moreover have "bm_cap (pool_bitmap demo_frames) = 32" "bm_cap \<lparr>btmp_bytes_len = 4, bits = 0x5010\<rparr> = 32"
    by (simp_all add: bm_cap_def demo_frames_def)
  moreover have "bm_bytes \<lparr>btmp_bytes_len = 4, bits = 0x5010\<rparr> \<inter> bm_bytes (pool_bitmap demo_frames) = {}"
    by (simp add: bm_bytes_def demo_frames_def)
  ultimately show ?thesis
    using demo_frames_ok demo_frames_free demo_heap_frames pages
    by (simp add: heap_at_def heap_ok_def bm_small_def bm_free_def)
qed

theorem kernel_pages_allocated_witness:
  "\<exists>s'. get_kernel_pages 3 demo_heap = Inr (0xc0200000, s') \<and> heap_at s' 3 29"
proof -
  have "heap_page demo_heap 0 = 0xc0200000" by (simp add: heap_page_def)
  then show ?thesis using kernel_pages_allocated [OF demo_heap_at, of 3] by (auto simp: Let_def)
qed

end
