(* ===== verification/Spawn.thy ===== *)
theory Spawn
  imports Heap
begin

text \<open>
  How the components work together when a thread or a process is started. \<^verbatim>\<open>thread_start\<close> of
  \<^verbatim>\<open>src/thread/thread.c\<close>: the heap hands out a page, \<^verbatim>\<open>init_thread\<close> and \<^verbatim>\<open>thread_create\<close> build the
  thread in it under the pid lock, and the two lists take it in. \<^verbatim>\<open>process_execute\<close> of
  \<^verbatim>\<open>src/userprog/process.c\<close>: besides, the bitmap of the user addresses and the page directory are
  made. The invariant \<open>system_at\<close> joins those of the heap, the lists, the pid lock and the address
  spaces; each step keeps it, and from it follows that the clock can switch between all threads.
\<close>

section \<open>No memory left\<close>

text \<open>
  The kernel's heap has no page left, or its pool no frame; in the second case no page of the heap
  lies at address 0.
\<close>

definition no_kernel_memory :: "'a memory_machine_scheme \<Rightarrow> bool" where
  "no_kernel_memory s \<longleftrightarrow>
     (let vb = vaddr_bitmap (kernel_vaddr s); p = kernel_pool s in
      (\<forall>i < bm_cap vb. \<not> bm_free vb (mem s) i) \<or>
      free_frames p (mem s) = {} \<and> pool_ok p \<and> bm_small vb \<and> bm_bytes vb \<inter> bm_bytes (pool_bitmap p) = {} \<and>
      (\<forall>i < bm_cap vb. heap_page s i \<noteq> 0))"

lemma no_kernel_memory_panics:
  assumes "no_kernel_memory s"
  shows "get_kernel_pages 1 s = Inl (Panic ''lib/bitmap.c'' 27)"
proof (cases "\<exists>i < bm_cap (vaddr_bitmap (kernel_vaddr s)). bm_free (vaddr_bitmap (kernel_vaddr s)) (mem s) i")
  case False
  then have "bitmap_scan (vaddr_bitmap (kernel_vaddr s)) 1 (mem s) = Inl (Panic ''lib/bitmap.c'' 27)"
    by (simp add: bitmap_scan_full)
  then show ?thesis by (simp add: get_kernel_pages_def malloc_page_def vaddr_get_def)
next
  case True
  let ?vb = "vaddr_bitmap (kernel_vaddr s)" and ?p = "kernel_pool s"
  have n: "free_frames ?p (mem s) = {}" "pool_ok ?p" "bm_small ?vb"
    "bm_bytes ?vb \<inter> bm_bytes (pool_bitmap ?p) = {}" "\<forall>i < bm_cap ?vb. heap_page s i \<noteq> 0"
    using assms True by (auto simp: no_kernel_memory_def Let_def)
  obtain i where i: "bitmap_scan ?vb 1 (mem s) = Inr (of_nat i)" "i < bm_cap ?vb"
    using bitmap_scan_one [OF n(3) True] by blast
  let ?s = "s\<lparr>mem := bm_claim ?vb i (mem s)\<rparr>"
  have get: "vaddr_get PF_KERNEL 1 s = Inr (heap_page s i, ?s)"
    using vaddr_get_kernel [of s 1 i] i bm_small_cap [OF n(3)] by (simp add: heap_page_def)
  have "free_frames ?p (mem ?s) = {}" using free_frames_other [OF n(4), of "[i]"] i n(1) by simp
  then have "palloc ?p ?s = Inl (Panic ''lib/bitmap.c'' 27)"
    by (cases rule: palloc_cases [OF n(2), of ?s]) (auto simp: free_frames_def)
  then show ?thesis using get n(5) i(2) by (simp add: get_kernel_pages_def malloc_page_def)
qed

text \<open>
  C28: when the kernel's memory is used up, none of the routines that allocate from it returns: the
  assertion in \<^verbatim>\<open>bitmap_scan\<close> stops the kernel in \<^verbatim>\<open>thread_start\<close>, \<^verbatim>\<open>create_page_dir\<close> and
  \<^verbatim>\<open>process_execute\<close>; the tests for NULL after the allocation and the message of
  \<^verbatim>\<open>create_page_dir\<close> are never reached.
\<close>

theorem out_of_memory_panics:
  fixes s :: "'a process_machine_scheme"
  assumes "no_kernel_memory s"
  shows "get_kernel_pages 1 s = Inl (Panic ''lib/bitmap.c'' 27) \<and>
    thread_start nm prio f a s = Fail (Panic ''lib/bitmap.c'' 27) \<and>
    create_page_dir s = Fail (Panic ''lib/bitmap.c'' 27) \<and>
    process_execute prog nm s = Fail (Panic ''lib/bitmap.c'' 27)"
  using no_kernel_memory_panics [OF assms] by (simp add: thread_start_def create_page_dir_def process_execute_def)

section \<open>The threads and the heap\<close>

text \<open>
  The lists of threads: the ready queue holds \<open>ts\<close>, the list of all threads \<open>as\<close>, and the pid lock is
  free with nobody waiting; the three lists share no element.
\<close>

abbreviation list_feet :: "'a process_machine_scheme \<Rightarrow> u32 list \<Rightarrow> u32 list \<Rightarrow> u32 set" where
  "list_feet s ts as \<equiv> foot (thread_ready_list s) (map general_tag ts) \<union>
     foot (thread_all_list s) (map all_list_tag as) \<union> foot (lock_waiters (pid_lock s)) []"

definition thread_lists :: "'a process_machine_scheme \<Rightarrow> u32 list \<Rightarrow> u32 list \<Rightarrow> bool" where
  "thread_lists s ts as \<longleftrightarrow>
     sched_inv s ts \<and> dlist (lnk s) (thread_all_list s) (map all_list_tag as) \<and>
     lock_free (pid_lock s) s \<and> dlist (lnk s) (lock_waiters (pid_lock s)) [] \<and>
     running_thread s \<noteq> 0 \<and> 0 \<notin> set ts \<and>
     foot (thread_ready_list s) (map general_tag ts) \<inter> foot (thread_all_list s) (map all_list_tag as) = {} \<and>
     foot (lock_waiters (pid_lock s)) [] \<inter> (foot (thread_ready_list s) (map general_tag ts) \<union>
       foot (thread_all_list s) (map all_list_tag as)) = {}"

text \<open>A page in which a thread can be made: no list has an element in it and no thread uses it.\<close>

definition page_apart :: "'a process_machine_scheme \<Rightarrow> u32 list \<Rightarrow> u32 list \<Rightarrow> u32 \<Rightarrow> bool" where
  "page_apart s ts as p \<longleftrightarrow> p \<noteq> running_thread s \<and> p \<noteq> main_thread s \<and>
     {general_tag p, all_list_tag p} \<inter> list_feet s ts as = {}"

text \<open>
  The page directory in the frame \<open>f\<close>: it is no page table and no free frame, it maps itself, and its
  kernel half is that of the current directory.
\<close>

definition space_shared :: "'a memory_machine_scheme \<Rightarrow> u32 \<Rightarrow> bool" where
  "space_shared s f \<longleftrightarrow> fresh s f \<and> (\<forall>j \<in> free_frames (kernel_pool s) (mem s). heap_frame s j \<noteq> f) \<and>
     phys s (f + 4092) = entry_for f \<and>
     (\<forall>i. 768 \<le> i \<longrightarrow> i < 1023 \<longrightarrow> phys s (f + of_nat i * 4) = phys s (frame (cr3 s) + of_nat i * 4))"

text \<open>A kernel thread, or a process whose directory is one of the heap's pages below \<open>i\<close>.\<close>

definition thread_space :: "'a process_machine_scheme \<Rightarrow> nat \<Rightarrow> u32 \<Rightarrow> bool" where
  "thread_space s i t \<longleftrightarrow> pgdir (tasks s t) = 0 \<or>
     (\<exists>j < i. \<exists>f. pgdir (tasks s t) = heap_page s j \<and> page_at s (heap_page s j) f \<and> space_shared s f)"

text \<open>
  The invariant of the system as threads and processes are made: the heap is used below page \<open>i\<close> with \<open>n\<close>
  more pages to be had, the lists hold the threads, the free pages are apart from them, and every
  thread has its address space.
\<close>

definition system_at ::
  "'a process_machine_scheme \<Rightarrow> nat \<Rightarrow> nat \<Rightarrow> u32 list \<Rightarrow> u32 list \<Rightarrow> bool" where
  "system_at s i n ts as \<longleftrightarrow> heap_at s i n \<and> thread_lists s ts as \<and>
     (\<forall>j < bm_cap (heap_bits s). i \<le> j \<longrightarrow> page_apart s ts as (heap_page s j)) \<and>
     (\<forall>t \<in> insert (running_thread s) (set ts). thread_space s i t)"

lemma system_atD:
  assumes "system_at s i n ts as"
  shows "heap_at s i n" "thread_lists s ts as"
    "i \<le> j \<Longrightarrow> j < bm_cap (heap_bits s) \<Longrightarrow> page_apart s ts as (heap_page s j)"
    "t \<in> insert (running_thread s) (set ts) \<Longrightarrow> thread_space s i t"
  using assms by (auto simp: system_at_def)

text \<open>A page that is taken leaves the directories of the processes as they are.\<close>

lemma space_shared_taken:
  assumes h: "heap_at s i n" and k: "length fs \<le> n" and taken: "pages_taken s i fs m ph"
    and f: "space_shared s f"
  shows "space_shared (s\<lparr>mem := m, phys := ph\<rparr>) f"
proof -
  have t: "set fs \<subseteq> free_frames (kernel_pool s) (mem s)" "same_dir s ph"
    "free_frames (kernel_pool s) m = free_frames (kernel_pool s) (mem s) - set fs"
    "\<And>a. \<forall>j < length fs. a \<noteq> pte_at s (heap_page s (i + j)) \<and> frame a \<noteq> heap_frame s (fs ! j) \<Longrightarrow> ph a = phys s a"
    using taken by (simp_all add: pages_taken_def)
  have fr: "fresh s f" "frame f = f" "\<forall>j \<in> free_frames (kernel_pool s) (mem s). heap_frame s j \<noteq> f"
    using f by (simp_all add: space_shared_def fresh_def)
  have same: "ph a = phys s a" if a: "frame a = f" for a
  proof (rule t(4), intro allI impI conjI)
    fix j assume j: "j < length fs"
    show "frame a \<noteq> heap_frame s (fs ! j)" using fr(3) t(1) nth_mem [OF j] a by auto
    have "present (pde_of s (heap_page s (i + j)))"
      using heap_pageD(5) [OF heap_atD(1) [OF h], of "i + j"] heap_atD(2) [OF h] j k by simp
    then show "a \<noteq> pte_at s (heap_page s (i + j))" using fr(1) a by (auto simp: fresh_def)
  qed
  have "frame (f + of_nat l * 4) = f" if "l < 1024" for l
    using frame_index_slot [OF index_of_nat [OF that], of f] fr(2) by simp
  from this [of 1023] this have "ph (f + 4092) = phys s (f + 4092)"
    "\<And>l. l < 1024 \<Longrightarrow> ph (f + of_nat l * 4) = phys s (f + of_nat l * 4)" using same by simp_all
  moreover have "ph (frame (cr3 s) + of_nat l * 4) = phys s (frame (cr3 s) + of_nat l * 4)" if "l < 1024" for l
    using t(2) frame_index_slot [OF index_of_nat [OF that], of "cr3 s"] by (simp add: same_dir_def)
  moreover have "fresh (s\<lparr>mem := m, phys := ph\<rparr>) f" using fr(1) by (simp add: fresh_def same_dir_walk [OF t(2)])
  ultimately show ?thesis using f t(3) by (simp add: space_shared_def)
qed

lemma page_at_taken:
  assumes h: "heap_at s i n" and k: "length fs \<le> n" and taken: "pages_taken s i fs m ph" and j: "j < i"
  shows "page_at (s\<lparr>mem := m, phys := ph\<rparr>) (heap_page s j) f \<longleftrightarrow> page_at s (heap_page s j) f"
proof -
  have c: "j < bm_cap (heap_bits s)" using heap_atD(2) [OF h] j by simp
  have inj: "inj_on (\<lambda>j. pte_at s (heap_page s j)) {..<bm_cap (heap_bits s)}"
    using heap_atD(1) [OF h] by (simp add: heap_ok_def)
  have "\<forall>l < length fs. pte_at s (heap_page s j) \<noteq> pte_at s (heap_page s (i + l))"
    using inj_onD [OF inj, of j "i + l" for l] heap_atD(2) [OF h] k j by fastforce
  from taken_maps_other(1) [OF h k taken this] heap_pageD(5) [OF heap_atD(1) [OF h] c] taken
  show ?thesis by (simp add: page_at_def pages_taken_def same_dir_walk)
qed

lemma system_taken:
  fixes s :: "'a process_machine_scheme"
  assumes sys: "system_at s i n ts as" and k: "length fs \<le> n" and taken: "pages_taken s i fs m ph"
  shows "system_at (s\<lparr>mem := m, phys := ph\<rparr>) (i + length fs) (n - length fs) ts as"
proof -
  let ?s = "s\<lparr>mem := m, phys := ph\<rparr>"
  note h = system_atD(1) [OF sys]
  have page: "heap_page ?s j = heap_page s j" for j by (simp add: heap_page_def)
  have space: "thread_space ?s (i + length fs) t" if "thread_space s i t" for t
  proof (cases "pgdir (tasks s t) = 0")
    case False
    with that obtain j f where "j < i" "pgdir (tasks s t) = heap_page s j" "page_at s (heap_page s j) f"
      "space_shared s f" by (auto simp: thread_space_def)
    moreover from this have "page_at ?s (heap_page s j) f" "space_shared ?s f" "j < i + length fs"
      using page_at_taken [OF h k taken] space_shared_taken [OF h k taken] by simp_all
    ultimately show ?thesis unfolding thread_space_def page by auto
  qed (simp add: thread_space_def)
  have "thread_lists ?s ts as \<longleftrightarrow> thread_lists s ts as" "page_apart ?s ts as p \<longleftrightarrow> page_apart s ts as p" for p
    by (simp_all add: thread_lists_def page_apart_def sched_inv_def running_thread_def lock_free_def)
  then show ?thesis
    using sys heap_after [OF h k taken] space by (auto simp: system_at_def page running_thread_def)
qed

lemma system_get:
  fixes s :: "'a process_machine_scheme"
  assumes sys: "system_at s i (k + n) ts as" and k: "0 < k" "k < 3840"
  obtains fs m ph where "get_kernel_pages (of_nat k) s = Inr (heap_page s i, s\<lparr>mem := m, phys := ph\<rparr>)"
    "length fs = k" "pages_taken s i fs m ph" "pages_got s i fs m ph"
    "system_at (s\<lparr>mem := m, phys := ph\<rparr>) (i + k) n ts as"
proof -
  obtain fs m ph where g: "get_kernel_pages (of_nat k) s = Inr (heap_page s i, s\<lparr>mem := m, phys := ph\<rparr>)"
    "length fs = k" "pages_taken s i fs m ph" "pages_got s i fs m ph"
    by (rule heap_get [OF system_atD(1) [OF sys] k(1) _ k(2)]) auto
  with system_taken [OF sys _ g(3)] that show thesis by simp
qed

text \<open>What the invariant depends on.\<close>

lemma system_frame:
  fixes s s' :: "'a process_machine_scheme"
  assumes sys: "system_at s i n ts as"
    and mem: "mem s' = mem s" "phys s' = phys s" "cr3 s' = cr3 s" "kernel_pool s' = kernel_pool s"
      "kernel_vaddr s' = kernel_vaddr s"
    and thr: "esp s' = esp s" "main_thread s' = main_thread s" "thread_ready_list s' = thread_ready_list s"
      "thread_all_list s' = thread_all_list s" "pid_lock s' = pid_lock s"
    and lck: "sema_value s' = sema_value s" "lock_holder s' = lock_holder s" "lock_repeat s' = lock_repeat s"
    and lnk: "\<And>a. a \<in> list_feet s ts as \<Longrightarrow> lnk s' a = lnk s a"
    and tasks: "\<And>t. t \<in> insert (running_thread s) (set ts) \<Longrightarrow> tasks s' t = tasks s t"
  shows "system_at s' i n ts as"
proof -
  have run: "running_thread s' = running_thread s" by (simp add: running_thread_def thr)
  have page: "heap_page s' j = heap_page s j" for j by (simp add: heap_page_def mem)
  have heap: "heap_at s' i n" using system_atD(1) [OF sys] heap_at_cong [of s' s] mem by simp
  have "dlist (lnk s') (thread_ready_list s) (map general_tag ts) \<longleftrightarrow> dlist (lnk s) (thread_ready_list s) (map general_tag ts)"
    "dlist (lnk s') (thread_all_list s) (map all_list_tag as) \<longleftrightarrow> dlist (lnk s) (thread_all_list s) (map all_list_tag as)"
    "dlist (lnk s') (lock_waiters (pid_lock s)) [] \<longleftrightarrow> dlist (lnk s) (lock_waiters (pid_lock s)) []"
    using lnk by (auto intro!: dlist_cong)
  then have lists: "thread_lists s' ts as"
    using system_atD(2) [OF sys] tasks by (simp add: thread_lists_def sched_inv_def run thr lck lock_free_def)
  have "thread_space s' i t" if "t \<in> insert (running_thread s) (set ts)" for t
    using system_atD(4) [OF sys that] tasks [OF that]
    by (simp add: thread_space_def page page_at_def space_shared_def fresh_def mem)
  then show ?thesis
    using sys heap lists by (simp add: system_at_def page mem page_apart_def run thr)
qed

text \<open>What making threads leaves alone.\<close>

definition same_setting :: "'a process_machine_scheme \<Rightarrow> 'a process_machine_scheme \<Rightarrow> bool" where
  "same_setting s s' \<longleftrightarrow> eflags s' = eflags s \<and> cr3 s' = cr3 s \<and> esp s' = esp s \<and> main_thread s' = main_thread s \<and>
     kernel_pool s' = kernel_pool s \<and> kernel_vaddr s' = kernel_vaddr s \<and>
     thread_ready_list s' = thread_ready_list s \<and> thread_all_list s' = thread_all_list s \<and>
     pid_lock s' = pid_lock s \<and> kernel_thread_entry s' = kernel_thread_entry s \<and>
     start_process_entry s' = start_process_entry s"

lemma same_setting_trans: "same_setting s t \<Longrightarrow> same_setting t u \<Longrightarrow> same_setting s u"
  by (simp add: same_setting_def)

lemma same_settingD:
  assumes "same_setting s s'"
  shows "page_apart s' ts as p \<longleftrightarrow> page_apart s ts as p" "heap_page s' j = heap_page s j"
    "running_thread s' = running_thread s" "heap_frame s' j = heap_frame s j"
  using assms by (simp_all add: same_setting_def page_apart_def running_thread_def heap_page_def)

section \<open>Making a thread\<close>

lemma tags_differ [simp]: "general_tag p \<noteq> all_list_tag p" "all_list_tag p \<noteq> general_tag p"
  by (simp_all add: general_tag_def all_list_tag_def general_tag_offset_def all_list_tag_offset_def)

lemma frame_tags: "frame p = p \<Longrightarrow> frame (general_tag p) = p \<and> frame (all_list_tag p) = p"
  using frame_index_slot [OF index_of_nat [of 9], of p] frame_index_slot [OF index_of_nat [of 11], of p]
  by (simp add: general_tag_def all_list_tag_def general_tag_offset_def all_list_tag_offset_def)

lemma heap_page_inject:
  assumes "heap_ok s" "j < bm_cap (heap_bits s)" "l < bm_cap (heap_bits s)"
  shows "heap_page s j = heap_page s l \<longleftrightarrow> j = l"
  using assms inj_onD [of "\<lambda>j. pte_at s (heap_page s j)" "{..<bm_cap (heap_bits s)}" j l]
  by (auto simp: heap_ok_def)

lemma page_apart_not_listed: "page_apart s ts as p \<Longrightarrow> p \<notin> insert (running_thread s) (set ts)"
  by (auto simp: page_apart_def foot_def)

text \<open>The state in which \<^verbatim>\<open>init_thread\<close> leaves a page that is apart.\<close>

definition thread_made :: "u32 \<Rightarrow> u8 list \<Rightarrow> int \<Rightarrow> 'a process_machine_scheme \<Rightarrow> 'a process_machine_scheme" where
  "thread_made p nm prio s = s\<lparr>
     lnk := (lnk s)(general_tag p := \<lparr>elem_prev = 0, elem_next = 0\<rparr>,
                    all_list_tag p := \<lparr>elem_prev = 0, elem_next = 0\<rparr>),
     next_pid := next_pid s + 1,
     tasks := (tasks s)(p := fresh_task p nm prio (next_pid s + 1) TASK_READY)\<rparr>"

lemma system_init_thread:
  fixes s :: "'a process_machine_scheme"
  assumes sys: "system_at s i n ts as" and p: "page_apart s ts as p" "p \<noteq> 0" and nm: "length nm < 16"
  shows "init_thread p nm prio s = Ret (thread_made p nm prio s) ()" "system_at (thread_made p nm prio s) i n ts as"
proof -
  have l: "lock_free (pid_lock s) s" "running_thread s \<noteq> 0" "dlist (lnk s) (lock_waiters (pid_lock s)) []"
    using system_atD(2) [OF sys] by (simp_all add: thread_lists_def)
  have t: "{general_tag p, all_list_tag p} \<inter> list_feet s ts as = {}" "p \<noteq> main_thread s"
    using p(1) by (simp_all add: page_apart_def)
  then have "{general_tag p, all_list_tag p} \<inter> foot (lock_waiters (pid_lock s)) [] = {}" by blast
  with t(2) show "init_thread p nm prio s = Ret (thread_made p nm prio s) ()"
    using init_thread_eq [OF l p(2) nm] by (simp add: thread_made_def)
  show "system_at (thread_made p nm prio s) i n ts as"
    by (rule system_frame [OF sys]) (use t(1) page_apart_not_listed [OF p(1)] in \<open>auto simp: thread_made_def\<close>)
qed

lemma system_task:
  fixes s :: "'a process_machine_scheme"
  assumes sys: "system_at s i n ts as" and p: "page_apart s ts as p"
  shows "system_at (upd_task p g s) i n ts as" "system_at (thread_create p f a s) i n ts as"
proof -
  note notin = page_apart_not_listed [OF p]
  show "system_at (upd_task p g s) i n ts as"
    by (rule system_frame [OF sys]) (use notin in \<open>auto simp: upd_task_def\<close>)
  show "system_at (thread_create p f a s) i n ts as"
    by (rule system_frame [OF sys]) (use notin in \<open>auto simp: thread_create_def upd_task_def Let_def\<close>)
qed

text \<open>Both lists take the thread in, and a third list stays as it is.\<close>

lemma enlist_both:
  fixes s :: "'a process_machine_scheme"
  assumes R: "dlist (lnk s) (thread_ready_list s) rs" and A: "dlist (lnk s) (thread_all_list s) as"
    and W: "dlist (lnk s) w ws"
    and disj: "foot (thread_ready_list s) rs \<inter> foot (thread_all_list s) as = {}"
      "foot w ws \<inter> (foot (thread_ready_list s) rs \<union> foot (thread_all_list s) as) = {}"
    and tags: "{general_tag p, all_list_tag p} \<inter>
      (foot (thread_ready_list s) rs \<union> foot (thread_all_list s) as \<union> foot w ws) = {}"
  shows "\<exists>h. sbind (enlist fa la (thread_ready_list s) (general_tag p) s)
      (\<lambda>s. enlist fb lb (thread_all_list s) (all_list_tag p) s) = Inr (s\<lparr>lnk := h\<rparr>) \<and>
    dlist h (thread_ready_list s) (rs @ [general_tag p]) \<and> dlist h (thread_all_list s) (as @ [all_list_tag p]) \<and>
    dlist h w ws"
proof -
  let ?r = "thread_ready_list s" and ?a = "thread_all_list s" and ?g = "general_tag p" and ?t = "all_list_tag p"
  let ?h1 = "ins_lnk (list_tail ?r) ?g (lnk s)"
  let ?h2 = "ins_lnk (list_tail ?a) ?t ?h1"
  have nR: "?g \<notin> set rs" "?t \<notin> set as" using tags by (auto simp: foot_def)
  have R1: "dlist ?h1 ?r (rs @ [?g])" using lq.rep_append [OF R, of ?g] tags by auto
  have A1: "dlist ?h1 ?a as" using lq.append_frame [OF R A, of ?g] tags disj by auto
  have W1: "dlist ?h1 w ws" using lq.append_frame [OF R W, of ?g] tags disj by auto
  have d1: "foot ?a as \<inter> foot ?r (rs @ [?g]) = {}" "?t \<notin> foot ?r (rs @ [?g])"
    using disj tags by (auto simp: in_foot_iff)
  have R2: "dlist ?h2 ?r (rs @ [?g])" using lq.append_frame [OF A1 R1, of ?t] tags d1 by auto
  have A2: "dlist ?h2 ?a (as @ [?t])" using lq.rep_append [OF A1, of ?t] tags by auto
  have W2: "dlist ?h2 w ws" using lq.append_frame [OF A1 W1, of ?t] tags disj by auto
  have "elem_find ?r ?g s = Inr False" using elem_find_dlist [OF R, of ?g] nR by simp
  moreover have "elem_find ?a ?t (s\<lparr>lnk := ?h1\<rparr>) = Inr False"
    using elem_find_dlist [of "s\<lparr>lnk := ?h1\<rparr>" ?a as ?t] A1 nR by simp
  ultimately show ?thesis using R2 A2 W2 by (intro exI [of _ ?h2]) (simp add: enlist_def list_op_eqs)
qed

lemma foot_append: "foot q (xs @ [x]) = insert x (foot q xs)"
  by (auto simp: in_foot_iff)

lemma system_enlist:
  fixes s :: "'a process_machine_scheme"
  assumes sys: "system_at s i n ts as" and p: "page_apart s ts as p" "p = heap_page s k" "k < i"
    and t: "status (tasks s p) = TASK_READY" "resumable (tasks s p) p" "thread_space s i p"
  shows "\<exists>h. sbind (enlist fa la (thread_ready_list s) (general_tag p) s)
      (\<lambda>s. enlist fb lb (thread_all_list s) (all_list_tag p) s) = Inr (s\<lparr>lnk := h\<rparr>) \<and>
    system_at (s\<lparr>lnk := h\<rparr>) i n (ts @ [p]) (as @ [p])"
proof -
  note l = system_atD(2) [OF sys, unfolded thread_lists_def] and h = system_atD(1) [OF sys]
  have tags: "{general_tag p, all_list_tag p} \<inter> list_feet s ts as = {}" "p \<noteq> running_thread s"
    using p(1) by (simp_all add: page_apart_def)
  obtain h where enl: "sbind (enlist fa la (thread_ready_list s) (general_tag p) s)
      (\<lambda>s. enlist fb lb (thread_all_list s) (all_list_tag p) s) = Inr (s\<lparr>lnk := h\<rparr>)"
    "dlist h (thread_ready_list s) (map general_tag ts @ [general_tag p])"
    "dlist h (thread_all_list s) (map all_list_tag as @ [all_list_tag p])"
    "dlist h (lock_waiters (pid_lock s)) []"
    using enlist_both [where fa = fa and la = la and fb = fb and lb = lb and s = s and p = p and
        rs = "map general_tag ts" and as = "map all_list_tag as" and w = "lock_waiters (pid_lock s)" and ws = "[]"]
      l tags(1) unfolding sched_inv_def by blast
  let ?s = "s\<lparr>lnk := h\<rparr>"
  have run: "running_thread ?s = running_thread s" by (simp add: running_thread_def)
  have page: "heap_page ?s j = heap_page s j" for j by (simp add: heap_page_def)
  have space: "thread_space ?s i u \<longleftrightarrow> thread_space s i u" for u
    by (simp add: thread_space_def page page_at_def space_shared_def fresh_def)
  let ?R = "foot (thread_ready_list s) (map general_tag ts)" and ?A = "foot (thread_all_list s) (map all_list_tag as)"
    and ?W = "foot (lock_waiters (pid_lock s)) []"
  have disj: "insert (general_tag p) ?R \<inter> insert (all_list_tag p) ?A = {}"
    "?W \<inter> (insert (general_tag p) ?R \<union> insert (all_list_tag p) ?A) = {}"
    using l tags(1) tags_differ by blast+
  have inv: "sched_inv ?s (ts @ [p])"
    using l enl(2) t(1,2) tags(2) by (auto simp: sched_inv_def run foot_append simp del: foot_simps)
  have "p \<noteq> 0" using heap_pageD(1) [OF heap_atD(1) [OF h], of k] heap_atD(2) [OF h] p(2,3) by simp
  then have "thread_lists ?s (ts @ [p]) (as @ [p])"
    using l enl(3,4) inv disj
    by (simp add: thread_lists_def run foot_append lock_free_def del: foot_simps)
  moreover have "page_apart ?s (ts @ [p]) (as @ [p]) (heap_page s j)" if j: "j < bm_cap (heap_bits s)" "i \<le> j" for j
  proof -
    have "heap_page s j \<noteq> p" using heap_page_inject [OF heap_atD(1) [OF h], of j k] j p(2,3) by simp
    moreover have "frame (heap_page s j) = heap_page s j" "frame p = p"
      using heap_pageD(2) [OF heap_atD(1) [OF h]] j p(2,3) by simp_all
    ultimately have "{general_tag (heap_page s j), all_list_tag (heap_page s j)} \<inter> {general_tag p, all_list_tag p} = {}"
      using frame_tags [of p] frame_tags [of "heap_page s j"] by auto
    then show ?thesis
      using system_atD(3) [OF sys j(2,1)] unfolding page_apart_def run
      by (simp add: foot_append del: foot_simps)
  qed
  moreover have "heap_at ?s i n" using h heap_at_cong [of ?s s] by simp
  ultimately have "system_at ?s i n (ts @ [p]) (as @ [p])"
    using sys t(3) by (auto simp: system_at_def page space run)
  with enl(1) show ?thesis by blast
qed

section \<open>Starting a thread\<close>

lemma thread_start_system:
  fixes s :: "'a process_machine_scheme"
  assumes "system_at s i (Suc n) ts as" "length nm < 16"
  defines "p \<equiv> heap_page s i"
  shows "\<exists>s'. thread_start nm prio f a s = Ret s' p \<and> system_at s' (Suc i) n (ts @ [p]) (as @ [p]) \<and>
    same_setting s s' \<and> next_pid s' = next_pid s + 1 \<and>
    tasks s' = (tasks s)(p := (fresh_task p nm prio (next_pid s + 1) TASK_READY)\<lparr>self_kstack := p + 3664\<rparr>) \<and>
    (let st = thread_stacks s' (p + 3664) in
      ts_eip st = kernel_thread_entry s \<and> ts_function st = f \<and> ts_func_arg st = a) \<and>
    (\<forall>b. b \<noteq> p + 3664 \<longrightarrow> thread_stacks s' b = thread_stacks s b)"
proof -
  note h = system_atD(1) [OF assms(1)]
  have c: "i < bm_cap (heap_bits s)" using heap_atD(2) [OF h] by simp
  have p: "p \<noteq> 0" "frame p = p" "page_apart s ts as p"
    using heap_pageD(1,2) [OF heap_atD(1) [OF h] c] system_atD(3) [OF assms(1) _ c] by (simp_all add: p_def)
  obtain fs m ph where get: "get_kernel_pages 1 s = Inr (p, s\<lparr>mem := m, phys := ph\<rparr>)"
    "system_at (s\<lparr>mem := m, phys := ph\<rparr>) (Suc i) n ts as"
    by (rule system_get [of s i 1 n ts as, simplified, OF assms(1)]) (simp add: p_def)
  define s1 where "s1 = s\<lparr>mem := m, phys := ph\<rparr>"
  note sys1 = get(2) [folded s1_def]
  have "same_setting s s1" by (simp add: same_setting_def s1_def)
  then have ap1: "page_apart s1 ts as p" using p(3) by (simp add: same_settingD)
  define s2 s3 where "s2 = thread_made p nm prio s1" and "s3 = thread_create p f a s2"
  note init = system_init_thread [OF sys1 ap1 p(1) assms(2), of prio, folded s2_def]
  have "same_setting s s2" by (simp add: same_setting_def s1_def s2_def thread_made_def)
  then have ap2: "page_apart s2 ts as p" using p(3) by (simp add: same_settingD)
  have t2: "tasks s2 p = fresh_task p nm prio (next_pid s + 1) TASK_READY" by (simp add: s1_def s2_def thread_made_def)
  have "self_kstack (fresh_task p nm prio (next_pid s + 1) TASK_READY) = p + PG_SIZE" by (simp add: fresh_task_def)
  note made = thread_create_fields [OF t2 this, of f a, folded s3_def]
  have same: "same_setting s s3" "next_pid s3 = next_pid s + 1"
    by (simp_all add: same_setting_def s3_def thread_create_def upd_task_def Let_def s2_def s1_def thread_made_def)
  have tk: "tasks s3 = (tasks s)(p := (fresh_task p nm prio (next_pid s + 1) TASK_READY)\<lparr>self_kstack := p + 3664\<rparr>)"
    using made(1) by (simp add: s2_def s1_def thread_made_def)
  have sys3: "system_at s3 (Suc i) n ts as" unfolding s3_def by (rule system_task [OF init(2) ap2])
  have ap3: "page_apart s3 ts as p" and "p = heap_page s3 i"
    using p(3) same_settingD [OF same(1)] by (simp_all add: p_def)
  from system_enlist [OF sys3 this, of "''thread/thread.c''" 92 "''thread/thread.c''" 95] obtain lk where
    enl: "sbind (enlist ''thread/thread.c'' 92 (thread_ready_list s3) (general_tag p) s3)
      (\<lambda>s. enlist ''thread/thread.c'' 95 (thread_all_list s) (all_list_tag p) s) = Inr (s3\<lparr>lnk := lk\<rparr>)"
    "system_at (s3\<lparr>lnk := lk\<rparr>) (Suc i) n (ts @ [p]) (as @ [p])"
    using new_stack_in_page [of p] p(2)
    by (auto simp: tk fresh_task_def resumable_def thread_space_def frame_def)
  have "thread_start nm prio f a s = Ret (s3\<lparr>lnk := lk\<rparr>) p"
    using get(1) init(1) enl(1)
    by (auto simp: thread_start_def thread_started_def s1_def [symmetric] s3_def [symmetric] Let_def finish_with_def
        sbind_Inr_iff)
  then show ?thesis
    using enl(2) same made(2-4,6) tk
    by (intro exI [of _ "s3\<lparr>lnk := lk\<rparr>"]) (simp add: same_setting_def s2_def s1_def thread_made_def)
qed

text \<open>
  C6: \<^verbatim>\<open>thread_start\<close> in a system with a page to be had, with a name of fewer than sixteen characters:
  it returns the lowest free page of the heap, in which the thread waits for its first turn at the
  back of the ready queue with the given priority as its slice; the invariant of the system holds
  with the longer queue and one page fewer to be had, the thread is the last in the list of all
  threads, its first stack frame calls the function with the argument, and no other thread changes.
\<close>

theorem thread_start_joins_queue:
  fixes s :: "'a process_machine_scheme"
  assumes "system_at s i (Suc n) ts as" "length nm < 16"
  defines "p \<equiv> heap_page s i"
  shows "\<exists>s'. thread_start nm prio f a s = Ret s' p \<and> system_at s' (Suc i) n (ts @ [p]) (as @ [p]) \<and>
    same_setting s s' \<and> next_pid s' = next_pid s + 1 \<and>
    tasks s' = (tasks s)(p := (fresh_task p nm prio (next_pid s + 1) TASK_READY)\<lparr>self_kstack := p + 3664\<rparr>) \<and>
    (let st = thread_stacks s' (p + 3664) in
      ts_eip st = kernel_thread_entry s \<and> ts_function st = f \<and> ts_func_arg st = a) \<and>
    (\<forall>b. b \<noteq> p + 3664 \<longrightarrow> thread_stacks s' b = thread_stacks s b)"
  using thread_start_system [OF assms(1,2), of prio f a] unfolding p_def .

section \<open>Making a process\<close>

text \<open>The user addresses of a new process, with their bitmap in the pages at \<open>q\<close>.\<close>

definition user_space :: "u32 \<Rightarrow> virtual_addr" where
  "user_space q = \<lparr>vaddr_bitmap = \<lparr>btmp_bytes_len = 94199, bits = q\<rparr>, vaddr_start = USER_VADDR_START\<rparr>"

lemma user_bitmap_sizes:
  "(0xc0000000 - USER_VADDR_START) div PG_SIZE div 8 = 94199" "DIV_ROUND_UP 94199 PG_SIZE = of_nat 23"
  by (simp_all add: USER_VADDR_START_def PG_SIZE_def DIV_ROUND_UP_def)

lemma span_mono: "m \<le> n \<Longrightarrow> span p m \<subseteq> span p n"
  unfolding span_def by auto

lemma bitmap_in_pages:
  assumes "unat (btmp_bytes_len b) \<le> k * 4096" "bits b = heap_page s i" "a \<in> bm_bytes b"
  shows "\<exists>j < k. a \<in> page_bytes (heap_page s (i + j))"
  using assms span_mono [of "unat (btmp_bytes_len b)" "k * 4096" "heap_page s i"]
  unfolding bm_bytes_def span_pages heap_page_plus by auto

lemma init_bitmap_zero:
  assumes "bits b \<noteq> 0" "\<forall>a \<in> bm_bytes b. mem s a = 0"
  shows "init_bitmap b s = Inr s"
proof -
  have "(\<lambda>a. if a \<in> bm_bytes b then 0 else mem s a) = mem s" using assms(2) by auto
  then show ?thesis using init_bitmap_eq [OF assms(1), of s] by simp
qed

lemma filled_records:
  "(b :: bitmap)\<lparr>bits := q, btmp_bytes_len := l\<rparr> = \<lparr>btmp_bytes_len = l, bits = q\<rparr>"
  "(v :: virtual_addr)\<lparr>vaddr_start := x, vaddr_bitmap := b\<rparr> = \<lparr>vaddr_bitmap = b, vaddr_start = x\<rparr>"
  by (cases b; simp) (cases v; simp)

lemma user_bitmap_made:
  fixes s :: "'a process_machine_scheme"
  assumes sys: "system_at s i (23 + n) ts as" and p: "page_apart s ts as p"
  obtains fs m ph where "create_user_vaddr_bitmap p s =
      Inr (upd_task p (\<lambda>u. u\<lparr>userprog_vaddr := user_space (heap_page s i)\<rparr>) (s\<lparr>mem := m, phys := ph\<rparr>))"
    "length fs = 23" "pages_taken s i fs m ph" "pages_got s i fs m ph"
    "system_at (s\<lparr>mem := m, phys := ph\<rparr>) (i + 23) n ts as"
    "\<forall>a \<in> bm_bytes (vaddr_bitmap (user_space (heap_page s i))). m a = 0"
proof -
  let ?s = "upd_vaddr p (\<lambda>v. v\<lparr>vaddr_start := USER_VADDR_START\<rparr>) s"
  have "system_at ?s i (23 + n) ts as" unfolding upd_vaddr_def by (rule system_task(1) [OF sys p])
  then obtain fs m ph where g: "get_kernel_pages (of_nat 23) ?s = Inr (heap_page ?s i, ?s\<lparr>mem := m, phys := ph\<rparr>)"
    "length fs = 23" "pages_taken ?s i fs m ph" "pages_got ?s i fs m ph"
    by (rule system_get) simp_all
  have "heap_page ?s j = heap_page s j" for j by (simp add: heap_page_def upd_vaddr_def upd_task_def)
  then have same: "pages_taken ?s i fs m ph \<longleftrightarrow> pages_taken s i fs m ph" "pages_got ?s i fs m ph \<longleftrightarrow> pages_got s i fs m ph"
    "heap_page ?s i = heap_page s i"
    by (simp_all add: pages_taken_def pages_got_def same_dir_def upd_vaddr_def upd_task_def)
  let ?b = "vaddr_bitmap (user_space (heap_page s i))"
  have zero: "\<forall>a \<in> bm_bytes ?b. m a = 0"
  proof
    fix a assume "a \<in> bm_bytes ?b"
    then obtain j where "j < 23" "a \<in> page_bytes (heap_page s (i + j))"
      using bitmap_in_pages [of ?b 23 s i a] by (auto simp: user_space_def)
    then show "m a = 0" using g(2) g(4) [unfolded same(2)] unfolding pages_got_def by simp
  qed
  have nz: "heap_page s i \<noteq> 0"
    using heap_pageD(1) [OF heap_atD(1) [OF system_atD(1) [OF sys]], of i] heap_atD(2) [OF system_atD(1) [OF sys]] by simp
  let ?s' = "upd_task p (\<lambda>u. u\<lparr>userprog_vaddr := user_space (heap_page s i)\<rparr>) (s\<lparr>mem := m, phys := ph\<rparr>)"
  have "init_bitmap ?b ?s' = Inr ?s'"
    using nz zero by (intro init_bitmap_zero) (simp_all add: user_space_def upd_task_def)
  then have "create_user_vaddr_bitmap p s = Inr ?s'"
    using g(1) by (simp add: create_user_vaddr_bitmap_def user_bitmap_sizes Let_def same)
      (simp add: upd_vaddr_def upd_task_def user_space_def filled_records)
  then show thesis
    using that [OF _ g(2)] g(3,4) same zero system_taken [OF sys _, of fs m ph] g(2) by simp
qed

lemma free_frame_inject:
  assumes "heap_ok s" "j \<in> free_frames (kernel_pool s) (mem s)" "l \<in> free_frames (kernel_pool s) (mem s)"
  shows "heap_frame s j = heap_frame s l \<longleftrightarrow> j = l"
  using assms inj_onD [of "heap_frame s" "{..<bm_cap (pool_bits s)}" j l] by (auto simp: heap_ok_def free_frames_def)

text \<open>A page that is taken and whose frame is then written to.\<close>

lemma taken_page_written:
  assumes h: "heap_at s i (Suc n)" and taken: "pages_taken s i [x] m ph" and got: "pages_got s i [x] m ph"
    and ph': "\<forall>a. frame a \<noteq> heap_frame s x \<longrightarrow> ph' a = ph a"
  shows "pages_taken s i [x] m ph'" "page_at (s\<lparr>mem := m, phys := ph'\<rparr>) (heap_page s i) (heap_frame s x)"
    "fresh (s\<lparr>mem := m, phys := ph'\<rparr>) (heap_frame s x)"
    "\<forall>j \<in> free_frames (kernel_pool s) m. heap_frame s j \<noteq> heap_frame s x"
proof -
  have t: "x \<in> free_frames (kernel_pool s) (mem s)" "same_dir s ph"
    "free_frames (kernel_pool s) m = free_frames (kernel_pool s) (mem s) - {x}"
    using taken by (simp_all add: pages_taken_def)
  have fr: "fresh s (heap_frame s x)" by (rule heap_atD(3) [OF h t(1)])
  then have "heap_frame s x \<noteq> frame (cr3 s)" by (simp add: fresh_def)
  with t(2) ph' have dir: "same_dir s ph'" unfolding same_dir_def by metis
  show "pages_taken s i [x] m ph'" using taken ph' dir by (simp add: pages_taken_def)
  show "fresh (s\<lparr>mem := m, phys := ph'\<rparr>) (heap_frame s x)" using fr by (simp add: fresh_def same_dir_walk [OF dir])
  show "\<forall>j \<in> free_frames (kernel_pool s) m. heap_frame s j \<noteq> heap_frame s x"
    using free_frame_inject [OF heap_atD(1) [OF h] _ t(1)] t(3) by auto
  have "i < bm_cap (heap_bits s)" using heap_atD(2) [OF h] by simp
  note page = heap_pageD(2,5) [OF heap_atD(1) [OF h] this]
  have "frame (pte_at s (heap_page s i)) \<noteq> heap_frame s x" using fr page(2) by (auto simp: fresh_def)
  then have "ph' (pte_at s (heap_page s i)) = entry_for (heap_frame s x)" using ph' got by (simp add: pages_got_def)
  then show "page_at (s\<lparr>mem := m, phys := ph'\<rparr>) (heap_page s i) (heap_frame s x)"
    using page fr by (simp add: page_at_def same_dir_walk [OF dir]) (simp add: fresh_def)
qed

lemma page_dir_made:
  fixes s :: "'a process_machine_scheme"
  assumes sys: "system_at s i (Suc n) ts as"
  obtains x m ph where "create_page_dir s = Ret (s\<lparr>mem := m, phys := ph\<rparr>) (heap_page s i)"
    "system_at (s\<lparr>mem := m, phys := ph\<rparr>) (Suc i) n ts as"
    "page_at (s\<lparr>mem := m, phys := ph\<rparr>) (heap_page s i) (heap_frame s x)"
    "space_shared (s\<lparr>mem := m, phys := ph\<rparr>) (heap_frame s x)"
    "\<forall>l < 768. ph (heap_frame s x + of_nat l * 4) = 0"
    "\<forall>a. a \<notin> bm_bytes (heap_bits s) \<union> bm_bytes (pool_bits s) \<longrightarrow> a \<notin> page_bytes (heap_page s i) \<longrightarrow> m a = mem s a"
proof -
  note h = system_atD(1) [OF sys]
  obtain fs m ph where g: "get_kernel_pages 1 s = Inr (heap_page s i, s\<lparr>mem := m, phys := ph\<rparr>)"
    "length fs = Suc 0" "pages_taken s i fs m ph" "pages_got s i fs m ph"
    "system_at (s\<lparr>mem := m, phys := ph\<rparr>) (Suc i) n ts as"
    by (rule system_get [of s i 1 n ts as, simplified, OF sys])
  then obtain x where x: "fs = [x]" by (auto simp: length_Suc_conv)
  note tk = g(3) [unfolded x] and gt = g(4) [unfolded x]
  let ?s = "s\<lparr>mem := m, phys := ph\<rparr>" and ?f = "heap_frame s x" and ?p = "heap_page s i"
  note at = taken_page_written [OF h tk gt, of ph, simplified]
  have sm: "self_mapped (cr3 ?s) (phys ?s)"
    using heap_atD(1) [OF heap_after [OF h _ tk]] by (simp add: heap_ok_def tables_ok_def)
  obtain ph' where fill: "fill_page_dir ?p ?s = Inr (?s\<lparr>phys := ph'\<rparr>)"
    "\<And>l. 768 \<le> l \<Longrightarrow> l < 1023 \<Longrightarrow> ph' (?f + of_nat l * 4) = ph (frame (cr3 s) + of_nat l * 4)"
    "\<And>l. l < 768 \<Longrightarrow> ph' (?f + of_nat l * 4) = ph (?f + of_nat l * 4)"
    "ph' (?f + 4092) = entry_for ?f" "\<And>a. frame a \<noteq> ?f \<Longrightarrow> ph' a = ph a"
    using fill_page_dir_eq [OF sm at(2,3)] by auto
  note at' = taken_page_written [OF h tk gt, of ph'] fill(5)
  have nz: "?p \<noteq> 0" using heap_pageD(1) [OF heap_atD(1) [OF h], of i] heap_atD(2) [OF h] by simp
  have fr: "?f \<noteq> frame (cr3 s)" using at(3) by (simp add: fresh_def)
  have dir: "ph' (frame (cr3 s) + of_nat l * 4) = ph (frame (cr3 s) + of_nat l * 4)" if "l < 1024" for l
    using fill(5) frame_index_slot [OF index_of_nat [OF that], of "cr3 s"] fr by simp
  show thesis
  proof (rule that)
    show "create_page_dir s = Ret (s\<lparr>mem := m, phys := ph'\<rparr>) ?p"
      using g(1) fill(1) nz by (simp add: create_page_dir_def finish_with_def)
    show "system_at (s\<lparr>mem := m, phys := ph'\<rparr>) (Suc i) n ts as"
      using system_taken [OF sys _ at'(1)] fill(5) by simp
    show "page_at (s\<lparr>mem := m, phys := ph'\<rparr>) ?p ?f" using at'(2) fill(5) by simp
    show "space_shared (s\<lparr>mem := m, phys := ph'\<rparr>) ?f"
      using at'(3,4) fill dir by (simp add: space_shared_def)
    show "\<forall>l < 768. ph' (?f + of_nat l * 4) = 0"
      using fill(3) gt by (simp add: pages_got_def slots_def)
    show "\<forall>a. a \<notin> bm_bytes (heap_bits s) \<union> bm_bytes (pool_bits s) \<longrightarrow> a \<notin> page_bytes ?p \<longrightarrow> m a = mem s a"
      using gt by (simp add: pages_got_def)
  qed
qed

text \<open>The last part of \<^verbatim>\<open>process_execute\<close>: the directory is entered and the process put into the lists.\<close>

lemma system_process_enlisted:
  fixes s :: "'a process_machine_scheme"
  assumes sys: "system_at s i n ts as" and p: "page_apart s ts as p" "p = heap_page s k" "k < i"
    and t: "status (tasks s p) = TASK_READY" "resumable (tasks s p) p"
    and q: "q = heap_page s j" "j < i" "page_at s q f" "space_shared s f"
  shows "\<exists>h. let s' = (upd_task p (\<lambda>t. t\<lparr>pgdir := q\<rparr>) s)\<lparr>lnk := h\<rparr> in
    process_enlisted p (Ret s q) = Ret s' () \<and> system_at s' i n (ts @ [p]) (as @ [p])"
proof -
  define s1 where "s1 = upd_task p (\<lambda>t. t\<lparr>pgdir := q\<rparr>) s"
  define s2 where "s2 = s1\<lparr>eflags := eflags s1 AND NOT EFLAGS_IF\<rparr>"
  have sys1: "system_at s1 i n ts as" unfolding s1_def by (rule system_task(1) [OF sys p(1)])
  have sys2: "system_at s2 i n ts as" by (rule system_frame [OF sys1]) (simp_all add: s2_def)
  have page: "heap_page s2 l = heap_page s l" for l by (simp add: heap_page_def s2_def s1_def upd_task_def)
  have p2: "page_apart s2 ts as p" "p = heap_page s2 k"
    using p(1) unfolding p(2) page by (simp_all add: page_apart_def s2_def s1_def upd_task_def running_thread_def)
  have t2: "status (tasks s2 p) = TASK_READY" "resumable (tasks s2 p) p" "thread_space s2 i p"
  proof -
    show "status (tasks s2 p) = TASK_READY" "resumable (tasks s2 p) p"
      using t by (simp_all add: s2_def s1_def upd_task_def resumable_def)
    have "page_at s2 q f" "space_shared s2 f" "pgdir (tasks s2 p) = q"
      using q(3,4) by (simp_all add: page_at_def space_shared_def fresh_def s2_def s1_def upd_task_def)
    then show "thread_space s2 i p" using q(2) unfolding thread_space_def page q(1) by blast
  qed
  from system_enlist [OF sys2 p2 p(3) t2, of "''userprog/process.c''" 121 "''userprog/process.c''" 124] obtain h where
    enl: "sbind (enlist ''userprog/process.c'' 121 (thread_ready_list s2) (general_tag p) s2)
      (\<lambda>s. enlist ''userprog/process.c'' 124 (thread_all_list s) (all_list_tag p) s) = Inr (s2\<lparr>lnk := h\<rparr>)"
    "system_at (s2\<lparr>lnk := h\<rparr>) i n (ts @ [p]) (as @ [p])" by blast
  have "snd (intr_set_status (intr_get_status s1) (s2\<lparr>lnk := h\<rparr>)) = (s2\<lparr>lnk := h\<rparr>)\<lparr>eflags := eflags s1\<rparr>"
    by (rule intr_restore) (simp add: s2_def)
  then have "snd (intr_set_status (intr_get_status s1) (s2\<lparr>lnk := h\<rparr>)) = s1\<lparr>lnk := h\<rparr>" by (simp add: s2_def)
  moreover have "thread_ready_list s2 = thread_ready_list s1" by (simp add: s2_def)
  ultimately have "process_enlisted p (Ret s q) = Ret (s1\<lparr>lnk := h\<rparr>) ()"
    using enl(1) by (auto simp: process_enlisted_def Let_def bracket_case finish_state_def sbind_Inr_iff
        simp flip: s1_def s2_def)
  moreover have "system_at (s1\<lparr>lnk := h\<rparr>) i n (ts @ [p]) (as @ [p])"
    by (rule system_frame [OF enl(2)]) (simp_all add: s2_def)
  ultimately show ?thesis by (intro exI [of _ h]) (simp add: s1_def Let_def)
qed

text \<open>The task structure of a new process.\<close>

definition fresh_process :: "u32 \<Rightarrow> u8 list \<Rightarrow> u16 \<Rightarrow> u32 \<Rightarrow> u32 \<Rightarrow> task_struct" where
  "fresh_process p nm n q d = (fresh_task p nm default_prio n TASK_READY)
     \<lparr>self_kstack := p + 3664, userprog_vaddr := user_space q, pgdir := d\<rparr>"

text \<open>\<^verbatim>\<open>process_execute\<close> up to the return of \<^verbatim>\<open>create_page_dir\<close>.\<close>

lemma process_prepared:
  fixes s :: "'a process_machine_scheme"
  assumes sys: "system_at s i (25 + n) ts as" and nm: "length nm < 16"
  defines "p \<equiv> heap_page s i" and "q \<equiv> heap_page s (i + 1)" and "d \<equiv> heap_page s (i + 24)"
  obtains s' f where "process_execute filename nm s = process_enlisted p (Ret s' d)"
    "system_at s' (i + 25) n ts as" "same_setting s s'" "next_pid s' = next_pid s + 1"
    "tasks s' = (tasks s)(p := (fresh_process p nm (next_pid s + 1) q 0))"
    "ts_eip (thread_stacks s' (p + 3664)) = kernel_thread_entry s"
    "ts_function (thread_stacks s' (p + 3664)) = start_process_entry s"
    "ts_func_arg (thread_stacks s' (p + 3664)) = filename"
    "\<forall>b. b \<noteq> p + 3664 \<longrightarrow> thread_stacks s' b = thread_stacks s b"
    "page_at s' d f" "space_shared s' f" "\<forall>l < 768. phys s' (f + of_nat l * 4) = 0"
    "\<forall>a \<in> bm_bytes (vaddr_bitmap (user_space q)). mem s' a = 0"
proof -
  note h = system_atD(1) [OF sys]
  have c: "i < bm_cap (heap_bits s)" "i + 24 < bm_cap (heap_bits s)" using heap_atD(2) [OF h] by simp_all
  have p: "p \<noteq> 0" "page_apart s ts as p"
    using heap_pageD(1) [OF heap_atD(1) [OF h] c(1)] system_atD(3) [OF sys _ c(1)] by (simp_all add: p_def)
  have "system_at s i (1 + (24 + n)) ts as" using sys by simp
  note one = system_get [OF this, simplified]
  obtain m1 ph1 where g: "get_kernel_pages 1 s = Inr (p, s\<lparr>mem := m1, phys := ph1\<rparr>)"
    "system_at (s\<lparr>mem := m1, phys := ph1\<rparr>) (Suc i) (24 + n) ts as"
    by (rule one) (simp add: p_def)
  define s1 s2 where "s1 = s\<lparr>mem := m1, phys := ph1\<rparr>" and "s2 = thread_made p nm default_prio s1"
  have ap1: "page_apart s1 ts as p" using p(2) same_settingD(1) [of s s1] by (simp add: s1_def same_setting_def)
  have init: "init_thread p nm default_prio s1 = Ret s2 ()" "system_at s2 (Suc i) (23 + Suc n) ts as"
    using system_init_thread [OF g(2) [folded s1_def] ap1 p(1) nm] by (simp_all add: s2_def)
  have set2: "same_setting s s2" by (simp add: same_setting_def s1_def s2_def thread_made_def)
  have ap2: "page_apart s2 ts as p" and q2: "heap_page s2 (Suc i) = q"
    using p(2) same_settingD [OF set2] by (simp_all add: q_def)
  obtain m3 ph3 where bm: "create_user_vaddr_bitmap p s2 =
      Inr (upd_task p (\<lambda>u. u\<lparr>userprog_vaddr := user_space q\<rparr>) (s2\<lparr>mem := m3, phys := ph3\<rparr>))"
    "system_at (s2\<lparr>mem := m3, phys := ph3\<rparr>) (Suc i + 23) (Suc n) ts as"
    "\<forall>a \<in> bm_bytes (vaddr_bitmap (user_space q)). m3 a = 0"
    by (rule user_bitmap_made [OF init(2) ap2]) (simp add: q2)
  define s3 s4 where "s3 = upd_task p (\<lambda>u. u\<lparr>userprog_vaddr := user_space q\<rparr>) (s2\<lparr>mem := m3, phys := ph3\<rparr>)"
    and "s4 = thread_create p (start_process_entry s3) filename s3"
  have set3: "same_setting s s3" using set2 by (simp add: s3_def same_setting_def upd_task_def)
  then have set4: "same_setting s s4" by (simp add: s4_def same_setting_def thread_create_def upd_task_def Let_def)
  have ap: "page_apart (s2\<lparr>mem := m3, phys := ph3\<rparr>) ts as p" using ap2 by (simp add: page_apart_def running_thread_def)
  have sys3: "system_at s3 (i + 24) (Suc n) ts as" using system_task(1) [OF bm(2) ap] by (simp add: s3_def add.commute)
  have "page_apart s3 ts as p" using p(2) same_settingD [OF set3] by simp
  then have sys4: "system_at s4 (i + 24) (Suc n) ts as" unfolding s4_def by (rule system_task(2) [OF sys3])
  have T: "tasks s3 p = (fresh_task p nm default_prio (next_pid s + 1) TASK_READY)\<lparr>userprog_vaddr := user_space q\<rparr>"
    by (simp add: s3_def s2_def s1_def upd_task_def thread_made_def)
  note made = thread_create_fields [OF T, of "start_process_entry s3" filename, folded s4_def]
  have d4: "heap_page s4 (i + 24) = d" using same_settingD [OF set4] by (simp add: d_def)
  obtain x m5 ph5 where dir: "create_page_dir s4 = Ret (s4\<lparr>mem := m5, phys := ph5\<rparr>) d"
    "system_at (s4\<lparr>mem := m5, phys := ph5\<rparr>) (Suc (i + 24)) n ts as"
    "page_at (s4\<lparr>mem := m5, phys := ph5\<rparr>) d (heap_frame s4 x)"
    "space_shared (s4\<lparr>mem := m5, phys := ph5\<rparr>) (heap_frame s4 x)"
    "\<forall>l < 768. ph5 (heap_frame s4 x + of_nat l * 4) = 0"
    "\<forall>a. a \<notin> bm_bytes (heap_bits s4) \<union> bm_bytes (pool_bits s4) \<longrightarrow> a \<notin> page_bytes d \<longrightarrow> m5 a = mem s4 a"
    by (rule page_dir_made [OF sys4, unfolded d4])
  have bytes: "m5 a = 0" if a: "a \<in> bm_bytes (vaddr_bitmap (user_space q))" for a
  proof -
    obtain j where j: "j < 23" "a \<in> page_bytes (heap_page s (i + 1 + j))"
      using a bitmap_in_pages [of "vaddr_bitmap (user_space q)" 23 s "i + 1" a] by (auto simp: user_space_def q_def)
    then have cj: "i + 1 + j < bm_cap (heap_bits s)" using c(2) by simp
    note pj = heap_pageD(2,6) [OF heap_atD(1) [OF h] cj]
    have "heap_page s (i + 1 + j) \<noteq> d"
      using heap_page_inject [OF heap_atD(1) [OF h] cj c(2)] j(1) by (simp add: d_def)
    then have "a \<notin> page_bytes d"
      using frame_page_byte [OF pj(1) j(2)] frame_page_byte [of d a] heap_pageD(2) [OF heap_atD(1) [OF h] c(2)]
      by (auto simp: d_def)
    moreover have "a \<notin> bm_bytes (heap_bits s4) \<union> bm_bytes (pool_bits s4)"
      using pj(2) j(2) set4 by (auto simp: same_setting_def)
    ultimately have "m5 a = mem s4 a" using dir(6) by blast
    also have "\<dots> = m3 a" by (simp add: s4_def s3_def thread_create_def upd_task_def Let_def)
    finally show ?thesis using bm(3) a by simp
  qed
  have "process_execute filename nm s = process_enlisted p (Ret (s4\<lparr>mem := m5, phys := ph5\<rparr>) d)"
    using g(1) init(1) bm(1) dir(1)
    by (simp add: process_execute_def process_built_def flip: s1_def s3_def) (simp add: Let_def s4_def)
  then show thesis
  proof (rule that)
    show "same_setting s (s4\<lparr>mem := m5, phys := ph5\<rparr>)" using set4 by (simp add: same_setting_def)
    show "next_pid (s4\<lparr>mem := m5, phys := ph5\<rparr>) = next_pid s + 1"
      by (simp add: s4_def s3_def s2_def s1_def thread_create_def upd_task_def thread_made_def Let_def)
    show "tasks (s4\<lparr>mem := m5, phys := ph5\<rparr>) = (tasks s)(p := (fresh_process p nm (next_pid s + 1) q 0))"
      using made(1) by (simp add: fresh_process_def fresh_task_def)
        (simp add: s3_def s2_def s1_def upd_task_def thread_made_def fresh_task_def)
    show "ts_eip (thread_stacks (s4\<lparr>mem := m5, phys := ph5\<rparr>) (p + 3664)) = kernel_thread_entry s"
      "ts_function (thread_stacks (s4\<lparr>mem := m5, phys := ph5\<rparr>) (p + 3664)) = start_process_entry s"
      "ts_func_arg (thread_stacks (s4\<lparr>mem := m5, phys := ph5\<rparr>) (p + 3664)) = filename"
      using made(2-4) set3 by (simp_all add: fresh_task_def same_setting_def)
    have "thread_stacks s3 = thread_stacks s" by (simp add: s3_def s2_def s1_def upd_task_def thread_made_def)
    then show "\<forall>b. b \<noteq> p + 3664 \<longrightarrow> thread_stacks (s4\<lparr>mem := m5, phys := ph5\<rparr>) b = thread_stacks s b"
      using made(6) by (simp add: fresh_task_def)
  qed (use dir bytes in \<open>simp_all add: add.commute\<close>)
qed

text \<open>The address space that a shared directory gives.\<close>

lemma pde_addr_nat: "pde_addr dir v = frame dir + of_nat (unat (PDE_IDX v)) * 4"
  by (simp add: pde_addr_def)

lemma space_shared_walk:
  assumes "space_shared s f" "768 \<le> unat (PDE_IDX v)" "unat (PDE_IDX v) < 1023"
  shows "phys s (pde_addr f v) = pde_of s v" "pte_addr f (phys s) v = pte_at s v"
    "translate f (phys s) v = maps s v"
proof -
  have "frame f = f" using assms(1) by (simp add: space_shared_def fresh_def)
  moreover have "phys s (f + of_nat (unat (PDE_IDX v)) * 4) = phys s (frame (cr3 s) + of_nat (unat (PDE_IDX v)) * 4)"
    using assms unfolding space_shared_def by blast
  ultimately show pd: "phys s (pde_addr f v) = pde_of s v" by (simp only: pde_addr_nat)
  then show pt: "pte_addr f (phys s) v = pte_at s v" by (simp add: pte_addr_def)
  show "translate f (phys s) v = maps s v" by (simp add: translate_def pd pt)
qed

lemma space_shared_self: "space_shared s f \<Longrightarrow> self_mapped f (phys s)"
  by (simp add: space_shared_def fresh_def self_mapped_def)

lemma process_execute_system:
  fixes s :: "'a process_machine_scheme"
  assumes "system_at s i (25 + n) ts as" "length nm < 16"
  defines "p \<equiv> heap_page s i" and "q \<equiv> heap_page s (i + 1)" and "d \<equiv> heap_page s (i + 24)"
  shows "\<exists>s' f. process_execute filename nm s = Ret s' () \<and> system_at s' (i + 25) n (ts @ [p]) (as @ [p]) \<and>
    same_setting s s' \<and> next_pid s' = next_pid s + 1 \<and>
    tasks s' = (tasks s)(p := fresh_process p nm (next_pid s + 1) q d) \<and>
    (let st = thread_stacks s' (p + 3664) in
      ts_eip st = kernel_thread_entry s \<and> ts_function st = start_process_entry s \<and> ts_func_arg st = filename) \<and>
    (\<forall>b. b \<noteq> p + 3664 \<longrightarrow> thread_stacks s' b = thread_stacks s b) \<and>
    (\<forall>a \<in> bm_bytes (vaddr_bitmap (user_space q)). mem s' a = 0) \<and>
    maps s' d = Some f \<and> self_mapped f (phys s') \<and>
    (\<forall>v. 768 \<le> unat (PDE_IDX v) \<and> unat (PDE_IDX v) < 1023 \<longrightarrow> translate f (phys s') v = maps s' v) \<and>
    (\<forall>v. unat (PDE_IDX v) < 768 \<longrightarrow> translate f (phys s') v = None)"
proof -
  note h = system_atD(1) [OF assms(1)]
  have c: "i < bm_cap (heap_bits s)" using heap_atD(2) [OF h] by simp
  have p: "frame p = p" "page_apart s ts as p"
    using heap_pageD(2) [OF heap_atD(1) [OF h] c] system_atD(3) [OF assms(1) _ c] by (simp_all add: p_def)
  obtain s1 f where s1: "process_execute filename nm s = process_enlisted p (Ret s1 d)"
    "system_at s1 (i + 25) n ts as" "same_setting s s1" "next_pid s1 = next_pid s + 1"
    "tasks s1 = (tasks s)(p := (fresh_process p nm (next_pid s + 1) q 0))"
    "ts_eip (thread_stacks s1 (p + 3664)) = kernel_thread_entry s"
    "ts_function (thread_stacks s1 (p + 3664)) = start_process_entry s"
    "ts_func_arg (thread_stacks s1 (p + 3664)) = filename"
    "\<forall>b. b \<noteq> p + 3664 \<longrightarrow> thread_stacks s1 b = thread_stacks s b"
    "page_at s1 d f" "space_shared s1 f" "\<forall>l < 768. phys s1 (f + of_nat l * 4) = 0"
    "\<forall>a \<in> bm_bytes (vaddr_bitmap (user_space q)). mem s1 a = 0"
    unfolding p_def q_def d_def by (rule process_prepared [OF assms(1,2)])
  have t: "status (tasks s1 p) = TASK_READY" "resumable (tasks s1 p) p"
    using new_stack_in_page [of p] p(1) by (simp_all add: s1(5) fresh_process_def fresh_task_def resumable_def frame_def)
  have at: "page_apart s1 ts as p" "p = heap_page s1 i" "d = heap_page s1 (i + 24)"
    using p(2) same_settingD [OF s1(3)] by (simp_all add: p_def d_def)
  obtain lk where fin: "process_enlisted p (Ret s1 d) = Ret ((upd_task p (\<lambda>t. t\<lparr>pgdir := d\<rparr>) s1)\<lparr>lnk := lk\<rparr>) ()"
    "system_at ((upd_task p (\<lambda>t. t\<lparr>pgdir := d\<rparr>) s1)\<lparr>lnk := lk\<rparr>) (i + 25) n (ts @ [p]) (as @ [p])"
    using system_process_enlisted [OF s1(2) at(1,2) _ t at(3) _ s1(10,11)] by (auto simp: Let_def)
  let ?s = "(upd_task p (\<lambda>t. t\<lparr>pgdir := d\<rparr>) s1)\<lparr>lnk := lk\<rparr>"
  have same: "cr3 ?s = cr3 s1" "phys ?s = phys s1" "mem ?s = mem s1" by (simp_all add: upd_task_def)
  have ff: "frame f = f" using s1(11) by (simp add: space_shared_def fresh_def)
  have "phys s1 (pde_addr f v) = 0" if "unat (PDE_IDX v) < 768" for v
    unfolding pde_addr_nat ff using s1(12) that by blast
  then have user: "translate f (phys s1) v = None" if "unat (PDE_IDX v) < 768" for v
    using that by (simp add: translate_def)
  have "maps s1 d = Some f" using s1(10) frame_and_fff [of d] by (simp add: page_at_def translate_def)
  moreover have "same_setting s ?s" using s1(3) by (simp add: same_setting_def upd_task_def)
  moreover have "tasks ?s = (tasks s)(p := fresh_process p nm (next_pid s + 1) q d)"
    by (simp add: upd_task_def s1(5) fresh_process_def)
  ultimately show ?thesis
    using s1(1,4,6-9,13) fin user space_shared_walk(3) [OF s1(11)] space_shared_self [OF s1(11)]
    by (intro exI [of _ ?s] exI [of _ f]) (simp add: same, simp add: upd_task_def)
qed

text \<open>
  C5: \<^verbatim>\<open>process_execute\<close> in a system with twenty-five pages to be had, with a name of fewer than sixteen
  characters: it returns with the new process at the back of the ready queue, with the invariant of
  the system and the interrupt flag as they were; the first page is the process's own, the next
  twenty-three are the bitmap of its user addresses, all of them free, and the last is its page
  directory, in which every kernel address translates as in the current one, no user address is
  mapped, and the entry pointers work; its first stack frame calls \<^verbatim>\<open>start_process\<close> with the program,
  and no other thread changes.
\<close>

theorem process_execute_joins_queue:
  fixes s :: "'a process_machine_scheme"
  assumes "system_at s i (25 + n) ts as" "length nm < 16"
  defines "p \<equiv> heap_page s i" and "q \<equiv> heap_page s (i + 1)" and "d \<equiv> heap_page s (i + 24)"
  shows "\<exists>s' f. process_execute filename nm s = Ret s' () \<and> system_at s' (i + 25) n (ts @ [p]) (as @ [p]) \<and>
    same_setting s s' \<and> next_pid s' = next_pid s + 1 \<and>
    tasks s' = (tasks s)(p := fresh_process p nm (next_pid s + 1) q d) \<and>
    (let st = thread_stacks s' (p + 3664) in
      ts_eip st = kernel_thread_entry s \<and> ts_function st = start_process_entry s \<and> ts_func_arg st = filename) \<and>
    (\<forall>b. b \<noteq> p + 3664 \<longrightarrow> thread_stacks s' b = thread_stacks s b) \<and>
    (\<forall>a \<in> bm_bytes (vaddr_bitmap (user_space q)). mem s' a = 0) \<and>
    maps s' d = Some f \<and> self_mapped f (phys s') \<and>
    (\<forall>v. 768 \<le> unat (PDE_IDX v) \<and> unat (PDE_IDX v) < 1023 \<longrightarrow> translate f (phys s') v = maps s' v) \<and>
    (\<forall>v. unat (PDE_IDX v) < 768 \<longrightarrow> translate f (phys s') v = None)"
  using process_execute_system [OF assms(1,2), of filename] unfolding p_def q_def d_def .

section \<open>The ring of all threads\<close>

text \<open>Every address space of the system reaches the directories of all processes.\<close>

lemma heap_page_in_space:
  assumes h: "heap_at s i n" and j: "j < i" "page_at s (heap_page s j) f" and d: "d = cr3 s \<or> space_shared s d"
  shows "addr_v2p (heap_page s j) (s\<lparr>cr3 := d\<rparr>) = Inr f"
proof -
  have c: "j < bm_cap (heap_bits s)" using heap_atD(2) [OF h] j(1) by simp
  note page = heap_pageD(3,4) [OF heap_atD(1) [OF h] c]
  have sm: "self_mapped d (phys s)"
    using d space_shared_self heap_atD(1) [OF h] by (auto simp: heap_ok_def tables_ok_def)
  have "phys s (pde_addr d (heap_page s j)) = pde_of s (heap_page s j)" "pte_addr d (phys s) (heap_page s j) = pte_at s (heap_page s j)"
    using d space_shared_walk(1,2) [OF _ page] by auto
  then have "page_at (s\<lparr>cr3 := d\<rparr>) (heap_page s j) f" using j(2) by (simp add: page_at_def)
  then show ?thesis using addr_v2p_page [of "s\<lparr>cr3 := d\<rparr>"] sm by simp
qed

lemma system_spaces:
  assumes sys: "system_at s i n ts as" and k: "cr3 s = 0x100000"
  defines "ring \<equiv> running_thread s # ts"
  shows "\<exists>dir. spaces_ok s dir ring"
proof -
  note h = system_atD(1) [OF sys]
  define dir where "dir t = (if pgdir (tasks s t) = 0 then 0x100000 else frame (phys s (pte_at s (pgdir (tasks s t)))))" for t
  have proc: "\<exists>j < i. pgdir (tasks s t) = heap_page s j \<and> page_at s (heap_page s j) (dir t) \<and> space_shared s (dir t)"
    if "t \<in> set ring" "pgdir (tasks s t) \<noteq> 0" for t
    using system_atD(4) [OF sys, of t] that by (auto simp: ring_def thread_space_def dir_def page_at_def)
  have "space_of (s\<lparr>cr3 := d\<rparr>) t = Inr (dir t)" if t: "t \<in> set ring" and d: "d \<in> insert (cr3 s) (dir ` set ring)" for t d
  proof (cases "pgdir (tasks s t) = 0")
    case True
    then show ?thesis by (simp add: space_of_def dir_def)
  next
    case False
    then obtain j where j: "j < i" "pgdir (tasks s t) = heap_page s j" "page_at s (heap_page s j) (dir t)"
      using proc [OF t] by blast
    have "d = cr3 s \<or> space_shared s d" using d proc k by (auto simp: dir_def)
    then have "addr_v2p (heap_page s j) (s\<lparr>cr3 := d\<rparr>) = Inr (dir t)" by (rule heap_page_in_space [OF h j(1,3)])
    then show ?thesis using False j(2) by (simp add: space_of_def)
  qed
  then show ?thesis unfolding spaces_ok_def by blast
qed

lemma system_ring:
  assumes sys: "system_at s i n ts as" and "cr3 s = 0x100000" "intr_get_status s = INTR_OFF"
    "status (tasks s (running_thread s)) = TASK_RUNNING"
  shows "thread_ring s (running_thread s # ts)"
  using system_spaces [OF assms(1,2)] system_atD(2) [OF sys] assms(3,4)
  by (auto simp: thread_ring_def thread_lists_def)

section \<open>A small system\<close>

definition demo_spawn :: process_machine where
  "demo_spawn = demo_heap\<lparr>
     lnk := init_lnk 0xc0005020 (init_lnk (lock_waiters 0xc0006400) (lnk demo_threads)),
     tasks := tasks demo_threads, thread_ready_list := 0xc0005000, thread_all_list := 0xc0005020\<rparr>"

lemma demo_spawn_fields [simp]:
  "lnk demo_spawn = init_lnk 0xc0005020 (init_lnk (lock_waiters 0xc0006400) (lnk demo_threads))"
  "mem demo_spawn = (\<lambda>_. 0)" "tasks demo_spawn = tasks demo_threads" "thread_ready_list demo_spawn = 0xc0005000"
  "thread_all_list demo_spawn = 0xc0005020" "pid_lock demo_spawn = 0xc0006400"
  "main_thread demo_spawn = 0xc009e000" "running_thread demo_spawn = 0xc009e000"
  using demo_process_running by (simp_all add: demo_spawn_def demo_heap_def running_thread_def)

lemma demo_spawn_heap: "heap_at demo_spawn 0 32" "heap_page demo_spawn j = page_no (0xc0200 + j)"
  "bm_cap (heap_bits demo_spawn) = 32"
proof -
  show "heap_at demo_spawn 0 32" using demo_heap_at heap_at_cong [of demo_spawn demo_heap] by (simp add: demo_spawn_def)
  have "vaddr_start (kernel_vaddr demo_spawn) = page_no 0xc0200"
    by (simp add: demo_spawn_def page_no_def push_bit_eq_mult)
  then show "heap_page demo_spawn j = page_no (0xc0200 + j)" by (simp add: heap_page_def nth_page_no)
  show "bm_cap (heap_bits demo_spawn) = 32" by (simp add: demo_spawn_def bm_cap_def)
qed

lemma demo_spawn_lists: "thread_lists demo_spawn [0xc0100000, 0xc0101000] []"
proof -
  have "dlist (lnk demo_spawn) 0xc0005000 (map general_tag [0xc0100000, 0xc0101000])"
    using demo_threads_dlist
    by (simp add: dlist_init_keeps in_foot_iff list_tail_def general_tag_def general_tag_offset_def
        sema_waiters_def lock_semaphore_def)
  moreover have "dlist (lnk demo_spawn) (lock_waiters 0xc0006400) []" "dlist (lnk demo_spawn) 0xc0005020 []"
    by (simp_all add: dlist_init_lnk dlist_init_keeps in_foot_iff list_tail_def sema_waiters_def lock_semaphore_def)
  moreover have "lock_free 0xc0006400 demo_spawn"
    using demo_process_lock(1) by (simp add: lock_free_def demo_spawn_def demo_heap_def)
  ultimately show ?thesis
    by (simp add: thread_lists_def sched_inv_def resumable_def demo_task_def foot_def list_tail_def general_tag_def
        general_tag_offset_def all_list_tag_def all_list_tag_offset_def sema_waiters_def lock_semaphore_def)
qed

text \<open>A page that lies above all list elements is apart from them.\<close>

lemma page_apart_above:
  assumes "frame p = p" "\<forall>a \<in> list_feet s ts as. a < p" "running_thread s < p" "main_thread s < p"
  shows "page_apart s ts as p"
proof -
  have "p \<le> a" if "frame a = p" for a :: u32 using word_and_le2 [of a "0xfffff000"] that by (simp add: frame_def)
  then have "p \<le> general_tag p" "p \<le> all_list_tag p" using frame_tags [OF assms(1)] by blast+
  then have "general_tag p \<notin> list_feet s ts as" "all_list_tag p \<notin> list_feet s ts as" using assms(2) leD by blast+
  moreover have "p \<noteq> running_thread s" "p \<noteq> main_thread s" using assms(3,4) by auto
  ultimately show ?thesis unfolding page_apart_def by blast
qed

lemma demo_system: "system_at demo_spawn 0 32 [0xc0100000, 0xc0101000] []"
proof -
  have "page_apart demo_spawn [0xc0100000, 0xc0101000] [] (heap_page demo_spawn j)" if "j < 32" for j
  proof (rule page_apart_above)
    have "unat (page_no (0xc0200 + j)) = (0xc0200 + j) * 4096" using that by (intro unat_page_no) simp
    then have p: "0xc0200000 \<le> heap_page demo_spawn j" by (simp add: demo_spawn_heap word_le_nat_alt)
    have "\<forall>a \<in> list_feet demo_spawn [0xc0100000, 0xc0101000] []. a < 0xc0200000"
      by (simp add: list_tail_def general_tag_def general_tag_offset_def sema_waiters_def lock_semaphore_def)
    with p show "\<forall>a \<in> list_feet demo_spawn [0xc0100000, 0xc0101000] []. a < heap_page demo_spawn j"
      by (meson less_le_trans)
    show "running_thread demo_spawn < heap_page demo_spawn j" "main_thread demo_spawn < heap_page demo_spawn j"
      using less_le_trans [OF _ p] by simp_all
  qed (simp add: demo_spawn_heap)
  then show ?thesis
    using demo_spawn_heap demo_spawn_lists by (simp add: system_at_def thread_space_def demo_task_def)
qed

theorem thread_start_joins_queue_witness:
  "\<exists>s'. thread_start (lit ''consumer_a'') 8 0xc0001800 0xc0004000 demo_spawn = Ret s' 0xc0200000 \<and>
     sched_inv s' [0xc0100000, 0xc0101000, 0xc0200000]"
proof -
  have "length (lit ''consumer_a'') < 16" "heap_page demo_spawn 0 = 0xc0200000"
    by (simp_all add: lit_def demo_spawn_heap page_no_def push_bit_eq_mult)
  then show ?thesis
    using thread_start_joins_queue [of demo_spawn 0 31 "[0xc0100000, 0xc0101000]" "[]" "lit ''consumer_a''"] demo_system
    by (fastforce simp: system_at_def thread_lists_def)
qed

theorem process_execute_joins_queue_witness:
  "\<exists>s' f. process_execute 0xc0001a00 (lit ''user_prog_a'') demo_spawn = Ret s' () \<and>
     sched_inv s' [0xc0100000, 0xc0101000, 0xc0200000] \<and> self_mapped f (phys s')"
proof -
  have "length (lit ''user_prog_a'') < 16" "heap_page demo_spawn 0 = 0xc0200000"
    by (simp_all add: lit_def demo_spawn_heap page_no_def push_bit_eq_mult)
  then show ?thesis
    using process_execute_joins_queue [of demo_spawn 0 7 "[0xc0100000, 0xc0101000]" "[]" "lit ''user_prog_a''" "0xc0001a00"]
      demo_system
    by (fastforce simp: system_at_def thread_lists_def)
qed

theorem out_of_memory_panics_witness:
  "thread_start (lit ''consumer_a'') 8 0xc0001800 0xc0004000 (demo_spawn\<lparr>mem := (\<lambda>_. 0xff)\<rparr>) =
     Fail (Panic ''lib/bitmap.c'' 27)"
proof -
  have "\<not> bm_free b (\<lambda>_. 0xff) i" for b i
  proof -
    have "bit (0xff :: u8) (i mod 8)" by (simp add: mask_bits)
    then show ?thesis by (simp add: bm_free_def)
  qed
  then have "no_kernel_memory (demo_spawn\<lparr>mem := (\<lambda>_. 0xff)\<rparr>)" by (simp add: no_kernel_memory_def)
  then show ?thesis using out_of_memory_panics by blast
qed

end
