(* ===== verification/Ioqueue.thy ===== *)
theory Ioqueue
  imports Process "HOL-Library.Signed_Division"
begin

text \<open>
  The circular buffer between the keyboard driver and its readers, \<^verbatim>\<open>src/device/ioqueue.c\<close>. A
  queue lives at its address, with its lock as its first member. \<^verbatim>\<open>ioq_getchar\<close> and
  \<^verbatim>\<open>ioq_putchar\<close> can block in two places of their loops: in \<^verbatim>\<open>lock_acquire\<close> and in
  \<^verbatim>\<open>ioq_wait\<close>; a thread that is switched in again goes on with \<open>ioq_getchar_resume\<close> or
  \<open>ioq_putchar_resume\<close>. The locale \<open>bounded_fifo\<close> is the interface of the buffer; the ring of the
  code is an instance of it.
\<close>

section \<open>ioqueue.c\<close>

definition bufsize :: int where "bufsize = 1024"

record ioqueue =
  producer :: u32
  consumer :: u32
  buf :: "u8 list"
  head :: int
  tail :: int

record ioq_machine = process_machine +
  ioqs :: "u32 \<Rightarrow> ioqueue"

definition upd_ioq :: "u32 \<Rightarrow> (ioqueue \<Rightarrow> ioqueue) \<Rightarrow> 'a ioq_machine_scheme \<Rightarrow> 'a ioq_machine_scheme" where
  "upd_ioq ioq f s = s\<lparr>ioqs := (ioqs s)(ioq := f (ioqs s ioq))\<rparr>"

definition ioqueue_init :: "u32 \<Rightarrow> 'a ioq_machine_scheme \<Rightarrow> 'a ioq_machine_scheme" where
  "ioqueue_init ioq s =
     (let s = lock_init ioq s;
          s = upd_ioq ioq (\<lambda>q. q\<lparr>producer := 0, consumer := 0\<rparr>) s
      in upd_ioq ioq (\<lambda>q. q\<lparr>head := 0, tail := 0\<rparr>) s)"

definition next_pos :: "int \<Rightarrow> int" where
  "next_pos pos = (pos + 1) smod bufsize"

definition ioq_full :: "u32 \<Rightarrow> 'a ioq_machine_scheme \<Rightarrow> kerror + bool" where
  "ioq_full ioq s =
     sbind (ASSERT ''device/ioqueue.c'' 21 (intr_get_status s = INTR_OFF)) (\<lambda>_.
       Inr (next_pos (head (ioqs s ioq)) = tail (ioqs s ioq)))"

definition ioq_empty :: "u32 \<Rightarrow> 'a ioq_machine_scheme \<Rightarrow> kerror + bool" where
  "ioq_empty ioq s =
     sbind (ASSERT ''device/ioqueue.c'' 26 (intr_get_status s = INTR_OFF)) (\<lambda>_.
       Inr (head (ioqs s ioq) = tail (ioqs s ioq)))"

text \<open>The two waiter fields, by their names.\<close>

datatype waiter = Producer | Consumer

fun get_waiter :: "waiter \<Rightarrow> ioqueue \<Rightarrow> u32" where
  "get_waiter Producer q = producer q"
| "get_waiter Consumer q = consumer q"

fun set_waiter :: "waiter \<Rightarrow> u32 \<Rightarrow> ioqueue \<Rightarrow> ioqueue" where
  "set_waiter Producer v q = q\<lparr>producer := v\<rparr>"
| "set_waiter Consumer v q = q\<lparr>consumer := v\<rparr>"

definition ioq_wait ::
  "waiter \<Rightarrow> u32 \<Rightarrow> 'a ioq_machine_scheme \<Rightarrow> kerror + (intr_status \<times> 'a ioq_machine_scheme)" where
  "ioq_wait w ioq s =
     sbind (ASSERT ''device/ioqueue.c'' 32 (get_waiter w (ioqs s ioq) = 0)) (\<lambda>_.
       let s = upd_ioq ioq (set_waiter w (running_thread s)) s
       in thread_block TASK_BLOCKED s)"

definition wakeup :: "waiter \<Rightarrow> u32 \<Rightarrow> 'a ioq_machine_scheme \<Rightarrow> kerror + 'a ioq_machine_scheme" where
  "wakeup w ioq s =
     sbind (ASSERT ''device/ioqueue.c'' 38 (get_waiter w (ioqs s ioq) \<noteq> 0)) (\<lambda>_.
     sbind (thread_unblock (get_waiter w (ioqs s ioq)) s) (\<lambda>s.
       Inr (upd_ioq ioq (set_waiter w 0) s)))"

text \<open>The accesses to the buffer; an index outside of it would leave the structure.\<close>

definition ring_get :: "ioqueue \<Rightarrow> kerror + (u8 \<times> ioqueue)" where
  "ring_get q =
     (if 0 \<le> tail q \<and> tail q < bufsize
      then Inr (buf q ! nat (tail q), q\<lparr>tail := next_pos (tail q)\<rparr>)
      else Inl (Overflow ''device/ioqueue.c'' 52))"

definition ring_put :: "u8 \<Rightarrow> ioqueue \<Rightarrow> kerror + ioqueue" where
  "ring_put byte q =
     (if 0 \<le> head q \<and> head q < bufsize
      then Inr (q\<lparr>buf := (buf q)[nat (head q) := byte], head := next_pos (head q)\<rparr>)
      else Inl (Overflow ''device/ioqueue.c'' 70))"

text \<open>Where a thread can be switched out of the loops.\<close>

datatype ioq_point = In_lock frames | In_wait intr_status

type_synonym ('a, 'b) ioq_outcome = "('a ioq_machine_scheme, ioq_point, 'b) outcome"

definition ioq_block :: "waiter \<Rightarrow> u32 \<Rightarrow> 'a ioq_machine_scheme \<Rightarrow> ('a, 'b) ioq_outcome" where
  "ioq_block w ioq s = (case ioq_wait w ioq s of Inl e \<Rightarrow> Fail e | Inr (st, s) \<Rightarrow> Switched s (In_wait st))"

definition ioq_locked ::
  "waiter \<Rightarrow> u32 \<Rightarrow> ('a ioq_machine_scheme, frames, unit) outcome \<Rightarrow> ('a, 'b) ioq_outcome" where
  "ioq_locked w ioq r =
     (case r of Fail e \<Rightarrow> Fail e | Switched s k \<Rightarrow> Switched s (In_lock k) | Ret s _ \<Rightarrow> ioq_block w ioq s)"

definition ioq_take :: "u32 \<Rightarrow> 'a ioq_machine_scheme \<Rightarrow> ('a, u8) ioq_outcome" where
  "ioq_take ioq s =
     finish_with (sbind (ring_get (ioqs s ioq)) (\<lambda>(byte, q).
       let s = upd_ioq ioq (\<lambda>_. q) s in
       sbind (if producer (ioqs s ioq) \<noteq> 0 then wakeup Producer ioq s else Inr s) (\<lambda>s. Inr (byte, s))))"

definition getchar_loop :: "u32 \<Rightarrow> 'a ioq_machine_scheme \<Rightarrow> ('a, u8) ioq_outcome" where
  "getchar_loop ioq s =
     (case ioq_empty ioq s of
        Inl e \<Rightarrow> Fail e
      | Inr is_empty \<Rightarrow> if is_empty then ioq_locked Consumer ioq (lock_acquire ioq s) else ioq_take ioq s)"

definition ioq_getchar :: "u32 \<Rightarrow> 'a ioq_machine_scheme \<Rightarrow> ('a, u8) ioq_outcome" where
  "ioq_getchar ioq s =
     (if intr_get_status s = INTR_OFF then getchar_loop ioq s else Fail (Panic ''device/ioqueue.c'' 45))"

text \<open>Going on after \<^verbatim>\<open>ioq_wait\<close>: restore the flags, release the lock, test again.\<close>

definition after_wait ::
  "u32 \<Rightarrow> intr_status \<Rightarrow> ('a ioq_machine_scheme \<Rightarrow> ('a, 'b) ioq_outcome) \<Rightarrow> 'a ioq_machine_scheme
     \<Rightarrow> ('a, 'b) ioq_outcome" where
  "after_wait ioq st again s =
     (case lock_release ioq (thread_block_resume st s) of Inl e \<Rightarrow> Fail e | Inr s \<Rightarrow> again s)"

fun ioq_getchar_resume :: "u32 \<Rightarrow> ioq_point \<Rightarrow> 'a ioq_machine_scheme \<Rightarrow> ('a, u8) ioq_outcome" where
  "ioq_getchar_resume ioq (In_lock k) s = ioq_locked Consumer ioq (lock_acquire_resume ioq k s)"
| "ioq_getchar_resume ioq (In_wait st) s = after_wait ioq st (getchar_loop ioq) s"

definition ioq_store :: "u32 \<Rightarrow> u8 \<Rightarrow> 'a ioq_machine_scheme \<Rightarrow> ('a, unit) ioq_outcome" where
  "ioq_store ioq byte s =
     finish_state (sbind (ring_put byte (ioqs s ioq)) (\<lambda>q.
       let s = upd_ioq ioq (\<lambda>_. q) s in
       if consumer (ioqs s ioq) \<noteq> 0 then wakeup Consumer ioq s else Inr s))"

definition putchar_loop :: "u32 \<Rightarrow> u8 \<Rightarrow> 'a ioq_machine_scheme \<Rightarrow> ('a, unit) ioq_outcome" where
  "putchar_loop ioq byte s =
     (case ioq_full ioq s of
        Inl e \<Rightarrow> Fail e
      | Inr full \<Rightarrow> if full then ioq_locked Producer ioq (lock_acquire ioq s) else ioq_store ioq byte s)"

definition ioq_putchar :: "u32 \<Rightarrow> u8 \<Rightarrow> 'a ioq_machine_scheme \<Rightarrow> ('a, unit) ioq_outcome" where
  "ioq_putchar ioq byte s =
     (if intr_get_status s = INTR_OFF then putchar_loop ioq byte s else Fail (Panic ''device/ioqueue.c'' 64))"

fun ioq_putchar_resume :: "u32 \<Rightarrow> u8 \<Rightarrow> ioq_point \<Rightarrow> 'a ioq_machine_scheme \<Rightarrow> ('a, unit) ioq_outcome" where
  "ioq_putchar_resume ioq byte (In_lock k) s = ioq_locked Producer ioq (lock_acquire_resume ioq k s)"
| "ioq_putchar_resume ioq byte (In_wait st) s = after_wait ioq st (putchar_loop ioq byte) s"

section \<open>A bounded queue\<close>

text \<open>
  What a bounded first-in-first-out buffer promises: \<open>put\<close> on a buffer that is not full appends,
  \<open>get\<close> on one that is not empty takes the first element.
\<close>

locale bounded_fifo =
  fixes rep :: "'q \<Rightarrow> 'e list"
    and ok :: "'q \<Rightarrow> bool"
    and put :: "'e \<Rightarrow> 'q \<Rightarrow> 'q"
    and get :: "'q \<Rightarrow> 'e \<times> 'q"
    and capacity :: nat
  assumes put_ok: "ok q \<Longrightarrow> length (rep q) < capacity \<Longrightarrow> ok (put e q)"
    and rep_put: "ok q \<Longrightarrow> length (rep q) < capacity \<Longrightarrow> rep (put e q) = rep q @ [e]"
    and get_ok: "ok q \<Longrightarrow> rep q \<noteq> [] \<Longrightarrow> ok (snd (get q))"
    and get_first: "ok q \<Longrightarrow> rep q \<noteq> [] \<Longrightarrow> fst (get q) = hd (rep q)"
    and rep_get: "ok q \<Longrightarrow> rep q \<noteq> [] \<Longrightarrow> rep (snd (get q)) = tl (rep q)"
begin

text \<open>Taking \<open>n\<close> elements one after the other.\<close>

fun gets :: "nat \<Rightarrow> 'q \<Rightarrow> 'e list \<times> 'q" where
  "gets 0 q = ([], q)"
| "gets (Suc n) q = (let (e, q) = get q; (es, q) = gets n q in (e # es, q))"

lemma puts_append:
  "ok q \<Longrightarrow> length (rep q) + length es \<le> capacity \<Longrightarrow>
   ok (fold put es q) \<and> rep (fold put es q) = rep q @ es"
  by (induction es arbitrary: q) (simp_all add: put_ok rep_put)

lemma gets_take:
  "ok q \<Longrightarrow> n \<le> length (rep q) \<Longrightarrow>
   fst (gets n q) = take n (rep q) \<and> rep (snd (gets n q)) = drop n (rep q) \<and> ok (snd (gets n q))"
proof (induction n arbitrary: q)
  case (Suc n)
  then have ne: "rep q \<noteq> []" by auto
  obtain e q' where g: "get q = (e, q')" by (cases "get q")
  have q': "ok q'" "e = hd (rep q)" "rep q' = tl (rep q)"
    using get_ok [OF Suc.prems(1) ne] get_first [OF Suc.prems(1) ne] rep_get [OF Suc.prems(1) ne] g
    by simp_all
  with Suc.IH [of q'] Suc.prems ne show ?case
    by (cases "rep q") (auto simp: g case_prod_beta)
qed simp

text \<open>What goes in comes out in the same order.\<close>

lemma puts_gets:
  assumes "ok q" "rep q = []" "length es \<le> capacity"
  shows "fst (gets (length es) (fold put es q)) = es"
  using puts_append [of q es] gets_take [of "fold put es q" "length es"] assms by simp

end

section \<open>The ring is a bounded queue\<close>

definition ring_ok :: "ioqueue \<Rightarrow> bool" where
  "ring_ok q \<longleftrightarrow> length (buf q) = 1024 \<and> 0 \<le> head q \<and> head q < 1024 \<and> 0 \<le> tail q \<and> tail q < 1024"

definition ring_len :: "ioqueue \<Rightarrow> nat" where
  "ring_len q = nat ((head q - tail q) mod 1024)"

definition contents :: "ioqueue \<Rightarrow> u8 list" where
  "contents q = map (\<lambda>i. buf q ! nat ((tail q + int i) mod 1024)) [0..<ring_len q]"

lemma next_pos_mod: "0 \<le> p \<Longrightarrow> next_pos p = (p + 1) mod 1024"
  by (simp add: next_pos_def bufsize_def smod_int_alt_def)

definition ring_put_q :: "u8 \<Rightarrow> ioqueue \<Rightarrow> ioqueue" where
  "ring_put_q b q = q\<lparr>buf := (buf q)[nat (head q) := b], head := next_pos (head q)\<rparr>"

definition ring_get_q :: "ioqueue \<Rightarrow> u8 \<times> ioqueue" where
  "ring_get_q q = (buf q ! nat (tail q), q\<lparr>tail := next_pos (tail q)\<rparr>)"

lemma ring_ops:
  "ring_ok q \<Longrightarrow> ring_put b q = Inr (ring_put_q b q)"
  "ring_ok q \<Longrightarrow> ring_get q = Inr (ring_get_q q)"
  by (simp_all add: ring_ok_def ring_put_def ring_get_def bufsize_def ring_put_q_def ring_get_q_def)

lemma ring_len_less: "ring_len q < 1024"
  by (simp add: ring_len_def nat_less_iff)

lemma length_contents [simp]: "length (contents q) = ring_len q"
  by (simp add: contents_def)

lemma nth_contents: "i < ring_len q \<Longrightarrow> contents q ! i = buf q ! nat ((tail q + int i) mod 1024)"
  by (simp add: contents_def)

lemma int_ring_len: "int (ring_len q) = (head q - tail q) mod 1024"
  by (simp add: ring_len_def)

lemma ring_end:
  assumes "ring_ok q"
  shows "(tail q + int (ring_len q)) mod 1024 = head q"
  using assms by (simp add: int_ring_len ring_ok_def mod_simps)

lemma ring_inside:
  assumes "ring_ok q" "i < ring_len q"
  shows "(tail q + int i) mod 1024 \<noteq> head q"
proof
  assume "(tail q + int i) mod 1024 = head q"
  then have "int (ring_len q) = ((tail q + int i) mod 1024 - tail q) mod 1024" by (simp add: int_ring_len)
  also have "\<dots> = int i mod 1024" by (simp add: mod_simps)
  also have "\<dots> = int i" using assms(2) ring_len_less [of q] by simp
  finally show False using assms(2) by simp
qed

lemma ring_len_put:
  assumes "ring_ok q" "ring_len q < 1023"
  shows "ring_len (ring_put_q b q) = Suc (ring_len q)"
proof -
  have "int (ring_len (ring_put_q b q)) = ((head q - tail q) mod 1024 + 1) mod 1024"
    using assms(1) by (simp add: int_ring_len ring_put_q_def next_pos_mod ring_ok_def mod_simps algebra_simps)
  also have "\<dots> = int (ring_len q) + 1" using assms(2) by (simp add: int_ring_len [symmetric])
  finally show ?thesis by simp
qed

lemma ring_len_get:
  assumes "ring_ok q" "0 < ring_len q"
  shows "ring_len (snd (ring_get_q q)) = ring_len q - 1"
proof -
  have "int (ring_len (snd (ring_get_q q))) = ((head q - tail q) mod 1024 - 1) mod 1024"
    using assms(1) by (simp add: int_ring_len ring_get_q_def next_pos_mod ring_ok_def mod_simps algebra_simps)
  also have "\<dots> = int (ring_len q) - 1"
    using assms(2) ring_len_less [of q] by (simp add: int_ring_len [symmetric])
  finally show ?thesis using assms(2) by simp
qed

interpretation ring: bounded_fifo contents ring_ok ring_put_q ring_get_q 1023
proof (unfold_locales, goal_cases)
  case (1 q e)
  then show ?case by (simp add: ring_ok_def ring_put_q_def next_pos_mod)
next
  case (2 q e)
  then have len: "ring_len q < 1023" "ring_len (ring_put_q e q) = Suc (ring_len q)"
    by (simp_all add: ring_len_put)
  show ?case
  proof (rule nth_equalityI)
    fix i assume "i < length (contents (ring_put_q e q))"
    then have i: "i < Suc (ring_len q)" using len by simp
    have bounds: "0 \<le> (tail q + int i) mod 1024" "(tail q + int i) mod 1024 < 1024" by simp_all
    have fields: "tail (ring_put_q e q) = tail q" "buf (ring_put_q e q) = (buf q)[nat (head q) := e]"
      by (simp_all add: ring_put_q_def)
    show "contents (ring_put_q e q) ! i = (contents q @ [e]) ! i"
    proof (cases "i = ring_len q")
      case True
      with 2 ring_end [of q] show ?thesis
        using len i by (simp add: nth_contents fields nth_append ring_ok_def)
    next
      case False
      with i have i': "i < ring_len q" by simp
      have "nat ((tail q + int i) mod 1024) \<noteq> nat (head q)"
        using ring_inside [OF 2(1) i'] 2(1) bounds by (simp add: ring_ok_def nat_eq_iff)
      with i' len show ?thesis by (simp add: nth_contents fields nth_append)
    qed
  qed (use len in simp)
next
  case (3 q)
  then show ?case by (simp add: ring_ok_def ring_get_q_def next_pos_mod)
next
  case (4 q)
  then have "0 < ring_len q" by (metis length_contents length_greater_0_conv)
  then have "hd (contents q) = buf q ! nat (tail q mod 1024)"
    using nth_contents [of 0 q] 4(2) by (simp add: hd_conv_nth)
  with 4 show ?case by (simp add: ring_ok_def ring_get_q_def)
next
  case (5 q)
  then have pos: "0 < ring_len q" by (metis length_contents length_greater_0_conv)
  note len = ring_len_get [OF 5(1) pos]
  show ?case
  proof (rule nth_equalityI)
    fix i assume "i < length (contents (snd (ring_get_q q)))"
    then have i: "i < ring_len q - 1" using len by simp
    have "((tail q + 1) mod 1024 + int i) mod 1024 = (tail q + int (Suc i)) mod 1024"
      by (simp add: mod_simps algebra_simps)
    then show "contents (snd (ring_get_q q)) ! i = tl (contents q) ! i"
      using i len 5(1) by (simp add: nth_contents nth_tl ring_get_q_def next_pos_mod ring_ok_def)
  qed (use len in simp)
qed

section \<open>The queue operations\<close>

lemma ring_empty_iff:
  assumes "ring_ok q"
  shows "head q = tail q \<longleftrightarrow> contents q = []"
proof -
  have "contents q = [] \<longleftrightarrow> ring_len q = 0" using length_contents [of q] by (metis length_0_conv)
  moreover have "ring_len q = 0 \<Longrightarrow> head q = tail q"
    using ring_end [OF assms] assms by (simp add: ring_ok_def)
  moreover have "head q = tail q \<Longrightarrow> ring_len q = 0" by (simp add: ring_len_def)
  ultimately show ?thesis by metis
qed

lemma ring_full_iff:
  assumes "ring_ok q"
  shows "next_pos (head q) = tail q \<longleftrightarrow> ring_len q = 1023"
proof
  assume "next_pos (head q) = tail q"
  then have t: "tail q = (head q + 1) mod 1024" using assms by (simp add: next_pos_mod ring_ok_def)
  have "int (ring_len q) = (head q - (head q + 1)) mod 1024"
    unfolding int_ring_len t by (simp add: mod_simps)
  then show "ring_len q = 1023" by simp
next
  assume "ring_len q = 1023"
  then have h: "head q = (tail q + 1023) mod 1024" using ring_end [OF assms] by simp
  have "next_pos (head q) = ((tail q + 1023) + 1) mod 1024"
    using assms h by (simp add: next_pos_mod mod_simps ring_ok_def)
  also have "\<dots> = tail q" using assms by (simp add: ring_ok_def)
  finally show "next_pos (head q) = tail q" .
qed

lemma ioq_empty_eq: "intr_get_status s = INTR_OFF \<Longrightarrow> ring_ok (ioqs s ioq) \<Longrightarrow>
    ioq_empty ioq s = Inr (contents (ioqs s ioq) = [])"
  by (simp add: ioq_empty_def ring_empty_iff)

lemma ioq_full_eq: "intr_get_status s = INTR_OFF \<Longrightarrow> ring_ok (ioqs s ioq) \<Longrightarrow>
    ioq_full ioq s = Inr (length (contents (ioqs s ioq)) = 1023)"
  by (simp add: ioq_full_def ring_full_iff)

text \<open>A queue in use that no thread waits for.\<close>

definition ioq_idle :: "u32 \<Rightarrow> 'a ioq_machine_scheme \<Rightarrow> bool" where
  "ioq_idle ioq s \<longleftrightarrow> intr_get_status s = INTR_OFF \<and> ring_ok (ioqs s ioq) \<and>
     producer (ioqs s ioq) = 0 \<and> consumer (ioqs s ioq) = 0"

lemma waiters_kept [simp]:
  "producer (ring_put_q b q) = producer q" "consumer (ring_put_q b q) = consumer q"
  "producer (snd (ring_get_q q)) = producer q" "consumer (snd (ring_get_q q)) = consumer q"
  by (simp_all add: ring_put_q_def ring_get_q_def)

lemma ioq_putchar_eq:
  assumes "ioq_idle ioq s" "length (contents (ioqs s ioq)) < 1023"
  shows "ioq_putchar ioq b s = Ret (upd_ioq ioq (ring_put_q b) s) ()"
  using assms
  by (simp add: ioq_idle_def ioq_putchar_def putchar_loop_def ioq_full_eq ioq_store_def ring_ops
      upd_ioq_def Let_def)

lemma ioq_getchar_eq:
  assumes "ioq_idle ioq s" "contents (ioqs s ioq) \<noteq> []"
  shows "ioq_getchar ioq s =
    Ret (upd_ioq ioq (\<lambda>q. snd (ring_get_q q)) s) (hd (contents (ioqs s ioq)))"
  using assms ring.get_first [of "ioqs s ioq"]
  by (simp add: ioq_idle_def ioq_getchar_def getchar_loop_def ioq_empty_eq ioq_take_def ring_ops
      upd_ioq_def Let_def case_prod_beta finish_with_def)

lemma ioq_idle_upd:
  assumes "ioq_idle ioq s" "ring_ok (f (ioqs s ioq))"
    "producer (f (ioqs s ioq)) = 0" "consumer (f (ioqs s ioq)) = 0"
  shows "ioq_idle ioq (upd_ioq ioq f s)"
  using assms by (simp add: ioq_idle_def upd_ioq_def intr_get_status_def)

text \<open>Characters one after the other.\<close>

fun put_chars_ioq :: "u32 \<Rightarrow> u8 list \<Rightarrow> 'a ioq_machine_scheme \<Rightarrow> ('a, unit) ioq_outcome" where
  "put_chars_ioq ioq [] s = Ret s ()"
| "put_chars_ioq ioq (b # bs) s = obind (ioq_putchar ioq b s) (\<lambda>_. put_chars_ioq ioq bs)"

fun get_chars_ioq :: "u32 \<Rightarrow> nat \<Rightarrow> 'a ioq_machine_scheme \<Rightarrow> ('a, u8 list) ioq_outcome" where
  "get_chars_ioq ioq 0 s = Ret s []"
| "get_chars_ioq ioq (Suc n) s =
     obind (ioq_getchar ioq s) (\<lambda>b s. obind (get_chars_ioq ioq n s) (\<lambda>bs s. Ret s (b # bs)))"

lemma put_chars_ioq_appends:
  "ioq_idle ioq s \<Longrightarrow> length (contents (ioqs s ioq)) + length bs \<le> 1023 \<Longrightarrow>
   \<exists>s'. put_chars_ioq ioq bs s = Ret s' () \<and> ioq_idle ioq s' \<and>
     contents (ioqs s' ioq) = contents (ioqs s ioq) @ bs"
proof (induction bs arbitrary: s)
  case (Cons b bs)
  let ?s = "upd_ioq ioq (ring_put_q b) s"
  have ok: "ring_ok (ioqs s ioq)" "length (contents (ioqs s ioq)) < 1023"
    using Cons.prems by (simp_all add: ioq_idle_def)
  have idle: "ioq_idle ioq ?s"
    using Cons.prems(1) ring.put_ok [OF ok] by (intro ioq_idle_upd) (simp_all add: ioq_idle_def)
  have "contents (ioqs ?s ioq) = contents (ioqs s ioq) @ [b]"
    using ring.rep_put [OF ok] by (simp add: upd_ioq_def)
  with Cons.IH [OF idle] Cons.prems(2) ioq_putchar_eq [OF Cons.prems(1) ok(2), of b] show ?case by auto
qed auto

lemma get_chars_ioq_takes:
  "ioq_idle ioq s \<Longrightarrow> n \<le> length (contents (ioqs s ioq)) \<Longrightarrow>
   \<exists>s'. get_chars_ioq ioq n s = Ret s' (take n (contents (ioqs s ioq))) \<and> ioq_idle ioq s' \<and>
     contents (ioqs s' ioq) = drop n (contents (ioqs s ioq))"
proof (induction n arbitrary: s)
  case (Suc n)
  let ?s = "upd_ioq ioq (\<lambda>q. snd (ring_get_q q)) s"
  have ok: "ring_ok (ioqs s ioq)" "contents (ioqs s ioq) \<noteq> []"
    using Suc.prems(1) Suc_le_length_iff [THEN iffD1, OF Suc.prems(2)] by (auto simp: ioq_idle_def)
  have idle: "ioq_idle ioq ?s"
    using Suc.prems(1) ring.get_ok [OF ok] by (intro ioq_idle_upd) (simp_all add: ioq_idle_def)
  have rest: "contents (ioqs ?s ioq) = tl (contents (ioqs s ioq))"
    using ring.rep_get [OF ok] by (simp add: upd_ioq_def)
  have n: "n \<le> length (contents (ioqs ?s ioq))" using Suc.prems(2) unfolding rest by simp
  from Suc.IH [OF idle n] obtain s' where s': "get_chars_ioq ioq n ?s = Ret s' (take n (tl (contents (ioqs s ioq))))"
    "ioq_idle ioq s'" "contents (ioqs s' ioq) = drop n (tl (contents (ioqs s ioq)))"
    unfolding rest by blast
  with ioq_getchar_eq [OF Suc.prems(1) ok(2)] ok(2) show ?case
    by (cases "contents (ioqs s ioq)") auto
qed auto

text \<open>An empty queue beside the small system of threads; \<open>c\<close> is the reader that waits.\<close>

definition demo_ioq :: "u32 \<Rightarrow> ioq_machine" where
  "demo_ioq c = (process_machine.extend demo_process
     \<lparr>ioqs = (\<lambda>_. \<lparr>producer = 0, consumer = c, buf = replicate 1024 0, head = 0, tail = 0\<rparr>)\<rparr>)
     \<lparr>eflags := 2, lnk := lnk demo_threads, tasks := tasks demo_threads, esp := esp demo_threads,
      thread_ready_list := thread_ready_list demo_threads\<rparr>"

lemma demo_ioq_fields [simp]:
  "ioqs (demo_ioq c) q = \<lparr>producer = 0, consumer = c, buf = replicate 1024 0, head = 0, tail = 0\<rparr>"
  "eflags (demo_ioq c) = 2" "lnk (demo_ioq c) = lnk demo_threads" "tasks (demo_ioq c) = tasks demo_threads"
  "esp (demo_ioq c) = esp demo_threads" "thread_ready_list (demo_ioq c) = thread_ready_list demo_threads"
  by (simp_all add: demo_ioq_def process_machine.defs)

lemma demo_ioq_ring: "ring_ok (ioqs (demo_ioq c) q)" "contents (ioqs (demo_ioq c) q) = []"
  by (simp_all add: ring_ok_def contents_def ring_len_def)

text \<open>
  C12: the queue with interrupts off and nobody waiting: it is empty or full exactly when it holds
  0 or 1023 characters; as long as there is room \<^verbatim>\<open>ioq_putchar\<close> returns at once and appends, as
  long as there are characters \<^verbatim>\<open>ioq_getchar\<close> returns the oldest; so any number of characters up
  to the room left, put one after the other behind the characters already there, come out in the
  order they went in.
\<close>

theorem ioq_is_fifo:
  assumes "ioq_idle ioq s" "length (contents (ioqs s ioq)) + length bs \<le> 1023"
  shows "ioq_empty ioq s = Inr (contents (ioqs s ioq) = []) \<and>
    ioq_full ioq s = Inr (length (contents (ioqs s ioq)) = 1023) \<and>
    (\<exists>s1 s2. put_chars_ioq ioq bs s = Ret s1 () \<and>
      get_chars_ioq ioq (length (contents (ioqs s ioq)) + length bs) s1 =
        Ret s2 (contents (ioqs s ioq) @ bs) \<and> contents (ioqs s2 ioq) = [])"
proof -
  obtain s1 where s1: "put_chars_ioq ioq bs s = Ret s1 ()" "ioq_idle ioq s1"
    "contents (ioqs s1 ioq) = contents (ioqs s ioq) @ bs"
    using put_chars_ioq_appends [OF assms] by blast
  have n: "length (contents (ioqs s ioq)) + length bs = length (contents (ioqs s1 ioq))"
    by (simp only: s1(3) length_append)
  obtain s2 where "get_chars_ioq ioq (length (contents (ioqs s1 ioq))) s1 = Ret s2 (contents (ioqs s1 ioq))"
    "contents (ioqs s2 ioq) = []"
    using get_chars_ioq_takes [OF s1(2) order_refl] by auto
  then show ?thesis
    using s1 assms(1) unfolding n by (auto simp: ioq_idle_def ioq_empty_eq ioq_full_eq)
qed

theorem ioq_is_fifo_witness:
  "\<exists>s1 s2. put_chars_ioq 0xc0007000 [104, 105] (demo_ioq 0) = Ret s1 () \<and>
     get_chars_ioq 0xc0007000 2 s1 = Ret s2 [104, 105]"
proof -
  have "ioq_idle 0xc0007000 (demo_ioq 0)"
    using demo_ioq_ring by (simp add: ioq_idle_def intr_get_status_def EFLAGS_IF_def)
  then show ?thesis
    using ioq_is_fifo [of "0xc0007000" "demo_ioq 0" "[104, 105]"] demo_ioq_ring(2) [of 0 "0xc0007000"]
    by (auto simp: numeral_2_eq_2 simp del: length_contents)
qed

text \<open>The state after a character has been put and the waiting reader woken.\<close>

definition read_woken :: "u32 \<Rightarrow> u8 \<Rightarrow> u32 \<Rightarrow> 'a ioq_machine_scheme \<Rightarrow> 'a ioq_machine_scheme" where
  "read_woken ioq b t s = upd_ioq ioq (set_waiter Consumer 0) (woken t (upd_ioq ioq (ring_put_q b) s))"

lemma upd_ioq_fields [simp]:
  "running_thread (upd_ioq ioq f s) = running_thread s" "tasks (upd_ioq ioq f s) = tasks s"
  "lnk (upd_ioq ioq f s) = lnk s" "thread_ready_list (upd_ioq ioq f s) = thread_ready_list s"
  "esp (upd_ioq ioq f s) = esp s" "intr_get_status (upd_ioq ioq f s) = intr_get_status s"
  "sched_inv (upd_ioq ioq f s) ts \<longleftrightarrow> sched_inv s ts"
  by (simp_all add: upd_ioq_def running_thread_def intr_get_status_def sched_inv_def)

lemma putchar_wakes:
  assumes "intr_get_status s = INTR_OFF" "ring_ok (ioqs s ioq)" "contents (ioqs s ioq) = []"
    and "consumer (ioqs s ioq) = t" "t \<noteq> 0" "sched_inv s ts"
    and "status (tasks s t) = TASK_BLOCKED" "resumable (tasks s t) t" "t \<noteq> running_thread s"
    and "general_tag t \<notin> foot (thread_ready_list s) (map general_tag ts)"
  shows "ioq_putchar ioq b s = Ret (read_woken ioq b t s) ()" "contents (ioqs (read_woken ioq b t s) ioq) = [b]"
    "sched_inv (read_woken ioq b t s) (t # ts)" "running_thread (read_woken ioq b t s) = running_thread s"
proof -
  let ?s = "upd_ioq ioq (ring_put_q b) s"
  have len: "length (contents (ioqs s ioq)) < 1023" by (simp only: assms(3)) simp
  have inv: "sched_inv ?s ts" using assms(6) by simp
  have blocked: "blocked_status (status (tasks ?s t))" using assms(7) by (simp add: blocked_status_def)
  note un = thread_unblock_front [OF inv blocked, unfolded upd_ioq_fields, OF assms(8-10)]
  have "wakeup Consumer ioq ?s = Inr (read_woken ioq b t s)"
    using un(1) assms(4,5) by (simp add: wakeup_def read_woken_def) (simp add: upd_ioq_def)
  then show "ioq_putchar ioq b s = Ret (read_woken ioq b t s) ()"
    using assms(1,2,4,5) len
    by (simp add: ioq_putchar_def putchar_loop_def ioq_full_eq ioq_store_def ring_ops upd_ioq_def Let_def)
  have "contents (ring_put_q b (ioqs s ioq)) = [b]"
    using ring.rep_put [OF assms(2) len, of b] by (simp add: assms(3))
  then show "contents (ioqs (read_woken ioq b t s) ioq) = [b]"
    by (simp add: read_woken_def upd_ioq_def woken_def upd_task_def list_op_eqs contents_def ring_len_def)
  show "sched_inv (read_woken ioq b t s) (t # ts)" "running_thread (read_woken ioq b t s) = running_thread s"
    using un(2,3) by (simp_all add: read_woken_def)
qed

text \<open>
  A reader that waits for the empty queue: a character put into the queue is stored, the
  reader becomes ready at the front of the ready queue, and the queue no longer names it as waiting.
\<close>

lemma ioq_putchar_wakes_reader:
  assumes "intr_get_status s = INTR_OFF" "ring_ok (ioqs s ioq)" "contents (ioqs s ioq) = []"
    and "consumer (ioqs s ioq) = t" "t \<noteq> 0" "sched_inv s ts"
    and "status (tasks s t) = TASK_BLOCKED" "resumable (tasks s t) t" "t \<noteq> running_thread s"
    and "general_tag t \<notin> foot (thread_ready_list s) (map general_tag ts)"
  shows "\<exists>s'. ioq_putchar ioq b s = Ret s' () \<and> contents (ioqs s' ioq) = [b] \<and>
    consumer (ioqs s' ioq) = 0 \<and> sched_inv s' (t # ts) \<and> status (tasks s' t) = TASK_READY"
  using putchar_wakes [OF assms, of b]
  by (simp add: read_woken_def woken_def upd_task_def list_op_eqs) (simp add: upd_ioq_def)

lemma ioq_putchar_wakes_reader_example:
  "\<exists>s'. ioq_putchar 0xc0007000 104 (demo_ioq 0xc0300000) = Ret s' () \<and>
     sched_inv s' [0xc0300000, 0xc0100000, 0xc0101000]"
proof -
  have "sched_inv (demo_ioq 0xc0300000) [0xc0100000, 0xc0101000]"
    using demo_threads_inv by (simp add: sched_inv_def running_thread_def)
  then show ?thesis
    using ioq_putchar_wakes_reader [of "demo_ioq 0xc0300000" "0xc0007000" "0xc0300000" "[0xc0100000, 0xc0101000]" 104]
      demo_ioq_ring
    by (auto simp: intr_get_status_def EFLAGS_IF_def running_thread_def demo_task_def resumable_def
        in_foot_iff list_tail_def general_tag_def general_tag_offset_def)
qed

end
