(* ===== verification/Keyboard.thy ===== *)
theory Keyboard
  imports Ioqueue
begin

text \<open>
  The keyboard driver, \<^verbatim>\<open>src/device/keyboard.c\<close>: the table of characters by make code, the state
  of the modifier keys and the interrupt handler. What the keyboard controller answers to
  \<^verbatim>\<open>inb(KBD_BUF_PORT)\<close> is the argument \<open>dev\<close>. The scan code is an eight-bit variable, so the prefix
  0xe0 that the handler means to put in front of it does not survive the assignment.
\<close>

section \<open>keyboard.c\<close>

abbreviation (input) KBD_BUF_PORT :: u16 where "KBD_BUF_PORT \<equiv> 0x60"

abbreviation (input) esc :: u8 where "esc \<equiv> 27"
abbreviation (input) backspace :: u8 where "backspace \<equiv> 8"
abbreviation (input) tab :: u8 where "tab \<equiv> 9"
abbreviation (input) enter :: u8 where "enter \<equiv> 13"

abbreviation (input) char_invisible :: u8 where "char_invisible \<equiv> 0"
abbreviation (input) ctrl_l_char :: u8 where "ctrl_l_char \<equiv> char_invisible"
abbreviation (input) shift_l_char :: u8 where "shift_l_char \<equiv> char_invisible"
abbreviation (input) shift_r_char :: u8 where "shift_r_char \<equiv> char_invisible"
abbreviation (input) alt_l_char :: u8 where "alt_l_char \<equiv> char_invisible"
abbreviation (input) caps_lock_char :: u8 where "caps_lock_char \<equiv> char_invisible"

definition shift_l_make :: u16 where "shift_l_make = 0x2a"
definition shift_r_make :: u16 where "shift_r_make = 0x36"
definition alt_l_make :: u16 where "alt_l_make = 0x38"
definition alt_r_make :: u16 where "alt_r_make = 0xe038"
definition ctrl_l_make :: u16 where "ctrl_l_make = 0x1d"
definition ctrl_r_make :: u16 where "ctrl_r_make = 0xe01d"
definition caps_lock_make :: u16 where "caps_lock_make = 0x3a"

text \<open>The characters by make code, without and with shift; 0 for keys without a character.\<close>

definition keymap :: "(u8 \<times> u8) list" where
  "keymap =
    (let k = \<lambda>p. (of_char (fst p), of_char (snd p)); same = \<lambda>c. (c, c)
     in [same 0, same esc] @
        map k (zip ''1234567890-='' ''!@#$%^&*()_+'') @ [same backspace, same tab] @
        map k (zip ''qwertyuiop[]'' ''QWERTYUIOP{}'') @ [same enter, same ctrl_l_char] @
        map k (zip ''asdfghjkl;'' ''ASDFGHJKL:'') @ [(39, 34), (96, 126), same shift_l_char, (92, 124)] @
        map k (zip ''zxcvbnm,./'' ''ZXCVBNM<>?'') @
        [same shift_r_char, same 42, same alt_l_char, same 32, same caps_lock_char])"

record keyboard =
  ctrl_status :: bool
  shift_status :: bool
  alt_status :: bool
  caps_lock_status :: bool
  ext_scancode :: bool

record keyboard_machine = ioq_machine +
  kbd :: keyboard
  kbd_buf :: u32

definition upd_kbd ::
  "(keyboard \<Rightarrow> keyboard) \<Rightarrow> 'a keyboard_machine_scheme \<Rightarrow> 'a keyboard_machine_scheme" where
  "upd_kbd f s = s\<lparr>kbd := f (kbd s)\<rparr>"

text \<open>The keys on which only shift chooses between two symbols.\<close>

definition double_key :: "u8 \<Rightarrow> bool" where
  "double_key scancode \<longleftrightarrow> scancode < 0x0e \<or> scancode = 0x29 \<or> scancode = 0x1a \<or> scancode = 0x1b \<or>
     scancode = 0x2b \<or> scancode = 0x27 \<or> scancode = 0x28 \<or> scancode = 0x33 \<or> scancode = 0x34 \<or>
     scancode = 0x35"

definition use_shift :: "u8 \<Rightarrow> bool \<Rightarrow> bool \<Rightarrow> bool" where
  "use_shift scancode shift_down_last caps_lock_last =
     (if double_key scancode then shift_down_last
      else if shift_down_last \<and> caps_lock_last then False
      else if shift_down_last \<or> caps_lock_last then True
      else False)"

definition key_released :: "u8 \<Rightarrow> keyboard \<Rightarrow> keyboard" where
  "key_released scancode k =
     (let make_code = ucast scancode AND 0xff7f in
      if make_code = ctrl_l_make \<or> make_code = ctrl_r_make then k\<lparr>ctrl_status := False\<rparr>
      else if make_code = shift_l_make \<or> make_code = shift_r_make then k\<lparr>shift_status := False\<rparr>
      else if make_code = alt_l_make \<or> make_code = alt_r_make then k\<lparr>alt_status := False\<rparr>
      else k)"

definition modifier_pressed :: "u8 \<Rightarrow> keyboard \<Rightarrow> keyboard" where
  "modifier_pressed scancode k =
     (if ucast scancode = ctrl_l_make \<or> ucast scancode = ctrl_r_make then k\<lparr>ctrl_status := True\<rparr>
      else if ucast scancode = shift_l_make \<or> ucast scancode = shift_r_make then k\<lparr>shift_status := True\<rparr>
      else if ucast scancode = caps_lock_make then k\<lparr>caps_lock_status := \<not> caps_lock_status k\<rparr>
      else k)"

definition scancode_handler ::
  "u8 \<Rightarrow> 'a keyboard_machine_scheme
     \<Rightarrow> ('a keyboard_machine_scheme, ioq_point, unit) outcome" where
  "scancode_handler inb_value s =
     (let shift_down_last = shift_status (kbd s);
          caps_lock_last = caps_lock_status (kbd s);
          scancode = inb_value in
      if scancode = 0xe0 then Ret (upd_kbd (\<lambda>k. k\<lparr>ext_scancode := True\<rparr>) s) ()
      else
        let ext = ext_scancode (kbd s);
            scancode = (if ext then ucast (0xe000 OR (ucast scancode :: u32)) else scancode);
            s = (if ext then upd_kbd (\<lambda>k. k\<lparr>ext_scancode := False\<rparr>) s else s);
            break_code = scancode AND 0x80 \<noteq> 0 in
        if break_code then Ret (upd_kbd (key_released scancode) s) ()
        else if (0 < scancode \<and> scancode < 0x3b) \<or> ucast scancode = alt_r_make \<or>
            ucast scancode = ctrl_r_make then
          let shift = use_shift scancode shift_down_last caps_lock_last;
              index = scancode AND 0xff;
              entry = keymap ! unat index;
              cur_char = (if shift then snd entry else fst entry) in
          if cur_char \<noteq> 0 then
            (case ioq_full (kbd_buf s) s of
               Inl e \<Rightarrow> Fail e
             | Inr full \<Rightarrow> if \<not> full then ioq_putchar (kbd_buf s) cur_char s else Ret s ())
          else Ret (upd_kbd (modifier_pressed scancode) s) ()
        else Ret (put_str (lit ''unknow key'' @ [10]) s) ())"

definition intr_keyboard_handler ::
  "(u16 \<Rightarrow> u8) \<Rightarrow> 'a keyboard_machine_scheme
     \<Rightarrow> ('a keyboard_machine_scheme, ioq_point, unit) outcome" where
  "intr_keyboard_handler dev s = scancode_handler (inb dev KBD_BUF_PORT) s"

text \<open>
  \<^verbatim>\<open>keyboard_init\<close>: the state and the handler table of \<^verbatim>\<open>interrupt.c\<close>, which is the other component.
\<close>

definition keyboard_init ::
  "u32 \<Rightarrow> intr_tables \<times> 'a keyboard_machine_scheme \<Rightarrow> kerror + (intr_tables \<times> 'a keyboard_machine_scheme)" where
  "keyboard_init intr_keyboard_handler_addr ts =
     (let (t, s) = ts;
          s = put_str (lit ''keyboard init start'' @ [10]) s;
          s = ioqueue_init (kbd_buf s) s in
      sbind (register_handler 0x21 intr_keyboard_handler_addr t) (\<lambda>t.
        Inr (t, put_str (lit ''keyboard init done'' @ [10]) s)))"

section \<open>Which character a key gives\<close>

definition letter :: "u8 \<Rightarrow> bool" where
  "letter c \<longleftrightarrow> 97 \<le> c \<and> c \<le> 122"

definition key_fits :: "nat \<Rightarrow> u8 \<times> u8 \<Rightarrow> bool" where
  "key_fits i e \<longleftrightarrow>
     (if letter (fst e) then snd e = fst e - 32 \<and> \<not> double_key (of_nat i)
      else fst e = snd e \<or> double_key (of_nat i))"

lemma keymap_fits: "length keymap = 59 \<and> list_all (\<lambda>i. key_fits i (keymap ! i)) [0..<59]"
  by code_simp

lemma key_fits_nth: "(c :: u8) < 0x3b \<Longrightarrow> key_fits (unat c) (keymap ! unat c)"
proof -
  assume "(c :: u8) < 0x3b"
  then have "unat c \<in> set [0..<59]" by (simp add: word_less_nat_alt)
  then show ?thesis using keymap_fits by (auto simp: list_all_iff)
qed

lemma use_shift_cases: "use_shift c sh caps = (if double_key c then sh else sh \<noteq> caps)"
  by (auto simp: use_shift_def)

text \<open>The character of a key when shift is held or not and caps lock is on or not.\<close>

definition key_char :: "u8 \<Rightarrow> bool \<Rightarrow> bool \<Rightarrow> u8" where
  "key_char c sh caps =
     (let e = keymap ! unat c
      in if letter (fst e) then (if sh \<noteq> caps then fst e - 32 else fst e)
         else if sh then snd e else fst e)"

lemma chosen_char:
  "c < 0x3b \<Longrightarrow>
   (if use_shift c sh caps then snd (keymap ! unat c) else fst (keymap ! unat c)) = key_char c sh caps"
  using key_fits_nth [of c] by (auto simp: key_fits_def key_char_def use_shift_cases Let_def)

lemma and_ff: "(c :: u8) AND 0xff = c"
  by (rule bit_word_eqI) (auto simp: bit_simps mask_bits)

lemma no_break: "(c :: u8) < 0x80 \<Longrightarrow> c AND 0x80 = 0"
proof -
  assume c: "c < 0x80"
  have "c div 128 = 0" using c by (simp add: word_unat_eq_iff unat_div word_less_nat_alt)
  then have "\<not> bit c 7" by (simp add: bit_iff_odd)
  then show ?thesis by (intro bit_word_eqI) (auto simp: bit_simps mask_bits)
qed

section \<open>What the handler does\<close>

lemma upd_kbd_fields [simp]:
  "ioqs (upd_kbd f s) = ioqs s" "kbd_buf (upd_kbd f s) = kbd_buf s" "kbd (upd_kbd f s) = f (kbd s)"
  "intr_get_status (upd_kbd f s) = intr_get_status s"
  by (simp_all add: upd_kbd_def intr_get_status_def)

lemma ext_lost: "(ucast (0xe000 OR (ucast (c :: u8) :: u32)) :: u8) = c"
  by (rule bit_word_eqI) (auto simp: bit_simps mask_bits)

text \<open>A key with a character goes to the buffer, unless that is full.\<close>

lemma key_code:
  fixes c :: u8 and s :: "'a keyboard_machine_scheme"
  defines "k \<equiv> key_char c (shift_status (kbd s)) (caps_lock_status (kbd s))"
  assumes c: "0 < c" "c < 0x3b" "\<not> ext_scancode (kbd s)" "k \<noteq> 0"
    and ok: "intr_get_status s = INTR_OFF" "ring_ok (ioqs s (kbd_buf s))"
  shows "scancode_handler c s =
    (if length (contents (ioqs s (kbd_buf s))) = 1023 then Ret s () else ioq_putchar (kbd_buf s) k s)"
proof -
  have code: "c \<noteq> 0xe0" "c AND 0x80 = 0" using c(2) no_break [of c] by (auto simp: word_less_nat_alt)
  have "scancode_handler c s =
      (case ioq_full (kbd_buf s) s of Inl e \<Rightarrow> Fail e
       | Inr full \<Rightarrow> if \<not> full then ioq_putchar (kbd_buf s) k s else Ret s ())"
    using c code chosen_char [OF c(2), of "shift_status (kbd s)" "caps_lock_status (kbd s)"]
    by (cases "use_shift c (shift_status (kbd s)) (caps_lock_status (kbd s))")
      (simp_all add: k_def scancode_handler_def Let_def and_ff split: sum.split)
  then show ?thesis by (simp only: ioq_full_eq [OF ok] sum.case) simp
qed

text \<open>
  C30: a key with a character, pressed with interrupts off while the buffer has room and nobody
  waits for it: the character goes to the end of the buffer. A letter is a capital exactly when
  one of shift and caps lock is on; any other character depends on shift alone. When the buffer is
  full the key is dropped and nothing changes.
\<close>

theorem key_press_stores_character:
  assumes "0 < c" "c < 0x3b" "\<not> ext_scancode (kbd s)"
    and "key_char c (shift_status (kbd s)) (caps_lock_status (kbd s)) \<noteq> 0"
    and "ioq_idle (kbd_buf s) s" and dev: "inb dev KBD_BUF_PORT = c"
  shows "if length (contents (ioqs s (kbd_buf s))) < 1023
    then \<exists>s'. intr_keyboard_handler dev s = Ret s' () \<and> kbd s' = kbd s \<and>
      contents (ioqs s' (kbd_buf s)) = contents (ioqs s (kbd_buf s)) @
        [key_char c (shift_status (kbd s)) (caps_lock_status (kbd s))]
    else intr_keyboard_handler dev s = Ret s ()"
proof -
  let ?k = "key_char c (shift_status (kbd s)) (caps_lock_status (kbd s))" and ?q = "ioqs s (kbd_buf s)"
  have ok: "intr_get_status s = INTR_OFF" "ring_ok ?q" using assms(5) by (simp_all add: ioq_idle_def)
  note handler = key_code [OF assms(1-4) ok]
  show ?thesis
  proof (cases "length (contents ?q) < 1023")
    case True
    then have "scancode_handler c s = Ret (upd_ioq (kbd_buf s) (ring_put_q ?k) s) ()"
      using handler ioq_putchar_eq [OF assms(5) True, of ?k] by simp
    with True ring.rep_put [OF ok(2) True, of ?k] show ?thesis by (simp add: upd_ioq_def intr_keyboard_handler_def dev)
  next
    case False
    then have "length (contents ?q) = 1023" using ring_len_less [of ?q] by simp
    then show ?thesis using handler by (simp add: intr_keyboard_handler_def dev)
  qed
qed

definition demo_keyboard :: keyboard_machine where
  "demo_keyboard = ioq_machine.extend (demo_ioq 0)
     \<lparr>kbd = \<lparr>ctrl_status = False, shift_status = True, alt_status = False, caps_lock_status = False,
        ext_scancode = False\<rparr>, kbd_buf = 0xc0007000\<rparr>"

lemma demo_keyboard_fields [simp]:
  "ioqs demo_keyboard = ioqs (demo_ioq 0)" "eflags demo_keyboard = 2" "kbd_buf demo_keyboard = 0xc0007000"
  "kbd demo_keyboard = \<lparr>ctrl_status = False, shift_status = True, alt_status = False,
     caps_lock_status = False, ext_scancode = False\<rparr>"
  by (simp_all add: demo_keyboard_def ioq_machine.defs demo_ioq_def process_machine.defs)

lemma keymap_1e: "keymap ! 0x1e = (97, 65)"
  by code_simp

theorem key_press_stores_character_witness:
  "\<exists>s'. intr_keyboard_handler (\<lambda>_. 0x1e) demo_keyboard = Ret s' () \<and> contents (ioqs s' 0xc0007000) = [65]"
proof -
  have k: "key_char 0x1e True False = 65" by (simp add: key_char_def keymap_1e letter_def)
  have idle: "ioq_idle (kbd_buf demo_keyboard) demo_keyboard"
    using demo_ioq_ring by (simp add: ioq_idle_def intr_get_status_def EFLAGS_IF_def)
  have e: "contents (ioqs demo_keyboard 0xc0007000) = []"
    using demo_ioq_ring(2) [of 0 "0xc0007000"] by (simp only: demo_keyboard_fields)
  show ?thesis
    using key_press_stores_character [of "0x1e" demo_keyboard, OF _ _ _ _ idle, of "\<lambda>_. 0x1e"] e
    by (auto simp del: length_contents demo_ioq_fields simp: k inb_def)
qed

lemma keymap_modifiers:
  "keymap ! 0x1d = (0, 0)" "keymap ! 0x2a = (0, 0)" "keymap ! 0x36 = (0, 0)" "keymap ! 0x38 = (0, 0)"
  "keymap ! 0x3a = (0, 0)"
  by code_simp+

lemmas make_codes = ctrl_l_make_def ctrl_r_make_def shift_l_make_def shift_r_make_def alt_l_make_def
  alt_r_make_def caps_lock_make_def

lemma ext_cleared:
  "(if ext_scancode (kbd s) then upd_kbd (\<lambda>k. k\<lparr>ext_scancode := False\<rparr>) s else s) =
   upd_kbd (\<lambda>k. k\<lparr>ext_scancode := False\<rparr>) s"
  by (simp add: upd_kbd_def)

text \<open>The code that follows the prefix is the code without it.\<close>

lemma scancode_merged:
  "(if ext then ucast (0xe000 OR (ucast (c :: u8) :: u32)) else c) = c"
  by (simp add: ext_lost)

text \<open>What a code does to the modifiers, and that it ends the effect of a prefix.\<close>

definition after_key ::
  "(keyboard \<Rightarrow> keyboard) \<Rightarrow> 'a keyboard_machine_scheme
     \<Rightarrow> ('a keyboard_machine_scheme, ioq_point, unit) outcome" where
  "after_key f s = Ret (upd_kbd (\<lambda>k. f (k\<lparr>ext_scancode := False\<rparr>)) s) ()"

lemma upd_kbd_twice: "upd_kbd f (upd_kbd g s) = upd_kbd (\<lambda>k. f (g k)) s"
  by (simp add: upd_kbd_def)

lemma release_code:
  assumes "c \<noteq> 0xe0" "c AND 0x80 \<noteq> 0"
  shows "scancode_handler c s = after_key (key_released c) s"
  using assms unfolding scancode_handler_def Let_def scancode_merged ext_cleared
  by (simp add: after_key_def upd_kbd_twice)

lemma modifier_code:
  assumes "0 < c" "c < 0x3b" "keymap ! unat c = (0, 0)"
  shows "scancode_handler c s = after_key (modifier_pressed c) s"
proof -
  have "c \<noteq> 0xe0" "c AND 0x80 = 0" using assms(2) no_break [of c] by (auto simp: word_less_nat_alt)
  then show ?thesis
    using assms unfolding scancode_handler_def Let_def scancode_merged ext_cleared
    by (simp add: after_key_def upd_kbd_twice and_ff)
qed

text \<open>
  C36: the modifier keys, with or without the prefix 0xe0 before them: pressing a shift or control
  key sets its state, releasing it clears the state, caps lock changes with each press and not with
  the release. The prefix is remembered for one code only and has no effect on it, so that the right
  control and alt keys are taken for the left ones, and pressing alt sets nothing.
\<close>

theorem modifier_keys:
  "intr_keyboard_handler (\<lambda>_. 0xe0) s = Ret (upd_kbd (\<lambda>k. k\<lparr>ext_scancode := True\<rparr>) s) () \<and>
   intr_keyboard_handler (\<lambda>_. 0x2a) s = after_key (\<lambda>k. k\<lparr>shift_status := True\<rparr>) s \<and>
   intr_keyboard_handler (\<lambda>_. 0x36) s = after_key (\<lambda>k. k\<lparr>shift_status := True\<rparr>) s \<and>
   intr_keyboard_handler (\<lambda>_. 0xaa) s = after_key (\<lambda>k. k\<lparr>shift_status := False\<rparr>) s \<and>
   intr_keyboard_handler (\<lambda>_. 0xb6) s = after_key (\<lambda>k. k\<lparr>shift_status := False\<rparr>) s \<and>
   intr_keyboard_handler (\<lambda>_. 0x1d) s = after_key (\<lambda>k. k\<lparr>ctrl_status := True\<rparr>) s \<and>
   intr_keyboard_handler (\<lambda>_. 0x9d) s = after_key (\<lambda>k. k\<lparr>ctrl_status := False\<rparr>) s \<and>
   intr_keyboard_handler (\<lambda>_. 0x3a) s = after_key (\<lambda>k. k\<lparr>caps_lock_status := \<not> caps_lock_status k\<rparr>) s \<and>
   intr_keyboard_handler (\<lambda>_. 0xba) s = after_key (\<lambda>k. k) s \<and>
   intr_keyboard_handler (\<lambda>_. 0x38) s = after_key (\<lambda>k. k) s \<and>
   intr_keyboard_handler (\<lambda>_. 0xb8) s = after_key (\<lambda>k. k\<lparr>alt_status := False\<rparr>) s"
  unfolding intr_keyboard_handler_def inb_def
proof (intro conjI)
  show "scancode_handler 0xe0 s = Ret (upd_kbd (\<lambda>k. k\<lparr>ext_scancode := True\<rparr>) s) ()"
    by (simp add: scancode_handler_def)
qed (simp_all add: release_code modifier_code keymap_modifiers key_released_def modifier_pressed_def
    make_codes fun_eq_iff after_key_def)

end
