(* ===== verification/Timer.thy ===== *)
theory Timer
  imports Keyboard
begin

text \<open>
  The timer of \<^verbatim>\<open>src/device/timer.c\<close>: programming the 8253 and the clock interrupt, which charges
  the running thread for its time slice and calls the scheduler when the slice is used up. The
  handler runs with interrupts off, as the gates of the descriptor table are interrupt gates. Its
  abstract specification is a ring of threads with the ticks each has left, on which a clock tick is
  a plain function; the lemmas show that the handler refines it, so that every thread of the ring
  gets the processor after a number of ticks that the slices before it add up to.
\<close>

section \<open>timer.c\<close>

definition IRQ0_FREQUENCY :: nat where "IRQ0_FREQUENCY = 1000"
definition INPUT_FREQUENCY :: nat where "INPUT_FREQUENCY = 1193180"
definition COUNTER0_VALUE :: nat where "COUNTER0_VALUE = INPUT_FREQUENCY div IRQ0_FREQUENCY"
definition COUNTER0_PORT :: u8 where "COUNTER0_PORT = 0x40"
definition COUNTER_MODE :: u8 where "COUNTER_MODE = 2"
definition COUNTER0_NO :: u8 where "COUNTER0_NO = 0"
definition READ_WRITE_LATCH :: u8 where "READ_WRITE_LATCH = 3"
definition PIT_CONTROL_PORT :: u16 where "PIT_CONTROL_PORT = 0x43"

text \<open>The global \<^verbatim>\<open>ticks\<close>, the number of clock interrupts since the start.\<close>

record timer_machine = keyboard_machine +
  kernel_ticks :: u32

text \<open>The shifts are on integers; in the last line the cast comes before the shift.\<close>

definition frequency_set ::
  "u8 \<Rightarrow> u8 \<Rightarrow> u8 \<Rightarrow> u8 \<Rightarrow> u16 \<Rightarrow> 'a machine_scheme \<Rightarrow> 'a machine_scheme" where
  "frequency_set counter_port counter_no rwl counter_mode counter_value s =
     (let s = outb PIT_CONTROL_PORT (ucast (push_bit 6 (ucast counter_no :: u32) OR
                push_bit 4 (ucast rwl) OR push_bit 1 (ucast counter_mode))) s;
          s = outb (ucast counter_port) (ucast counter_value) s
      in outb (ucast counter_port) (ucast (drop_bit 8 (ucast (ucast counter_value :: u8) :: u32))) s)"

definition intr_timer_handler ::
  "'a timer_machine_scheme \<Rightarrow> kerror + 'a timer_machine_scheme" where
  "intr_timer_handler s =
     (let cur_thread = running_thread s in
      sbind (ASSERT ''device/timer.c'' 34 (stack_magic (tasks s cur_thread) = 0x20040207)) (\<lambda>_.
        let s = upd_task cur_thread (\<lambda>t. t\<lparr>elapsed_ticks := elapsed_ticks t + 1\<rparr>) s;
            s = s\<lparr>kernel_ticks := kernel_ticks s + 1\<rparr>
        in if ticks (tasks s cur_thread) = 0 then schedule s
           else Inr (upd_task cur_thread (\<lambda>t. t\<lparr>ticks := ticks t - 1\<rparr>) s)))"

definition timer_init ::
  "u32 \<Rightarrow> intr_tables \<times> 'a timer_machine_scheme \<Rightarrow> kerror + (intr_tables \<times> 'a timer_machine_scheme)" where
  "timer_init intr_timer_handler_addr ts =
     (let (t, s) = ts;
          s = put_str (lit ''timer_init start.'' @ [10]) s;
          s = frequency_set COUNTER0_PORT COUNTER0_NO READ_WRITE_LATCH COUNTER_MODE
                (of_nat COUNTER0_VALUE) s in
      sbind (register_handler 0x20 intr_timer_handler_addr t) (\<lambda>t.
        Inr (t, put_str (lit ''timer_init done.'' @ [10]) s)))"

section \<open>Round robin with time slices\<close>

text \<open>The abstract scheduler: the ring of threads with the ticks left, the running one first.\<close>

fun abs_tick :: "(u32 \<Rightarrow> nat) \<Rightarrow> (u32 \<times> nat) list \<Rightarrow> (u32 \<times> nat) list" where
  "abs_tick quantum [] = []"
| "abs_tick quantum ((t, 0) # r) = r @ [(t, quantum t)]"
| "abs_tick quantum ((t, Suc n) # r) = (t, n) # r"

text \<open>A ring of threads whose stacks are intact, and what the abstract scheduler sees of it.\<close>

definition timed_ring :: "'a timer_machine_scheme \<Rightarrow> u32 list \<Rightarrow> bool" where
  "timed_ring s ring \<longleftrightarrow> thread_ring s ring \<and>
     list_all (\<lambda>t. stack_magic (tasks s t) = 0x20040207) ring"

definition abs_ring :: "'a timer_machine_scheme \<Rightarrow> u32 list \<Rightarrow> (u32 \<times> nat) list" where
  "abs_ring s ring = map (\<lambda>t. (t, unat (ticks (tasks s t)))) ring"

definition slice_of :: "'a timer_machine_scheme \<Rightarrow> u32 \<Rightarrow> nat" where
  "slice_of s t = unat (priority (tasks s t))"

lemma thread_ring_cong:
  fixes s :: "'a thread_machine_scheme" and t :: "'b thread_machine_scheme"
  assumes "esp s = esp t" "lnk s = lnk t" "thread_ready_list s = thread_ready_list t" "eflags s = eflags t"
    "cr3 s = cr3 t" "phys s = phys t"
    and "\<And>u. status (tasks s u) = status (tasks t u) \<and> self_kstack (tasks s u) = self_kstack (tasks t u) \<and>
      pgdir (tasks s u) = pgdir (tasks t u)"
  shows "thread_ring s ring \<longleftrightarrow> thread_ring t ring"
proof -
  have "space_of (s\<lparr>cr3 := d\<rparr>) u = space_of (t\<lparr>cr3 := d\<rparr>) u" for d u
    by (rule space_of_cong) (simp_all add: assms)
  then show ?thesis
    using assms
    by (simp add: thread_ring_def sched_inv_def running_thread_def intr_get_status_def resumable_def spaces_ok_def)
qed

text \<open>The state in which the handler looks at the time slice.\<close>

definition charged :: "'a timer_machine_scheme \<Rightarrow> 'a timer_machine_scheme" where
  "charged s = (upd_task (running_thread s) (\<lambda>t. t\<lparr>elapsed_ticks := elapsed_ticks t + 1\<rparr>) s)
     \<lparr>kernel_ticks := kernel_ticks s + 1\<rparr>"

lemma charged_fields [simp]:
  "running_thread (charged s) = running_thread s" "kernel_ticks (charged s) = kernel_ticks s + 1"
  "ticks (tasks (charged s) t) = ticks (tasks s t)" "priority (tasks (charged s) t) = priority (tasks s t)"
  "stack_magic (tasks (charged s) t) = stack_magic (tasks s t)"
  "thread_ring (charged s) ring \<longleftrightarrow> thread_ring s ring"
proof -
  show "thread_ring (charged s) ring \<longleftrightarrow> thread_ring s ring"
    by (rule thread_ring_cong) (simp_all add: charged_def upd_task_def)
qed (simp_all add: charged_def upd_task_def running_thread_def)

lemma intr_timer_handler_eq:
  assumes "timed_ring s ring"
  shows "intr_timer_handler s =
    (if ticks (tasks s (hd ring)) = 0 then schedule (charged s)
     else Inr (upd_task (hd ring) (\<lambda>t. t\<lparr>ticks := ticks t - 1\<rparr>) (charged s)))"
proof -
  have "running_thread s = hd ring" "stack_magic (tasks s (hd ring)) = 0x20040207"
    using assms by (auto simp: timed_ring_def thread_ring_def list_all_iff)
  moreover from this(1) have "charged s =
      (upd_task (hd ring) (\<lambda>t. t\<lparr>elapsed_ticks := elapsed_ticks t + 1\<rparr>) s)\<lparr>kernel_ticks := kernel_ticks s + 1\<rparr>"
    by (simp add: charged_def)
  ultimately show ?thesis by (simp add: intr_timer_handler_def Let_def upd_task_def)
qed

lemma kernel_ticks_more:
  fixes s t :: "'a timer_machine_scheme"
  shows "thread_machine.more s = thread_machine.more t \<Longrightarrow> kernel_ticks s = kernel_ticks t"
  by (cases s, cases t) simp

lemma timer_slice_used:
  assumes "timed_ring s ring" "ticks (tasks s (hd ring)) = 0"
  shows "\<exists>s'. intr_timer_handler s = Inr s' \<and> timed_ring s' (rotate1 ring) \<and>
    abs_ring s' (rotate1 ring) = abs_tick (slice_of s) (abs_ring s ring) \<and>
    slice_of s' = slice_of s \<and> kernel_ticks s' = kernel_ticks s + 1"
proof -
  obtain c ts where ring: "ring = c # ts"
    using assms(1) by (cases ring) (auto simp: timed_ring_def thread_ring_def)
  have k: "thread_ring (charged s) ring" using assms(1) by (simp add: timed_ring_def)
  obtain s' where s': "schedule (charged s) = Inr s'" "thread_ring s' (rotate1 ring)"
    "\<And>t. ticks (tasks s' t) = (if t = c then priority (tasks s t) else ticks (tasks s t))"
    "\<And>t. priority (tasks s' t) = priority (tasks s t)" "\<And>t. stack_magic (tasks s' t) = stack_magic (tasks s t)"
    "thread_machine.more s' = thread_machine.more (charged s)"
    using thread_ring_turn [OF k] by (auto simp: ring)
  have "kernel_ticks s' = kernel_ticks s + 1"
    using kernel_ticks_more [OF s'(6)] by simp
  moreover have "c \<notin> set ts" using thread_ring_distinct [OF k] by (simp add: ring)
  ultimately show ?thesis
    using assms s' intr_timer_handler_eq [OF assms(1)]
    by (auto simp: ring timed_ring_def abs_ring_def slice_of_def [abs_def] list_all_iff)
qed

lemma timer_slice_left:
  assumes "timed_ring s ring" "ticks (tasks s (hd ring)) \<noteq> 0"
  shows "\<exists>s'. intr_timer_handler s = Inr s' \<and> timed_ring s' ring \<and>
    abs_ring s' ring = abs_tick (slice_of s) (abs_ring s ring) \<and>
    slice_of s' = slice_of s \<and> kernel_ticks s' = kernel_ticks s + 1"
proof -
  obtain c ts where ring: "ring = c # ts"
    using assms(1) by (cases ring) (auto simp: timed_ring_def thread_ring_def)
  let ?s = "upd_task c (\<lambda>t. t\<lparr>ticks := ticks t - 1\<rparr>) (charged s)"
  have k: "thread_ring (charged s) ring" using assms(1) by (simp add: timed_ring_def)
  then have "thread_ring ?s ring"
    using thread_ring_cong [of ?s "charged s" ring] by (simp add: upd_task_def)
  moreover have "unat (ticks (tasks s c)) = Suc (unat (ticks (tasks s c) - 1))"
    using assms(2) by (simp add: ring unat_minus_one unat_gt_0)
  moreover have "c \<notin> set ts" using thread_ring_distinct [OF k] by (simp add: ring)
  ultimately show ?thesis
    using assms intr_timer_handler_eq [OF assms(1)]
    by (auto simp: ring timed_ring_def abs_ring_def slice_of_def [abs_def] list_all_iff upd_task_def)
qed

fun clock_ticks :: "nat \<Rightarrow> 'a timer_machine_scheme \<Rightarrow> kerror + 'a timer_machine_scheme" where
  "clock_ticks 0 s = Inr s"
| "clock_ticks (Suc k) s = sbind (intr_timer_handler s) (clock_ticks k)"

lemma timer_step:
  assumes "timed_ring s ring"
  shows "\<exists>s' ring'. intr_timer_handler s = Inr s' \<and> timed_ring s' ring' \<and>
    abs_ring s' ring' = abs_tick (slice_of s) (abs_ring s ring) \<and>
    slice_of s' = slice_of s \<and> kernel_ticks s' = kernel_ticks s + 1"
  using timer_slice_used [OF assms] timer_slice_left [OF assms] by blast

lemma clock_ticks_refine:
  assumes "timed_ring s ring"
  shows "\<exists>s' ring'. clock_ticks k s = Inr s' \<and> timed_ring s' ring' \<and>
    abs_ring s' ring' = (abs_tick (slice_of s) ^^ k) (abs_ring s ring) \<and>
    kernel_ticks s' = kernel_ticks s + of_nat k"
  using assms
proof (induction k arbitrary: s ring)
  case (Suc k)
  obtain s1 r1 where s1: "intr_timer_handler s = Inr s1" "timed_ring s1 r1"
    "abs_ring s1 r1 = abs_tick (slice_of s) (abs_ring s ring)"
    "slice_of s1 = slice_of s" "kernel_ticks s1 = kernel_ticks s + 1"
    using timer_step [OF Suc.prems] by blast
  from Suc.IH [OF s1(2)] s1 show ?case by (auto simp: funpow_swap1 algebra_simps)
qed auto

text \<open>
  C4: the clock's handler refines the abstract scheduler: on a ring of threads and processes with intact
  stacks, any number of runs of it return, count in \<^verbatim>\<open>ticks\<close>, and leave a ring that the
  abstract scheduler reaches in as many ticks: the running thread uses up its slice and then goes
  to the back of the ring with a slice as long as its priority.
\<close>

theorem timer_refines_round_robin:
  assumes "timed_ring s ring"
  shows "\<exists>s' ring'. clock_ticks k s = Inr s' \<and> timed_ring s' ring' \<and>
    abs_ring s' ring' = (abs_tick (slice_of s) ^^ k) (abs_ring s ring) \<and>
    kernel_ticks s' = kernel_ticks s + of_nat k"
  using clock_ticks_refine [OF assms] .

lemma abs_tick_counts: "(abs_tick q ^^ n) ((t, n) # r) = (t, 0) # r"
  by (induction n) (simp_all add: funpow_swap1)

lemma abs_tick_reaches:
  "(abs_tick q ^^ (\<Sum>(u, n) \<leftarrow> xs. n + 1)) (xs @ ys) = ys @ map (\<lambda>(u, n). (u, q u)) xs"
proof (induction xs arbitrary: ys)
  case (Cons x xs)
  obtain u n where x: "x = (u, n)" by (cases x)
  have "(\<Sum>(u, n) \<leftarrow> x # xs. n + 1) = (\<Sum>(u, n) \<leftarrow> xs. n + 1) + Suc n" by (simp add: x)
  then have "(abs_tick q ^^ (\<Sum>(u, n) \<leftarrow> x # xs. n + 1)) (x # xs @ ys) =
      (abs_tick q ^^ (\<Sum>(u, n) \<leftarrow> xs. n + 1)) ((abs_tick q ^^ Suc n) (x # xs @ ys))"
    by (simp only: funpow_add o_apply)
  also have "(abs_tick q ^^ Suc n) (x # xs @ ys) = xs @ ys @ [(u, q u)]"
    by (simp add: x abs_tick_counts)
  finally show ?case using Cons.IH [of "ys @ [(u, q u)]"] by (simp add: x)
qed simp

text \<open>
  C26: no thread starves: in a ring of threads and processes with intact stacks, the thread behind the
  threads \<open>before\<close> gets the processor after exactly as many runs of the clock's handler as their slices
  add up to, one more for each of them, and none of them fails until then.
\<close>

theorem every_thread_runs:
  assumes "timed_ring s (before @ t # after)"
  shows "\<exists>s'. clock_ticks (\<Sum>u \<leftarrow> before. unat (ticks (tasks s u)) + 1) s = Inr s' \<and> running_thread s' = t \<and>
    ticks (tasks s' t) = ticks (tasks s t)"
proof -
  let ?k = "\<Sum>u \<leftarrow> before. unat (ticks (tasks s u)) + 1"
  obtain s' ring' where s': "clock_ticks ?k s = Inr s'" "timed_ring s' ring'"
    "abs_ring s' ring' = (abs_tick (slice_of s) ^^ ?k) (abs_ring s (before @ t # after))"
    using clock_ticks_refine [OF assms] by blast
  have "?k = (\<Sum>(u, n) \<leftarrow> abs_ring s before. n + 1)" by (simp add: abs_ring_def o_def)
  then have "abs_ring s' ring' =
      (t, unat (ticks (tasks s t))) # abs_ring s after @ map (\<lambda>(u, n). (u, slice_of s u)) (abs_ring s before)"
    using s'(3) abs_tick_reaches [where q = "slice_of s" and xs = "abs_ring s before" and ys = "abs_ring s (t # after)"]
    by (simp add: abs_ring_def)
  then obtain r where r: "ring' = t # r" "unat (ticks (tasks s' t)) = unat (ticks (tasks s t))"
    by (auto simp: abs_ring_def map_eq_Cons_conv)
  then have "running_thread s' = t" using s'(2) by (simp add: timed_ring_def thread_ring_def)
  with r(2) s'(1) show ?thesis by (simp add: word_unat_eq_iff)
qed

section \<open>The counter\<close>

text \<open>
  C37: \<^verbatim>\<open>timer_init\<close> installs the handler of vector 0x20, selects counter 0, both bytes, rate
  generator, and loads the low byte of 1193 and then 0: the high byte is lost, and the counter
  divides by 169 instead of 1193.
\<close>

theorem timer_init_loads_low_byte:
  assumes "length (idt_table t) = IDT_DESC_CNT"
  shows "\<exists>t' s'. timer_init h (t, s) = Inr (t', s') \<and> idt_table t' ! 0x20 = h \<and>
    ports s' = ports s @ [(0x43, 0x34), (0x40, of_nat (COUNTER0_VALUE mod 256)), (0x40, 0)] \<and>
    COUNTER0_VALUE = 1193 \<and> COUNTER0_VALUE mod 256 = 169"
proof -
  have "COUNTER0_VALUE = 1193" by (simp add: COUNTER0_VALUE_def INPUT_FREQUENCY_def IRQ0_FREQUENCY_def)
  then show ?thesis
    using assms by (simp add: \<open>COUNTER0_VALUE = 1193\<close> timer_init_def frequency_set_def register_handler_def IDT_DESC_CNT_def outb_def
        put_str_def Let_def PIT_CONTROL_PORT_def COUNTER0_PORT_def COUNTER0_NO_def READ_WRITE_LATCH_def
        COUNTER_MODE_def)
qed

section \<open>A ring of three threads\<close>

definition demo_timer :: timer_machine where
  "demo_timer = keyboard_machine.extend demo_keyboard \<lparr>kernel_ticks = 0\<rparr>"

lemma demo_timer_threads [simp]:
  "esp demo_timer = esp demo_threads" "lnk demo_timer = lnk demo_threads"
  "thread_ready_list demo_timer = thread_ready_list demo_threads" "eflags demo_timer = 2"
  "tasks demo_timer = tasks demo_threads" "kernel_ticks demo_timer = 0"
  "cr3 demo_timer = cr3 demo_mmu" "phys demo_timer = phys demo_mmu"
  by (simp_all add: demo_timer_def keyboard_machine.defs demo_keyboard_def ioq_machine.defs demo_ioq_def
      process_machine.defs)

lemma demo_timer_ring: "timed_ring demo_timer [0xc009e000, 0xc0100000, 0xc0101000]"
proof -
  have "thread_ring demo_timer [0xc009e000, 0xc0100000, 0xc0101000] \<longleftrightarrow>
      thread_ring demo_threads [0xc009e000, 0xc0100000, 0xc0101000]"
    by (rule thread_ring_cong) simp_all
  then show ?thesis using demo_threads_ring by (simp add: timed_ring_def demo_task_def)
qed

theorem timer_refines_round_robin_witness:
  "\<exists>s' ring'. clock_ticks 9 demo_timer = Inr s' \<and> timed_ring s' ring' \<and>
     abs_ring s' ring' = [(0xc0100000, 8), (0xc0101000, 8), (0xc009e000, 8)] \<and> kernel_ticks s' = 9"
proof -
  have "(abs_tick (slice_of demo_timer) ^^ 9) (abs_ring demo_timer [0xc009e000, 0xc0100000, 0xc0101000]) =
      [(0xc0100000, 8), (0xc0101000, 8), (0xc009e000, 8)]"
    using abs_tick_reaches [where q = "slice_of demo_timer" and xs = "[(0xc009e000, 8)]"
        and ys = "[(0xc0100000, 8), (0xc0101000, 8)]"]
    by (simp add: abs_ring_def slice_of_def demo_task_def)
  then show ?thesis using timer_refines_round_robin [OF demo_timer_ring, of 9] by simp
qed

theorem every_thread_runs_witness:
  "\<exists>s'. clock_ticks 18 demo_timer = Inr s' \<and> running_thread s' = 0xc0101000"
  using every_thread_runs [of demo_timer "[0xc009e000, 0xc0100000]" "0xc0101000" "[]"] demo_timer_ring
  by (auto simp: demo_task_def)

theorem timer_init_loads_low_byte_witness:
  "\<exists>t' s'. timer_init 0xc0002000 (\<lparr>idt = [], idt_table = replicate 0x81 0, intr_name = []\<rparr>, demo_timer) =
     Inr (t', s') \<and> ports s' = ports demo_timer @ [(0x43, 0x34), (0x40, 169), (0x40, 0)]"
  using timer_init_loads_low_byte
    [of "\<lparr>idt = [], idt_table = replicate 0x81 0, intr_name = []\<rparr>" "0xc0002000" demo_timer]
  by (auto simp: IDT_DESC_CNT_def)

end
