(* ===== verification/Kernel.thy ===== *)
theory Kernel
  imports Timer Spawn
begin

text \<open>
  The kernel as a whole: \<^verbatim>\<open>panic_spin\<close> of \<^verbatim>\<open>src/kernel/debug.c\<close>, the initialisation sequence
  of \<^verbatim>\<open>src/kernel/init.c\<close> and \<^verbatim>\<open>src/kernel/main.c\<close>. The addresses that the linker and
  \<^verbatim>\<open>kernel.S\<close> fix are the record \<open>entries\<close>. The endless loops of the two kernel threads are definitions of one
  round each; the user programs are in the theory \<^verbatim>\<open>Usermode\<close>.
\<close>

section \<open>debug.c\<close>

text \<open>
  \<^verbatim>\<open>panic_spin\<close> up to its endless loop. A string is the bytes before its terminator; \<^verbatim>\<open>line\<close> is
  printed as an unsigned number.
\<close>

definition panic_spin ::
  "u8 list \<Rightarrow> u32 \<Rightarrow> u8 list \<Rightarrow> u8 list \<Rightarrow> 'a machine_scheme \<Rightarrow> 'a machine_scheme" where
  "panic_spin filename line func condition s =
     (let s = snd (intr_disable s);
          s = put_str ([10, 10] @ lit ''#############error############'' @ [10]) s;
          s = put_str (lit ''#    filename: '') s; s = put_str filename s; s = put_str [10] s;
          s = put_str (lit ''#    line:0x'') s; s = put_int line s; s = put_str [10] s;
          s = put_str (lit ''#    function: '') s; s = put_str func s; s = put_str [10] s;
          s = put_str (lit ''#    condition:'') s; s = put_str condition s; s = put_str [10] s
      in put_str (lit ''#############error############'' @ [10]) s)"

section \<open>init.c\<close>

record entries =
  intr_entry_table_at :: "nat \<Rightarrow> u32"
  syscall_handler_at :: u32
  general_intr_handler_at :: u32
  idt_at :: u32
  intr_timer_handler_at :: u32
  intr_keyboard_handler_at :: u32
  tss_at :: u32
  k_thread_a_at :: u32
  k_thread_b_at :: u32
  arg_a_at :: u32
  arg_b_at :: u32
  u_prog_a_at :: u32
  u_prog_b_at :: u32

text \<open>The tables of \<^verbatim>\<open>interrupt.c\<close>, the operand of \<^verbatim>\<open>lidt\<close> and the two variables of \<^verbatim>\<open>main.c\<close>.\<close>

record kernel_machine = timer_machine +
  tables :: intr_tables
  idtr :: u64
  test_var_a :: u32
  test_var_b :: u32

text \<open>A routine that works on the tables and the rest of the state.\<close>

definition on_tables ::
  "(intr_tables \<times> 'a kernel_machine_scheme \<Rightarrow> kerror + (intr_tables \<times> 'a kernel_machine_scheme))
     \<Rightarrow> 'a kernel_machine_scheme \<Rightarrow> kerror + 'a kernel_machine_scheme" where
  "on_tables f s = sbind (f (tables s, s)) (\<lambda>(t, s). Inr (s\<lparr>tables := t\<rparr>))"

definition idt_init_all :: "entries \<Rightarrow> 'a kernel_machine_scheme \<Rightarrow> 'a kernel_machine_scheme" where
  "idt_init_all en s =
     (case idt_init (intr_entry_table_at en) (syscall_handler_at en) (general_intr_handler_at en) (idt_at en)
             (tables s, s) of
        ((t, s), op) \<Rightarrow> s\<lparr>tables := t, idtr := op\<rparr>)"

definition init_all ::
  "entries \<Rightarrow> 'a kernel_machine_scheme \<Rightarrow> ('a kernel_machine_scheme, frames, unit) outcome" where
  "init_all en s =
     (let s = put_str (lit ''init_all'' @ [10]) s;
          s = idt_init_all en s in
      obind (finish_state (mem_init s)) (\<lambda>_ s.
      obind (thread_init s) (\<lambda>_ s.
      obind (finish_state (on_tables (timer_init (intr_timer_handler_at en)) s)) (\<lambda>_ s.
      let s = console_init s in
      obind (finish_state (on_tables (keyboard_init (intr_keyboard_handler_at en)) s)) (\<lambda>_ s.
      Ret (tss_init (tss_at en) s) ())))))"

section \<open>main.c\<close>

text \<open>Where \<^verbatim>\<open>main\<close> can be switched out: in one of its five calls.\<close>

datatype main_point =
  In_init_all frames | In_thread_start_a "u32 \<times> frames" | In_thread_start_b "u32 \<times> frames"
| In_process_execute_a exec_point | In_process_execute_b exec_point

fun at_point :: "('k \<Rightarrow> 'l) \<Rightarrow> ('s, 'k, 'a) outcome \<Rightarrow> ('s, 'l, 'a) outcome" where
  "at_point f (Fail e) = Fail e"
| "at_point f (Switched s k) = Switched s (f k)"
| "at_point f (Ret s a) = Ret s a"

text \<open>\<^verbatim>\<open>main\<close> up to its endless loop; the rest of it after each of the calls comes first.\<close>

type_synonym 'a main_outcome = "('a kernel_machine_scheme, main_point, unit) outcome"

definition main_enabled :: "'a kernel_machine_scheme \<Rightarrow> 'a main_outcome" where
  "main_enabled s = Ret (snd (intr_enable s)) ()"

definition main_prog_b :: "entries \<Rightarrow> 'a kernel_machine_scheme \<Rightarrow> 'a main_outcome" where
  "main_prog_b en s =
     obind (at_point In_process_execute_b (process_execute (u_prog_b_at en) (lit ''user_prog_b'') s))
       (\<lambda>_. main_enabled)"

definition main_prog_a :: "entries \<Rightarrow> 'a kernel_machine_scheme \<Rightarrow> 'a main_outcome" where
  "main_prog_a en s =
     obind (at_point In_process_execute_a (process_execute (u_prog_a_at en) (lit ''user_prog_a'') s))
       (\<lambda>_. main_prog_b en)"

definition main_thread_b :: "entries \<Rightarrow> 'a kernel_machine_scheme \<Rightarrow> 'a main_outcome" where
  "main_thread_b en s =
     obind (at_point In_thread_start_b
         (thread_start (lit ''consumer_b'') 31 (k_thread_b_at en) (arg_b_at en) s))
       (\<lambda>_. main_prog_a en)"

definition main_thread_a :: "entries \<Rightarrow> 'a kernel_machine_scheme \<Rightarrow> 'a main_outcome" where
  "main_thread_a en s =
     obind (at_point In_thread_start_a
         (thread_start (lit ''consumer_a'') 8 (k_thread_a_at en) (arg_a_at en) s))
       (\<lambda>_. main_thread_b en)"

definition kernel_main :: "entries \<Rightarrow> 'a kernel_machine_scheme \<Rightarrow> 'a main_outcome" where
  "kernel_main en s =
     (let s = put_str (lit ''hello kernel...'' @ [10]) s
      in obind (at_point In_init_all (init_all en s)) (\<lambda>_. main_thread_a en))"

text \<open>
  One round of the loop of a kernel thread: its label, the variable in hexadecimal and a space, with
  interrupts off around the three calls. A thread switched out of one of the calls goes on with
  \<open>k_thread_resume\<close>.
\<close>

datatype k_thread_point = In_label frames | In_number u32 frames | In_space frames

definition k_thread_space ::
  "'a kernel_machine_scheme \<Rightarrow> ('a kernel_machine_scheme, k_thread_point, unit) outcome" where
  "k_thread_space s =
     obind (at_point In_space (console_put_str (lit '' '') s)) (\<lambda>_ s. Ret (snd (intr_enable s)) ())"

definition k_thread_number ::
  "('a kernel_machine_scheme \<Rightarrow> u32) \<Rightarrow> 'a kernel_machine_scheme
     \<Rightarrow> ('a kernel_machine_scheme, k_thread_point, unit) outcome" where
  "k_thread_number var s =
     obind (at_point (In_number (var s)) (console_put_int (var s) s)) (\<lambda>_. k_thread_space)"

definition k_thread_round ::
  "u8 list \<Rightarrow> ('a kernel_machine_scheme \<Rightarrow> u32) \<Rightarrow> 'a kernel_machine_scheme
     \<Rightarrow> ('a kernel_machine_scheme, k_thread_point, unit) outcome" where
  "k_thread_round label var s =
     (let s = snd (intr_disable s)
      in obind (at_point In_label (console_put_str label s)) (\<lambda>_. k_thread_number var))"

fun k_thread_resume ::
  "u8 list \<Rightarrow> ('a kernel_machine_scheme \<Rightarrow> u32) \<Rightarrow> k_thread_point \<Rightarrow> 'a kernel_machine_scheme
     \<Rightarrow> ('a kernel_machine_scheme, k_thread_point, unit) outcome" where
  "k_thread_resume label var (In_label k) s =
     obind (at_point In_label (console_print_resume (put_str label) k s)) (\<lambda>_. k_thread_number var)"
| "k_thread_resume label var (In_number n k) s =
     obind (at_point (In_number n) (console_print_resume (put_int n) k s)) (\<lambda>_. k_thread_space)"
| "k_thread_resume label var (In_space k) s =
     obind (at_point In_space (console_print_resume (put_str (lit '' '')) k s))
       (\<lambda>_ s. Ret (snd (intr_enable s)) ())"

definition k_thread_a ::
  "'a kernel_machine_scheme \<Rightarrow> ('a kernel_machine_scheme, k_thread_point, unit) outcome" where
  "k_thread_a s = k_thread_round (lit ''v_a:0x'') test_var_a s"

definition k_thread_b ::
  "'a kernel_machine_scheme \<Rightarrow> ('a kernel_machine_scheme, k_thread_point, unit) outcome" where
  "k_thread_b s = k_thread_round (lit ''v_b:0x'') test_var_b s"

section \<open>Lists and locks at start-up\<close>

text \<open>The empty lists of \<open>ls\<close>, none of whose end elements coincide.\<close>

definition ends :: "u32 list \<Rightarrow> u32 list" where
  "ends ls = concat (map (\<lambda>l. [l, list_tail l]) ls)"

definition empty_lists :: "link_heap \<Rightarrow> u32 list \<Rightarrow> bool" where
  "empty_lists h ls \<longleftrightarrow> list_all (\<lambda>l. dlist h l []) ls"

lemma ends_simps [simp]: "ends [] = []" "ends (l # ls) = l # list_tail l # ends ls"
  by (simp_all add: ends_def)

lemma ends_memb: "l \<in> set ls \<Longrightarrow> l \<in> set (ends ls) \<and> list_tail l \<in> set (ends ls)"
  by (auto simp: ends_def)

lemma empty_lists_cong:
  "(\<And>a. a \<in> set (ends ls) \<Longrightarrow> h' a = h a) \<Longrightarrow> empty_lists h' ls \<longleftrightarrow> empty_lists h ls"
  by (induction ls) (auto simp: empty_lists_def dlist_def)

lemma empty_lists_init:
  assumes "distinct (ends (l # ls))" "empty_lists h ls"
  shows "empty_lists (init_lnk l h) (l # ls)"
proof -
  have "empty_lists (init_lnk l h) ls \<longleftrightarrow> empty_lists h ls"
    using assms(1) by (intro empty_lists_cong init_lnk_other) auto
  with assms(2) show ?thesis by (simp add: empty_lists_def dlist_init_lnk)
qed

lemma lock_init_eqs [simp]:
  "lnk (lock_init L s) = init_lnk (lock_waiters L) (lnk s)"
  "sema_value (lock_init L s) = (sema_value s)(lock_semaphore L := 1)"
  "lock_holder (lock_init L s) = (lock_holder s)(L := 0)"
  "lock_repeat (lock_init L s) = (lock_repeat s)(L := 0)"
  by (simp_all add: lock_init_def sema_init_def list_init_eq set_holder_def set_repeat_def set_value_def Let_def)

text \<open>What neither printing nor a new lock changes.\<close>

lemma kernel_frame:
  fixes s :: "'a kernel_machine_scheme"
  shows
  "eflags (put_str cs s) = eflags s" "eflags (put_int n s) = eflags s" "eflags (lock_init L s) = eflags s"
  "esp (put_str cs s) = esp s" "esp (put_int n s) = esp s" "esp (lock_init L s) = esp s"
  "cr3 (put_str cs s) = cr3 s" "cr3 (put_int n s) = cr3 s" "cr3 (lock_init L s) = cr3 s"
  "phys (put_str cs s) = phys s" "phys (put_int n s) = phys s" "phys (lock_init L s) = phys s"
  "tasks (put_str cs s) = tasks s" "tasks (put_int n s) = tasks s" "tasks (lock_init L s) = tasks s"
  "main_thread (put_str cs s) = main_thread s" "main_thread (put_int n s) = main_thread s"
  "main_thread (lock_init L s) = main_thread s"
  "thread_ready_list (put_str cs s) = thread_ready_list s" "thread_ready_list (put_int n s) = thread_ready_list s"
  "thread_ready_list (lock_init L s) = thread_ready_list s"
  "thread_all_list (put_str cs s) = thread_all_list s" "thread_all_list (put_int n s) = thread_all_list s"
  "thread_all_list (lock_init L s) = thread_all_list s"
  "pid_lock (put_str cs s) = pid_lock s" "pid_lock (put_int n s) = pid_lock s" "pid_lock (lock_init L s) = pid_lock s"
  "next_pid (put_str cs s) = next_pid s" "next_pid (put_int n s) = next_pid s" "next_pid (lock_init L s) = next_pid s"
  "console_lock (put_str cs s) = console_lock s" "console_lock (put_int n s) = console_lock s"
  "console_lock (lock_init L s) = console_lock s"
  "kbd_buf (put_str cs s) = kbd_buf s" "kbd_buf (put_int n s) = kbd_buf s" "kbd_buf (lock_init L s) = kbd_buf s"
  "ioqs (put_str cs s) = ioqs s" "ioqs (put_int n s) = ioqs s" "ioqs (lock_init L s) = ioqs s"
  "tables (put_str cs s) = tables s" "tables (put_int n s) = tables s" "tables (lock_init L s) = tables s"
  "lnk (put_str cs s) = lnk s" "lnk (put_int n s) = lnk s"
  "sema_value (put_str cs s) = sema_value s" "sema_value (put_int n s) = sema_value s"
  "lock_holder (put_str cs s) = lock_holder s" "lock_holder (put_int n s) = lock_holder s"
  "lock_repeat (put_str cs s) = lock_repeat s" "lock_repeat (put_int n s) = lock_repeat s"
  by (simp_all add: put_str_def put_int_def lock_init_def sema_init_def list_init_eq set_holder_def
      set_repeat_def set_value_def Let_def)

lemma lock_init_keeps:
  "lock_free L s \<Longrightarrow> lock_free L (lock_init L' s)"
  by (simp add: lock_free_def lock_semaphore_def)

section \<open>What each stage leaves\<close>

text \<open>The parts of the state that the stages leave alone or that later stages need.\<close>

definition addresses :: "'a kernel_machine_scheme \<Rightarrow> u32 \<times> u32 \<times> u32 \<times> (u32 \<Rightarrow> u32) \<times> u32 list" where
  "addresses s = (eflags s, esp s, cr3 s, phys s,
     [thread_ready_list s, thread_all_list s, pid_lock s, console_lock s, kbd_buf s,
      pool_lock (kernel_pool s), pool_lock (user_pool s)])"

definition locks_of :: "'a sync_machine_scheme \<Rightarrow> (u32 \<Rightarrow> u8) \<times> (u32 \<Rightarrow> u32) \<times> (u32 \<Rightarrow> u32)" where
  "locks_of s = (sema_value s, lock_holder s, lock_repeat s)"

definition memory_of :: "'a memory_machine_scheme \<Rightarrow> memory \<times> pool \<times> pool \<times> virtual_addr" where
  "memory_of s = (mem s, kernel_pool s, user_pool s, kernel_vaddr s)"

definition threads_of :: "'a process_machine_scheme \<Rightarrow> (u32 \<Rightarrow> task_struct) \<times> u32 \<times> u16" where
  "threads_of s = (tasks s, main_thread s, next_pid s)"

lemmas views = addresses_def locks_of_def memory_of_def threads_of_def

lemma exception_handlers:
  "length (idt_table t) = IDT_DESC_CNT \<Longrightarrow> idt_table (exception_init g t) = replicate IDT_DESC_CNT g"
  by (simp add: exception_init_def Let_def fold_list_update_all map_replicate_const)

lemma idt_init_all_views:
  fixes s :: "'a kernel_machine_scheme"
  assumes "length (idt_table (tables s)) = IDT_DESC_CNT"
  shows "addresses (idt_init_all en s) = addresses s" "locks_of (idt_init_all en s) = locks_of s"
    "memory_of (idt_init_all en s) = memory_of s" "threads_of (idt_init_all en s) = threads_of s"
    "lnk (idt_init_all en s) = lnk s" "ioqs (idt_init_all en s) = ioqs s"
    "idt_table (tables (idt_init_all en s)) = replicate IDT_DESC_CNT (general_intr_handler_at en)"
  using assms exception_handlers [of "idt_desc_init e h (tables s)" for e h]
  by (simp_all add: idt_init_all_def idt_init_def Let_def pic_init_def put_str_def outb_def views idt_desc_init_def)

lemma print_views [simp]:
  "addresses (put_str cs s) = addresses s" "locks_of (put_str cs t) = locks_of t"
  "memory_of (put_str cs u) = memory_of u" "threads_of (put_str cs v) = threads_of v"
  "lnk (put_str cs w) = lnk w"
  by (simp_all add: views put_str_def)

lemma bitmap_base_nonzero:
  "0x200000 \<le> n \<Longrightarrow> MEM_BITMAP_BASE + kbm_length n \<noteq> 0 \<and>
     MEM_BITMAP_BASE + kbm_length n + ubm_length n \<noteq> 0"
proof -
  assume n: "0x200000 \<le> n"
  let ?k = "free_page_count n"
  have nz: "(of_nat (0xc009a000 + j) :: u32) \<noteq> 0" if "j < 0x10000" for j
    using that unat_of_nat_u32 [of "0xc009a000 + j"] by (auto simp: word_unat_eq_iff)
  show ?thesis
    using bitmap_lengths [OF n] free_page_count_less [of n] nz [of "?k div 2 div 8"]
      nz [of "?k div 2 div 8 + (?k - ?k div 2) div 8"]
    by (simp add: MEM_BITMAP_BASE_def add.assoc)
qed

lemma mem_init_views:
  fixes s :: "'a kernel_machine_scheme"
  assumes "0x200000 \<le> load32 (mem s) 0xb00"
  shows "\<exists>s'. mem_init s = Inr s' \<and> pools_set (load32 (mem s) 0xb00) s' \<and> bitmaps_clear s' \<and>
    addresses s' = addresses s \<and> threads_of s' = threads_of s \<and> ioqs s' = ioqs s \<and> tables s' = tables s \<and>
    locks_of s' = locks_of (lock_init (pool_lock (user_pool s)) (lock_init (pool_lock (kernel_pool s)) s)) \<and>
    lnk s' = init_lnk (lock_waiters (pool_lock (user_pool s)))
      (init_lnk (lock_waiters (pool_lock (kernel_pool s))) (lnk s))"
proof -
  have base: "MEM_BITMAP_BASE \<noteq> 0" by (simp add: MEM_BITMAP_BASE_def)
  show ?thesis
    using base bitmap_base_nonzero [OF assms]
    by (simp add: mem_init_def mem_pool_init_def Let_def set_pools_def print_pools_def init_bitmap_eq
        pools_set_def bitmaps_clear_def views kernel_frame)
qed

definition new_tags :: "u32 \<Rightarrow> link_heap \<Rightarrow> link_heap" where
  "new_tags t h = h(general_tag t := \<lparr>elem_prev = 0, elem_next = 0\<rparr>,
                    all_list_tag t := \<lparr>elem_prev = 0, elem_next = 0\<rparr>)"

text \<open>The state in which \<^verbatim>\<open>thread_init\<close> fills the structure of the main thread.\<close>

definition thread_lists_ready :: "'a kernel_machine_scheme \<Rightarrow> 'a kernel_machine_scheme" where
  "thread_lists_ready s =
     (lock_init (pid_lock s) (list_init (thread_ready_list s) (list_init (thread_all_list s)
        (put_str (lit ''thread_init start'' @ [10]) s))))\<lparr>main_thread := running_thread s\<rparr>"

lemma thread_lists_ready_views:
  "addresses (thread_lists_ready s) = addresses s" "memory_of (thread_lists_ready s) = memory_of s"
  "ioqs (thread_lists_ready s) = ioqs s" "tables (thread_lists_ready s) = tables s"
  "threads_of (thread_lists_ready s) = (tasks s, running_thread s, next_pid s)"
  "locks_of (thread_lists_ready s) = locks_of (lock_init (pid_lock s) s)"
  "lnk (thread_lists_ready s) =
     init_lnk (lock_waiters (pid_lock s)) (init_lnk (thread_ready_list s) (init_lnk (thread_all_list s) (lnk s)))"
  by (simp_all add: thread_lists_ready_def list_init_eq views kernel_frame)

lemma thread_init_unfold:
  "thread_init s = obind (obind (init_thread (running_thread s) (lit ''main'') 31 (thread_lists_ready s)) (\<lambda>_ s.
       finish_state (enlist ''thread/thread.c'' 108 (thread_all_list s) (all_list_tag (main_thread s)) s)))
     (\<lambda>_ s. Ret (put_str (lit ''thread_init done'' @ [10]) s) ())"
  by (simp add: thread_init_def make_main_thread_def thread_lists_ready_def Let_def list_init_eq kernel_frame
      running_thread_def)

lemma thread_init_views:
  fixes s :: "'a kernel_machine_scheme"
  defines "m \<equiv> running_thread s"
  assumes d: "distinct (ends [lock_waiters (pid_lock s), thread_ready_list s, thread_all_list s] @
      [general_tag m, all_list_tag m])"
    and m: "m \<noteq> 0"
  shows "\<exists>s'. thread_init s = Ret s' () \<and> addresses s' = addresses s \<and> memory_of s' = memory_of s \<and>
    ioqs s' = ioqs s \<and> tables s' = tables s \<and> locks_of s' = locks_of (lock_init (pid_lock s) s) \<and>
    threads_of s' = ((tasks s)(m := fresh_task m (lit ''main'') 31 (next_pid s + 1) TASK_RUNNING), m, next_pid s + 1) \<and>
    lnk s' = ins_lnk (list_tail (thread_all_list s)) (all_list_tag m)
      (new_tags m (lnk (thread_lists_ready s)))"
proof -
  let ?s = "thread_lists_ready s"
  let ?s1 = "?s\<lparr>lnk := new_tags m (lnk ?s),
      next_pid := next_pid s + 1,
      tasks := (tasks s)(m := fresh_task m (lit ''main'') 31 (next_pid s + 1) TASK_RUNNING)\<rparr>"
  note v = thread_lists_ready_views [of s]
  have same: "pid_lock ?s = pid_lock s" "running_thread ?s = m" "main_thread ?s = m" "next_pid ?s = next_pid s"
    "thread_all_list ?s = thread_all_list s" "tasks ?s = tasks s"
    using v(1,5) by (simp_all add: views running_thread_def m_def)
  have "empty_lists (lnk ?s) [lock_waiters (pid_lock s), thread_ready_list s, thread_all_list s]"
    unfolding v(7) using d by (intro empty_lists_init) (simp_all add: empty_lists_def)
  then have e: "dlist (lnk ?s) (lock_waiters (pid_lock s)) []" "dlist (lnk ?s) (thread_all_list s) []"
    by (simp_all add: empty_lists_def)
  have "lock_free (pid_lock s) ?s"
    using v(6) by (simp add: locks_of_def lock_free_def)
  then have init: "init_thread m (lit ''main'') 31 ?s = Ret ?s1 ()"
    using init_thread_eq [of ?s m "lit ''main''" 31] e m d
    by (simp add: same new_tags_def lit_def foot_def)
  have "dlist (new_tags m (lnk ?s)) (thread_all_list s) [] \<longleftrightarrow> dlist (lnk ?s) (thread_all_list s) []"
    using d by (intro dlist_cong) (auto simp: new_tags_def foot_def)
  then have "elem_find (thread_all_list s) (all_list_tag m) ?s1 = Inr False"
    using e(2) elem_find_dlist [where xs = "[]" and s = ?s1] by simp
  then show ?thesis
    using v(1-4,6) unfolding thread_init_unfold m_def [symmetric] init
    by (simp add: enlist_def list_op_eqs same kernel_frame views)
qed

text \<open>The rest of \<^verbatim>\<open>init_all\<close> after \<^verbatim>\<open>thread_init\<close>.\<close>

definition devices_init ::
  "entries \<Rightarrow> 'a kernel_machine_scheme \<Rightarrow> ('a kernel_machine_scheme, frames, unit) outcome" where
  "devices_init en s =
      obind (finish_state (on_tables (timer_init (intr_timer_handler_at en)) s)) (\<lambda>_ s.
      let s = console_init s in
      obind (finish_state (on_tables (keyboard_init (intr_keyboard_handler_at en)) s)) (\<lambda>_ s.
      Ret (tss_init (tss_at en) s) ()))"

lemma init_all_devices:
  "init_all en s =
     obind (finish_state (mem_init (idt_init_all en (put_str (lit ''init_all'' @ [10]) s)))) (\<lambda>_ s.
     obind (thread_init s) (\<lambda>_ s. devices_init en s))"
  by (simp add: init_all_def devices_init_def [abs_def] Let_def)

definition fresh_queue :: "ioqueue \<Rightarrow> ioqueue" where
  "fresh_queue q = q\<lparr>producer := 0, consumer := 0, head := 0, tail := 0\<rparr>"

lemma timer_init_views:
  fixes s :: "'a kernel_machine_scheme"
  shows "\<exists>s'. on_tables (timer_init a) s = Inr s' \<and> addresses s' = addresses s \<and> memory_of s' = memory_of s \<and>
    threads_of s' = threads_of s \<and> locks_of s' = locks_of s \<and> lnk s' = lnk s \<and> ioqs s' = ioqs s \<and>
    idt_table (tables s') = (idt_table (tables s))[0x20 := a]"
  by (simp add: on_tables_def timer_init_def register_handler_def IDT_DESC_CNT_def Let_def frequency_set_def
      outb_def put_str_def views)

lemma keyboard_init_views:
  fixes s :: "'a kernel_machine_scheme"
  shows "\<exists>s'. on_tables (keyboard_init a) s = Inr s' \<and> addresses s' = addresses s \<and> memory_of s' = memory_of s \<and>
    threads_of s' = threads_of s \<and> locks_of s' = locks_of (lock_init (kbd_buf s) s) \<and>
    lnk s' = init_lnk (lock_waiters (kbd_buf s)) (lnk s) \<and>
    ioqs s' = (ioqs s)(kbd_buf s := fresh_queue (ioqs s (kbd_buf s))) \<and>
    idt_table (tables s') = (idt_table (tables s))[0x21 := a]"
  by (simp add: on_tables_def keyboard_init_def register_handler_def IDT_DESC_CNT_def Let_def ioqueue_init_def
      upd_ioq_def fresh_queue_def views kernel_frame)

lemma tss_init_views:
  fixes s :: "'a kernel_machine_scheme"
  shows "addresses (tss_init a s) = addresses s" "memory_of (tss_init a s) = memory_of s"
    "threads_of (tss_init a s) = threads_of s" "locks_of (tss_init a s) = locks_of s"
    "lnk (tss_init a s) = lnk s" "ioqs (tss_init a s) = ioqs s" "tables (tss_init a s) = tables s"
  by (simp_all add: tss_init_def Let_def put_str_def views)

lemma devices_init_views:
  fixes s :: "'a kernel_machine_scheme"
  shows "\<exists>s'. devices_init en s = Ret s' () \<and> addresses s' = addresses s \<and> memory_of s' = memory_of s \<and>
    threads_of s' = threads_of s \<and>
    locks_of s' = locks_of (lock_init (kbd_buf s) (lock_init (console_lock s) s)) \<and>
    lnk s' = init_lnk (lock_waiters (kbd_buf s)) (init_lnk (lock_waiters (console_lock s)) (lnk s)) \<and>
    ioqs s' = (ioqs s)(kbd_buf s := fresh_queue (ioqs s (kbd_buf s))) \<and>
    idt_table (tables s') =
      (idt_table (tables s))[0x20 := intr_timer_handler_at en, 0x21 := intr_keyboard_handler_at en]"
proof -
  obtain s1 where s1: "on_tables (timer_init (intr_timer_handler_at en)) s = Inr s1" "addresses s1 = addresses s"
    "memory_of s1 = memory_of s" "threads_of s1 = threads_of s" "locks_of s1 = locks_of s" "lnk s1 = lnk s"
    "ioqs s1 = ioqs s" "idt_table (tables s1) = (idt_table (tables s))[0x20 := intr_timer_handler_at en]"
    using timer_init_views by blast
  let ?c = "console_init s1"
  have c: "addresses ?c = addresses s" "memory_of ?c = memory_of s" "threads_of ?c = threads_of s"
    "locks_of ?c = locks_of (lock_init (console_lock s) s)" "kbd_buf ?c = kbd_buf s"
    "lnk ?c = init_lnk (lock_waiters (console_lock s)) (lnk s)" "ioqs ?c = ioqs s" "tables ?c = tables s1"
    using s1 by (simp_all add: console_init_def views kernel_frame)
  obtain s2 where s2: "on_tables (keyboard_init (intr_keyboard_handler_at en)) ?c = Inr s2"
    "addresses s2 = addresses ?c" "memory_of s2 = memory_of ?c" "threads_of s2 = threads_of ?c"
    "locks_of s2 = locks_of (lock_init (kbd_buf ?c) ?c)"
    "lnk s2 = init_lnk (lock_waiters (kbd_buf ?c)) (lnk ?c)"
    "ioqs s2 = (ioqs ?c)(kbd_buf ?c := fresh_queue (ioqs ?c (kbd_buf ?c)))"
    "idt_table (tables s2) = (idt_table (tables ?c))[0x21 := intr_keyboard_handler_at en]"
    using keyboard_init_views by blast
  have "locks_of (lock_init (kbd_buf ?c) ?c) = locks_of (lock_init (kbd_buf s) (lock_init (console_lock s) s))"
    using c(4,5) by (simp add: locks_of_def)
  then show ?thesis
    using s1(1,8) s2 c by (simp add: devices_init_def Let_def tss_init_views)
qed

section \<open>The kernel after initialisation\<close>

text \<open>The lists that stay empty, from the one initialised last to the first.\<close>

definition waiting_lists :: "'a kernel_machine_scheme \<Rightarrow> u32 list" where
  "waiting_lists s = [lock_waiters (kbd_buf s), lock_waiters (console_lock s), lock_waiters (pid_lock s),
     thread_ready_list s, lock_waiters (pool_lock (user_pool s)), lock_waiters (pool_lock (kernel_pool s))]"

text \<open>
  What the loader and the linker provide: interrupts are off, the stack is in the page of the main
  thread, the machine has two megabytes, the tables have their lengths, and no two of the static
  list heads and of the main thread's tags share an address.
\<close>

definition boot_state :: "'a kernel_machine_scheme \<Rightarrow> bool" where
  "boot_state s \<longleftrightarrow> intr_get_status s = INTR_OFF \<and> running_thread s \<noteq> 0 \<and>
     0x200000 \<le> load32 (mem s) 0xb00 \<and> length (idt_table (tables s)) = IDT_DESC_CNT \<and>
     length (buf (ioqs s (kbd_buf s))) = 1024 \<and>
     distinct (ends (thread_all_list s # waiting_lists s) @
       [general_tag (running_thread s), all_list_tag (running_thread s)])"

lemma ins_lnk_other:
  assumes "dlist h q []" "a \<notin> {q, list_tail q, e}" "e \<noteq> list_tail q"
  shows "ins_lnk (list_tail q) e h a = h a"
  using assms by (simp add: ins_lnk_def Let_def link_updates dlist_def)

lemma new_tags_other: "a \<noteq> general_tag t \<Longrightarrow> a \<noteq> all_list_tag t \<Longrightarrow> new_tags t h a = h a"
  by (simp add: new_tags_def)

text \<open>The links: one list gets the element \<open>e\<close> of a thread, the others are empty.\<close>

lemma links_after_init:
  assumes d: "distinct (ends (q # c # b # ls) @ [general_tag t, all_list_tag t])"
    and e: "empty_lists h (q # ls)"
  defines "h' \<equiv> init_lnk c (init_lnk b (ins_lnk (list_tail q) (all_list_tag t) (new_tags t h)))"
  shows "empty_lists h' (c # b # ls)" and "dlist h' q [all_list_tag t]"
proof -
  let ?h1 = "new_tags t h" and ?e = "all_list_tag t"
  have sep: "a \<noteq> general_tag t" "a \<noteq> ?e" if "a \<in> set (ends (q # c # b # ls))" for a
    using d that by auto
  have "empty_lists ?h1 (q # ls) \<longleftrightarrow> empty_lists h (q # ls)"
    using sep by (intro empty_lists_cong new_tags_other) auto
  with e have h1: "dlist ?h1 q []" "empty_lists ?h1 ls" by (simp_all add: empty_lists_def)
  have "empty_lists (ins_lnk (list_tail q) ?e ?h1) ls \<longleftrightarrow> empty_lists ?h1 ls"
    using d sep by (intro empty_lists_cong ins_lnk_other [OF h1(1)]) auto
  with h1(2) show "empty_lists h' (c # b # ls)"
    unfolding h'_def using d by (intro empty_lists_init) simp_all
  have "dlist (ins_lnk (list_tail q) ?e ?h1) q [?e]"
    using lq.rep_append [OF h1(1), of ?e] d by (auto simp: foot_def)
  moreover have "c \<notin> foot q [?e]" "list_tail c \<notin> foot q [?e]" "b \<notin> foot q [?e]" "list_tail b \<notin> foot q [?e]"
    using d by (auto simp: in_foot_iff)
  ultimately show "dlist h' q [?e]" unfolding h'_def by (simp add: dlist_init_keeps)
qed

lemma init_all_views:
  fixes s :: "'a kernel_machine_scheme"
  assumes b: "boot_state s"
  defines "m \<equiv> running_thread s"
  obtains s' where "init_all en s = Ret s' ()" "addresses s' = addresses s"
    "pools_set (load32 (mem s) 0xb00) s'" "bitmaps_clear s'"
    "threads_of s' = ((tasks s)(m := fresh_task m (lit ''main'') 31 (next_pid s + 1) TASK_RUNNING), m, next_pid s + 1)"
    "locks_of s' = locks_of (fold lock_init [pool_lock (kernel_pool s), pool_lock (user_pool s), pid_lock s,
       console_lock s, kbd_buf s] s)"
    "empty_lists (lnk s') (waiting_lists s)" "dlist (lnk s') (thread_all_list s) [all_list_tag m]"
    "ioqs s' = (ioqs s)(kbd_buf s := fresh_queue (ioqs s (kbd_buf s)))"
    "idt_table (tables s') = (replicate IDT_DESC_CNT (general_intr_handler_at en))
       [0x20 := intr_timer_handler_at en, 0x21 := intr_keyboard_handler_at en]"
proof -
  let ?p = "put_str (lit ''init_all'' @ [10]) s"
  let ?s0 = "idt_init_all en ?p"
  have "length (idt_table (tables ?p)) = IDT_DESC_CNT" using b by (simp add: boot_state_def kernel_frame)
  note v0 = idt_init_all_views [OF this, of en, unfolded print_views kernel_frame]
  have mem0: "mem ?s0 = mem s" "pool_lock (kernel_pool ?s0) = pool_lock (kernel_pool s)"
    "pool_lock (user_pool ?s0) = pool_lock (user_pool s)"
    using v0(3) by (simp_all add: memory_of_def)
  have "0x200000 \<le> load32 (mem ?s0) 0xb00" using b by (simp add: mem0 boot_state_def)
  from mem_init_views [OF this] obtain s1 where s1: "mem_init ?s0 = Inr s1"
    "pools_set (load32 (mem s) 0xb00) s1" "bitmaps_clear s1" "addresses s1 = addresses s"
    "threads_of s1 = threads_of s" "ioqs s1 = ioqs s" "tables s1 = tables ?s0"
    "locks_of s1 = locks_of (lock_init (pool_lock (user_pool s)) (lock_init (pool_lock (kernel_pool s)) ?s0))"
    "lnk s1 = init_lnk (lock_waiters (pool_lock (user_pool s)))
      (init_lnk (lock_waiters (pool_lock (kernel_pool s))) (lnk s))"
    unfolding mem0 v0 by blast
  have a1: "running_thread s1 = m" "pid_lock s1 = pid_lock s" "thread_ready_list s1 = thread_ready_list s"
    "thread_all_list s1 = thread_all_list s" "tasks s1 = tasks s" "next_pid s1 = next_pid s"
    using s1(4,5) by (simp_all add: views running_thread_def m_def)
  have "distinct (ends [lock_waiters (pid_lock s1), thread_ready_list s1, thread_all_list s1] @
      [general_tag (running_thread s1), all_list_tag (running_thread s1)])" "running_thread s1 \<noteq> 0"
    using b by (auto simp: a1 boot_state_def waiting_lists_def m_def)
  from thread_init_views [OF this] obtain s2 where s2: "thread_init s1 = Ret s2 ()" "addresses s2 = addresses s"
    "memory_of s2 = memory_of s1" "ioqs s2 = ioqs s" "tables s2 = tables ?s0"
    "locks_of s2 = locks_of (lock_init (pid_lock s) s1)"
    "threads_of s2 = ((tasks s)(m := fresh_task m (lit ''main'') 31 (next_pid s + 1) TASK_RUNNING), m, next_pid s + 1)"
    "lnk s2 = ins_lnk (list_tail (thread_all_list s)) (all_list_tag m) (new_tags m (lnk (thread_lists_ready s1)))"
    unfolding a1 s1 by blast
  have a2: "console_lock s2 = console_lock s" "kbd_buf s2 = kbd_buf s" using s2(2) by (simp_all add: addresses_def)
  obtain s3 where s3: "devices_init en s2 = Ret s3 ()" "addresses s3 = addresses s" "memory_of s3 = memory_of s1"
    "threads_of s3 = threads_of s2" "locks_of s3 = locks_of (lock_init (kbd_buf s) (lock_init (console_lock s) s2))"
    "lnk s3 = init_lnk (lock_waiters (kbd_buf s)) (init_lnk (lock_waiters (console_lock s)) (lnk s2))"
    "ioqs s3 = (ioqs s)(kbd_buf s := fresh_queue (ioqs s (kbd_buf s)))"
    "idt_table (tables s3) = (idt_table (tables ?s0))
       [0x20 := intr_timer_handler_at en, 0x21 := intr_keyboard_handler_at en]"
    using devices_init_views [of en s2] unfolding a2 s2 by blast
  show thesis
  proof (rule that)
    show "init_all en s = Ret s3 ()" using s1(1) s2(1) s3(1) by (simp add: init_all_devices)
    show "pools_set (load32 (mem s) 0xb00) s3" "bitmaps_clear s3"
      using s1(2,3) s3(3) by (simp_all add: memory_of_def pools_set_def bitmaps_clear_def)
    show "threads_of s3 = ((tasks s)(m := fresh_task m (lit ''main'') 31 (next_pid s + 1) TASK_RUNNING), m, next_pid s + 1)"
      using s2(7) s3(4) by simp
    show "locks_of s3 = locks_of (fold lock_init [pool_lock (kernel_pool s), pool_lock (user_pool s), pid_lock s,
        console_lock s, kbd_buf s] s)"
      using s1(8) s2(6) s3(5) v0(2) by (simp add: locks_of_def)
    have "empty_lists (lnk (thread_lists_ready s1)) [lock_waiters (pid_lock s), thread_ready_list s, thread_all_list s,
        lock_waiters (pool_lock (user_pool s)), lock_waiters (pool_lock (kernel_pool s))]"
      unfolding thread_lists_ready_views a1 s1
      using b by (intro empty_lists_init) (auto simp: boot_state_def waiting_lists_def empty_lists_def)
    then have "empty_lists (lnk (thread_lists_ready s1)) (thread_all_list s # [lock_waiters (pid_lock s),
        thread_ready_list s, lock_waiters (pool_lock (user_pool s)), lock_waiters (pool_lock (kernel_pool s))])"
      by (simp add: empty_lists_def)
    note links = links_after_init [OF _ this, of "lock_waiters (kbd_buf s)" "lock_waiters (console_lock s)" m]
    show "empty_lists (lnk s3) (waiting_lists s)" "dlist (lnk s3) (thread_all_list s) [all_list_tag m]"
      using links b by (simp_all add: boot_state_def waiting_lists_def s3(6) s2(8) m_def)
    show "idt_table (tables s3) = (replicate IDT_DESC_CNT (general_intr_handler_at en))
       [0x20 := intr_timer_handler_at en, 0x21 := intr_keyboard_handler_at en]"
      using s3(8) v0(7) by simp
  qed (use s3 in simp_all)
qed

lemma lock_semaphore_inject [simp]: "lock_semaphore L = lock_semaphore L' \<longleftrightarrow> L = L'"
  by (simp add: lock_semaphore_def)

lemma fold_lock_init_free: "L \<in> set Ls \<Longrightarrow> lock_free L (fold lock_init Ls s)"
proof (induction Ls rule: rev_induct)
  case (snoc L' Ls)
  then show ?case by (cases "L = L'") (auto simp: lock_free_def)
qed simp

text \<open>
  C7: \<^verbatim>\<open>init_all\<close> from the state the loader leaves: it returns with interrupts still off; the main
  thread, with the next process identifier and a slice of 31 ticks, is the only thread, it is running
  and in the list of all threads; every lock of the kernel is free with no thread waiting; the clock
  and the keyboard have their handlers and every other vector the general one; the pools divide the
  memory and are free; and the keyboard's buffer is empty.
\<close>

theorem init_all_ready:
  fixes s :: "'a kernel_machine_scheme"
  assumes "boot_state s"
  shows "\<exists>s'. init_all en s = Ret s' () \<and> timed_ring s' [running_thread s] \<and>
    tasks s' (running_thread s) =
      fresh_task (running_thread s) (lit ''main'') 31 (next_pid s + 1) TASK_RUNNING \<and>
    dlist (lnk s') (thread_all_list s) [all_list_tag (running_thread s)] \<and>
    list_all (\<lambda>L. lock_free L s' \<and> dlist (lnk s') (lock_waiters L) [])
      [pool_lock (kernel_pool s), pool_lock (user_pool s), pid_lock s, console_lock s, kbd_buf s] \<and>
    idt_table (tables s') = (replicate IDT_DESC_CNT (general_intr_handler_at en))
      [0x20 := intr_timer_handler_at en, 0x21 := intr_keyboard_handler_at en] \<and>
    pools_set (load32 (mem s) 0xb00) s' \<and> bitmaps_clear s' \<and>
    ioq_idle (kbd_buf s) s' \<and> contents (ioqs s' (kbd_buf s)) = []"
proof -
  let ?m = "running_thread s"
  let ?Ls = "[pool_lock (kernel_pool s), pool_lock (user_pool s), pid_lock s, console_lock s, kbd_buf s]"
  obtain s' where s': "init_all en s = Ret s' ()" "addresses s' = addresses s"
    "pools_set (load32 (mem s) 0xb00) s'" "bitmaps_clear s'"
    "threads_of s' = ((tasks s)(?m := fresh_task ?m (lit ''main'') 31 (next_pid s + 1) TASK_RUNNING), ?m, next_pid s + 1)"
    "locks_of s' = locks_of (fold lock_init ?Ls s)"
    "empty_lists (lnk s') (waiting_lists s)" "dlist (lnk s') (thread_all_list s) [all_list_tag ?m]"
    "ioqs s' = (ioqs s)(kbd_buf s := fresh_queue (ioqs s (kbd_buf s)))"
    "idt_table (tables s') = (replicate IDT_DESC_CNT (general_intr_handler_at en))
       [0x20 := intr_timer_handler_at en, 0x21 := intr_keyboard_handler_at en]"
    using init_all_views [OF assms, where en = en] by blast
  have a: "running_thread s' = ?m" "thread_ready_list s' = thread_ready_list s"
    "intr_get_status s' = INTR_OFF" "tasks s' ?m = fresh_task ?m (lit ''main'') 31 (next_pid s + 1) TASK_RUNNING"
    using s'(2,5) assms
    by (simp_all add: addresses_def threads_of_def running_thread_def boot_state_def intr_get_status_def)
  have lists: "dlist (lnk s') (thread_ready_list s) []" "list_all (\<lambda>L. dlist (lnk s') (lock_waiters L) []) ?Ls"
    using s'(7) by (simp_all add: empty_lists_def waiting_lists_def)
  have "general_tag ?m \<notin> foot (thread_ready_list s) []"
    using assms by (auto simp: boot_state_def waiting_lists_def foot_def)
  moreover have "spaces_ok s' (\<lambda>_. 0x100000) [?m]" by (rule spaces_ok_kernel) (simp add: a fresh_task_def)
  ultimately have "timed_ring s' [?m]"
    using a lists assms
    by (auto simp: timed_ring_def thread_ring_def sched_inv_def fresh_task_def boot_state_def)
  moreover have "lock_free L s'" if "L \<in> set ?Ls" for L
    using fold_lock_init_free [OF that, of s] s'(6) by (simp add: locks_of_def lock_free_def)
  moreover have "ioq_idle (kbd_buf s) s'" "contents (ioqs s' (kbd_buf s)) = []"
    using a(3) s'(9) assms
    by (simp_all add: ioq_idle_def ring_ok_def fresh_queue_def boot_state_def contents_def ring_len_def)
  ultimately show ?thesis using s'(1,3,4,8,10) a lists(2) by (simp add: list_all_iff)
qed

text \<open>The state of a machine with 32 megabytes.\<close>

definition demo_kernel :: kernel_machine where
  "demo_kernel = (timer_machine.extend demo_timer
     \<lparr>tables = \<lparr>idt = [], idt_table = replicate 0x81 0, intr_name = []\<rparr>, idtr = 0, test_var_a = 0, test_var_b = 0\<rparr>)
     \<lparr>mem := (\<lambda>_. 0)(0xb03 := 2), kernel_pool := demo_pool, user_pool := demo_pool\<lparr>pool_lock := 0xc0006200\<rparr>,
      console_lock := 0xc0006300, pid_lock := 0xc0006400, thread_all_list := 0xc0005020\<rparr>"

lemma demo_kernel_fields [simp]:
  "eflags demo_kernel = 2" "esp demo_kernel = 0xc009ef00" "mem demo_kernel = (\<lambda>_. 0)(0xb03 := 2)"
  "kernel_pool demo_kernel = demo_pool" "user_pool demo_kernel = demo_pool\<lparr>pool_lock := 0xc0006200\<rparr>"
  "console_lock demo_kernel = 0xc0006300" "pid_lock demo_kernel = 0xc0006400"
  "thread_all_list demo_kernel = 0xc0005020" "thread_ready_list demo_kernel = 0xc0005000"
  "kbd_buf demo_kernel = 0xc0007000" "ioqs demo_kernel = ioqs (demo_ioq 0)"
  "tables demo_kernel = \<lparr>idt = [], idt_table = replicate 0x81 0, intr_name = []\<rparr>"
  by (simp_all add: demo_kernel_def timer_machine.defs demo_timer_def keyboard_machine.defs demo_keyboard_def
      ioq_machine.defs demo_ioq_def process_machine.defs)

lemma demo_boot_state: "boot_state demo_kernel"
  by (simp add: boot_state_def intr_get_status_def EFLAGS_IF_def running_thread_def load32_def IDT_DESC_CNT_def
      waiting_lists_def sema_waiters_def lock_semaphore_def list_tail_def demo_pool_def general_tag_def
      general_tag_offset_def all_list_tag_def all_list_tag_offset_def)

theorem init_all_ready_witness:
  "\<exists>en s'. init_all en demo_kernel = Ret s' () \<and> timed_ring s' [0xc009e000] \<and> lock_free 0xc0006300 s'"
proof -
  have "running_thread demo_kernel = 0xc009e000" by (simp add: running_thread_def)
  then show ?thesis using init_all_ready [OF demo_boot_state] by (fastforce simp: list_all_iff)
qed

end
