(* ===== verification/Boot.thy ===== *)
theory Boot
  imports Kernel
begin

text \<open>
  From the loader to the running system. \<^verbatim>\<open>src/boot/loader.S\<close> makes a page directory at 0x100000 with
  all tables of the kernel half (\<^verbatim>\<open>setup_page\<close>); \<^verbatim>\<open>mem_init\<close> makes the pools and the heap above them. The lemmas show
  that the heap then satisfies its invariant, and the theorem composes \<^verbatim>\<open>init_all\<close>, the two calls of
  \<^verbatim>\<open>thread_start\<close>, the two calls of \<^verbatim>\<open>process_execute\<close> and the clock: \<^verbatim>\<open>main\<close> of \<^verbatim>\<open>src/kernel/main.c\<close>
  reaches its endless loop, and from then on the clock handler switches between the five threads.
\<close>

section \<open>What the loader leaves\<close>

text \<open>
  \<^verbatim>\<open>setup_page\<close> of \<^verbatim>\<open>src/boot/loader.S\<close> on the words of the memory: the directory is cleared, its first
  entry, the first of the kernel half and the last are set, the first table maps the first megabyte,
  and the other entries of the kernel half point at the tables behind it, which are left as they are.
\<close>

definition PAGE_DIR_TABLE_POS :: u32 where "PAGE_DIR_TABLE_POS = 0x100000"

fun put_entries :: "nat \<Rightarrow> u32 \<Rightarrow> u32 \<Rightarrow> (u32 \<Rightarrow> u32) \<Rightarrow> u32 \<Rightarrow> u32" where
  "put_entries 0 a e ph = ph"
| "put_entries (Suc n) a e ph = put_entries n (a + 4) (e + 4096) (ph(a := e))"

definition setup_page :: "(u32 \<Rightarrow> u32) \<Rightarrow> u32 \<Rightarrow> u32" where
  "setup_page ph =
     (let ph = zero_at (slots PAGE_DIR_TABLE_POS 1024) ph;
          eax = PAGE_DIR_TABLE_POS + 0x1000; ebx = eax;
          eax = eax OR PG_US_U OR PG_RW_W OR PG_P_1;
          ph = ph(PAGE_DIR_TABLE_POS := eax, PAGE_DIR_TABLE_POS + 0xc00 := eax);
          ph = ph(PAGE_DIR_TABLE_POS + 4092 := eax - 0x1000);
          ph = put_entries 256 ebx (PG_US_U OR PG_RW_W OR PG_P_1) ph
      in put_entries 254 (PAGE_DIR_TABLE_POS + 769 * 4) ((PAGE_DIR_TABLE_POS + 0x2000) OR PG_US_U OR PG_RW_W OR PG_P_1) ph)"

text \<open>The directory entries that it writes.\<close>

definition boot_pde :: "nat \<Rightarrow> u32" where
  "boot_pde i =
     (if i = 0 then entry_for (page_no 0x101)
      else if 768 \<le> i \<and> i < 1023 then entry_for (page_no (0x101 + (i - 768)))
      else if i = 1023 then entry_for (page_no 0x100) else 0)"

text \<open>
  The directory, and the 255 tables behind it, in which only the first 256 entries are used; that
  the others are not present is how the memory comes up, since the loader does not clear them.
\<close>

definition boot_tables :: "'a mmu_machine_scheme \<Rightarrow> bool" where
  "boot_tables s \<longleftrightarrow> cr3 s = page_no 0x100 \<and>
     (\<forall>i < 1024. phys s (page_no 0x100 + of_nat i * 4) = boot_pde i) \<and>
     (\<forall>i. 256 \<le> i \<longrightarrow> i < 255 * 1024 \<longrightarrow> phys s (page_no 0x101 + of_nat i * 4) = 0)"

lemma put_entries_other: "(\<And>i. i < n \<Longrightarrow> b \<noteq> a + of_nat i * 4) \<Longrightarrow> put_entries n a e ph b = ph b"
proof (induction n arbitrary: a e ph)
  case (Suc n)
  have "b \<noteq> a + 4 + of_nat i * 4" if "i < n" for i using Suc.prems [of "Suc i"] that by (simp add: algebra_simps)
  then show ?case using Suc.IH [of "a + 4"] Suc.prems [of 0] by simp
qed simp

lemma put_entries_at:
  "i < n \<Longrightarrow> n \<le> 2 ^ 20 \<Longrightarrow> put_entries n a e ph (a + of_nat i * 4) = e + of_nat i * 4096"
proof (induction n arbitrary: i a e ph)
  case (Suc n)
  show ?case
  proof (cases i)
    case 0
    have "a \<noteq> a + 4 + of_nat j * 4" if "j < n" for j
    proof -
      have "unat (4 + of_nat j * 4 :: u32) = 4 + j * 4" using that Suc.prems(2) unat_of_nat_u32 [of "4 + j * 4"] by simp
      then show ?thesis by (auto simp: add.assoc)
    qed
    then show ?thesis using 0 put_entries_other [of n a "a + 4" "e + 4096"] by simp
  next
    case (Suc j)
    then show ?thesis using Suc.IH [of j "a + 4" "e + 4096"] Suc.prems by (simp add: algebra_simps)
  qed
qed simp

text \<open>The words from the directory on, and the steps of \<^verbatim>\<open>setup_page\<close> on them.\<close>

definition dir_slot :: "nat \<Rightarrow> u32" where
  "dir_slot i = PAGE_DIR_TABLE_POS + of_nat i * 4"

lemma dir_slot_inject: "i < 2 ^ 20 \<Longrightarrow> j < 2 ^ 20 \<Longrightarrow> dir_slot i = dir_slot j \<longleftrightarrow> i = j"
proof -
  assume i: "i < 2 ^ 20" "j < 2 ^ 20"
  have "unat (of_nat k * 4 :: u32) = k * 4" if "k < 2 ^ 20" for k using that unat_of_nat_u32 [of "k * 4"] by simp
  from this [OF i(1)] this [OF i(2)] have "(of_nat i * 4 :: u32) = of_nat j * 4 \<longleftrightarrow> i = j"
    by (metis mult_right_cancel zero_neq_numeral)
  then show ?thesis by (simp add: dir_slot_def)
qed

lemma dir_slots:
  "dir_slot i \<in> slots PAGE_DIR_TABLE_POS 1024 \<longleftrightarrow> i < 1024" if "i < 2 ^ 20"
proof -
  have "dir_slot i \<in> slots PAGE_DIR_TABLE_POS 1024 \<longleftrightarrow> (\<exists>j < 1024. dir_slot i = dir_slot j)"
    by (auto simp: slots_def dir_slot_def)
  also have "\<dots> \<longleftrightarrow> i < 1024" by (auto simp: dir_slot_inject [OF that])
  finally show ?thesis .
qed

lemma put_entries_slot:
  assumes "b + n \<le> 2 ^ 20" "i < 2 ^ 20"
  shows "put_entries n (dir_slot b) e ph (dir_slot i) =
    (if b \<le> i \<and> i < b + n then e + of_nat (i - b) * 4096 else ph (dir_slot i))"
proof (cases "b \<le> i \<and> i < b + n")
  case True
  then obtain k where k: "i = b + k" "k < n" by (auto simp: le_iff_add)
  then have "dir_slot i = dir_slot b + of_nat k * 4" by (simp add: dir_slot_def algebra_simps)
  then show ?thesis using k put_entries_at [of k n "dir_slot b"] assms(1) by simp
next
  case False
  have "dir_slot i \<noteq> dir_slot b + of_nat j * 4" if "j < n" for j
  proof -
    have "dir_slot b + of_nat j * 4 = dir_slot (b + j)" by (simp add: dir_slot_def algebra_simps)
    then show ?thesis using dir_slot_inject [of i "b + j"] assms that False by auto
  qed
  then show ?thesis using put_entries_other [of n "dir_slot i" "dir_slot b"] False by auto
qed

lemma setup_page_slot:
  assumes "i < 2 ^ 20"
  shows "setup_page ph (dir_slot i) =
    (if 769 \<le> i \<and> i < 1023 then 0x102007 + of_nat (i - 769) * 4096
     else if 1024 \<le> i \<and> i < 1280 then 7 + of_nat (i - 1024) * 4096
     else if i = 1023 then 0x100007 else if i = 0 \<or> i = 768 then 0x101007
     else if i < 1024 then 0 else ph (dir_slot i))"
proof -
  have at: "PAGE_DIR_TABLE_POS = dir_slot 0" "PAGE_DIR_TABLE_POS + 0xc00 = dir_slot 768" "PAGE_DIR_TABLE_POS + 4092 = dir_slot 1023"
    "PAGE_DIR_TABLE_POS + 0x1000 = dir_slot 1024" "PAGE_DIR_TABLE_POS + 769 * 4 = dir_slot 769" by (simp_all add: dir_slot_def)
  have val: "dir_slot 1024 OR PG_US_U OR PG_RW_W OR PG_P_1 = 0x101007" "PG_US_U OR PG_RW_W OR PG_P_1 = 7"
    "(PAGE_DIR_TABLE_POS + 0x2000) OR PG_US_U OR PG_RW_W OR PG_P_1 = 0x102007"
    by (simp_all add: dir_slot_def PAGE_DIR_TABLE_POS_def PG_US_U_def PG_RW_W_def PG_P_1_def)
  show ?thesis
    unfolding setup_page_def Let_def at(2-5) val(1,3) unfolding val(2)
    using assms dir_slots [unfolded at(1)] by (simp add: put_entries_slot zero_at_def at(1) dir_slot_inject)
qed

lemma entry_for_page: "entry_for (page_no k) = page_no k + 7"
proof -
  have "entry_for (page_no k) = page_no k OR 7" by (simp add: entry_for_def PG_US_U_def PG_RW_W_def PG_P_1_def)
  moreover have "page_no k AND 7 = 0"
    by (rule bit_word_eqI) (auto simp: page_no_def bit_simps mask_bits)
  ultimately show ?thesis by (simp add: disjunctive_add_eq_or)
qed

lemma setup_page_boot_tables:
  assumes "cr3 s = PAGE_DIR_TABLE_POS"
    "\<forall>i. 256 \<le> i \<longrightarrow> i < 255 * 1024 \<longrightarrow> phys s (page_no 0x101 + of_nat i * 4) = 0"
  shows "boot_tables (s\<lparr>phys := setup_page (phys s)\<rparr>)"
proof -
  have dir: "page_no 0x100 = PAGE_DIR_TABLE_POS" "page_no 0x100 + of_nat i * 4 = dir_slot i"
    "page_no 0x101 + of_nat i * 4 = dir_slot (1024 + i)" for i
    by (simp_all add: page_no_def push_bit_eq_mult dir_slot_def PAGE_DIR_TABLE_POS_def algebra_simps)
  have "setup_page (phys s) (dir_slot i) = boot_pde i" if "i < 1024" for i
  proof -
    have "i < 1023 \<or> i = 1023" using that by linarith
    then consider "i = 0" | "0 < i" "i < 768" | "i = 768" | "769 \<le> i" "i < 1023" | "i = 1023"
      by (cases "i < 768"; cases "i < 769"; cases "i < 1023") auto
    then show ?thesis
    proof cases
      case 4
      have "page_no (0x101 + (i - 768)) + 7 = 0x102007 + of_nat (i - 769) * 4096"
        using 4 by (simp add: page_no_def push_bit_eq_mult of_nat_diff algebra_simps)
      with 4 show ?thesis by (simp add: setup_page_slot boot_pde_def entry_for_page)
    qed (simp_all add: setup_page_slot boot_pde_def entry_for_page, simp_all add: page_no_def push_bit_eq_mult)
  qed
  moreover have "setup_page (phys s) (dir_slot (1024 + i)) = 0" if "256 \<le> i" "i < 255 * 1024" for i
    using that assms(2) by (simp add: setup_page_slot dir(3))
  ultimately show ?thesis using assms(1) dir(1) unfolding boot_tables_def dir(2,3) by simp
qed

lemma boot_pde_of:
  assumes "boot_tables s"
  shows "pde_of s w = boot_pde (unat (PDE_IDX w))"
proof -
  have "unat (PDE_IDX w) < 1024" using is_index_less [of "PDE_IDX w"] by simp
  then have "phys s (page_no 0x100 + of_nat (unat (PDE_IDX w)) * 4) = boot_pde (unat (PDE_IDX w))"
    using assms unfolding boot_tables_def by blast
  moreover have "cr3 s = page_no 0x100" using assms by (simp add: boot_tables_def)
  ultimately show ?thesis by (simp add: pde_addr_def)
qed

lemma boot_pde_cases:
  assumes "present (boot_pde i)" "i < 1024"
  shows "frame (boot_pde i) = page_no (if i = 1023 then 0x100 else 0x101 + (i - 768))"
  using assms by (auto simp: boot_pde_def split: if_splits)

lemma boot_tables_ok:
  assumes "boot_tables s"
  shows "tables_ok s"
proof -
  have cr3: "cr3 s = page_no 0x100" using assms by (simp add: boot_tables_def)
  have "phys s (page_no 0x100 + of_nat 1023 * 4) = boot_pde 1023"
    using assms unfolding boot_tables_def by (elim conjE allE [of _ 1023] impE) simp_all
  then have sm: "self_mapped (cr3 s) (phys s)" by (simp add: self_mapped_def cr3 boot_pde_def)
  have "frame (pde_of s w) \<noteq> page_no 0x100" if "PDE_IDX w \<noteq> 1023" "present (pde_of s w)" for w
  proof -
    have i: "unat (PDE_IDX w) < 1024" using is_index_less [of "PDE_IDX w"] by simp
    have "unat (PDE_IDX w) \<noteq> 1023" using that(1) by (auto simp: word_unat_eq_iff)
    then have "frame (pde_of s w) = page_no (0x101 + (unat (PDE_IDX w) - 768))"
      using boot_pde_cases [OF _ i] that(2) by (simp add: boot_pde_of [OF assms])
    then show ?thesis using i page_no_inject [of "0x101 + (unat (PDE_IDX w) - 768)" "0x100"] by simp
  qed
  then show ?thesis using sm by (simp add: tables_ok_def cr3)
qed

lemma boot_fresh:
  assumes "boot_tables s" "0x200 \<le> k" "k < 2 ^ 20"
  shows "fresh s (page_no k)"
proof -
  have cr3: "cr3 s = page_no 0x100" using assms by (simp add: boot_tables_def)
  have "frame (pde_of s w) \<noteq> page_no k" if "present (pde_of s w)" for w
  proof -
    have i: "unat (PDE_IDX w) < 1024" using is_index_less [of "PDE_IDX w"] by simp
    define l where "l = (if unat (PDE_IDX w) = 1023 then 0x100 else 0x101 + (unat (PDE_IDX w) - 768))"
    have "frame (pde_of s w) = page_no l"
      using boot_pde_cases [OF _ i] that by (simp add: boot_pde_of [OF assms(1)] l_def)
    moreover have "l < 0x200" using i by (auto simp: l_def)
    ultimately show ?thesis using page_no_inject [of l k] assms(2,3) by simp
  qed
  moreover have "page_no k \<noteq> page_no 0x100" using page_no_inject [of k "0x100"] assms(2,3) by simp
  ultimately show ?thesis by (simp add: fresh_def cr3)
qed

text \<open>The entry of a page of the kernel half, of which the first 1 MB is mapped.\<close>

lemma boot_pte:
  assumes "boot_tables s" "768 * 1024 + 256 \<le> k" "k < 1023 * 1024"
  shows "phys s (pte_at s (page_no k)) = 0"
proof -
  have k: "k < 2 ^ 20" using assms(3) by simp
  define i where "i = k - 768 * 1024"
  have i: "256 \<le> i" "i < 255 * 1024" "k = i + 768 * 1024" using assms(2,3) by (simp_all add: i_def)
  then have d: "k div 1024 = i div 1024 + 768" "k mod 1024 = i mod 1024" by (simp_all only: div_mult_self1 mod_mult_self1)
  have "i div 1024 < 255" using less_mult_imp_div_less [of i 255 1024] i(2) by simp
  then have pd: "pde_of s (page_no k) = entry_for (page_no (0x101 + i div 1024))"
    using boot_pde_of [OF assms(1), of "page_no k"] by (simp add: PDE_IDX_page_no [OF k] d boot_pde_def)
  have "PTE_IDX (page_no k) = of_nat (i mod 1024)"
    using PTE_IDX_page_no [OF k] d(2) unat_of_nat_u32 [of "i mod 1024"] by (simp add: word_unat_eq_iff)
  then have "pte_at s (page_no k) = page_no (0x101 + i div 1024) + of_nat (i mod 1024) * 4"
    by (simp add: pte_addr_def pd)
  also have "\<dots> = page_no 0x101 + of_nat (i div 1024 * 1024 + i mod 1024) * 4"
    unfolding page_no_def push_bit_eq_mult of_nat_add of_nat_mult by (simp add: algebra_simps)
  finally show ?thesis using assms(1) i(1,2) by (simp add: boot_tables_def)
qed

section \<open>The heap after \<^verbatim>\<open>mem_init\<close>\<close>

lemma bm_bytes_range:
  assumes "a \<in> bm_bytes b" "unat (bits b) + unat (btmp_bytes_len b) < 2 ^ 32"
  shows "unat (bits b) \<le> unat a" "unat a < unat (bits b) + unat (btmp_bytes_len b)"
proof -
  obtain k where k: "k < unat (btmp_bytes_len b)" "a = bits b + of_nat k"
    using assms(1) by (auto simp: bm_bytes_def mem_span_iff)
  have "a = of_nat (unat (bits b) + k)" using k(2) by simp
  then have "unat a = unat (bits b) + k" using k(1) assms(2) by (simp only:) (simp add: unat_of_nat_u32 del: of_nat_add)
  with k(1) show "unat (bits b) \<le> unat a" "unat a < unat (bits b) + unat (btmp_bytes_len b)" by simp_all
qed

lemma boot_pool_frames:
  assumes "pools_set n s"
  shows "heap_frame s j = page_no (0x200 + j)"
  using assms
  by (simp add: pools_set_def frame_of_def used_mem_def PG_SIZE_def page_no_def push_bit_eq_mult algebra_simps)

text \<open>The number of pages of the heap, and of frames of the kernel's pool.\<close>

definition heap_size :: "u32 \<Rightarrow> nat" where
  "heap_size all_mem = 8 * (free_page_count all_mem div 2 div 8)"

lemma heap_size_le: "heap_size n \<le> 32768"
  using free_page_count_less [of n] by (simp add: heap_size_def)

lemma boot_heap_ok:
  fixes s :: "'a memory_machine_scheme"
  assumes tabs: "boot_tables s" and pools: "pools_set all_mem s" and mem: "0x200000 \<le> all_mem"
  shows "heap_ok s" "bm_cap (heap_bits s) = heap_size all_mem" "bm_cap (pool_bits s) = heap_size all_mem"
proof -
  note lay = pools_set_layout [OF mem pools] and n = free_page_count_less [of all_mem]
  let ?n = "free_page_count all_mem" and ?c = "heap_size all_mem"
  show cap: "bm_cap (heap_bits s) = ?c" "bm_cap (pool_bits s) = ?c"
    using lay by (simp_all add: bm_cap_def heap_size_def)
  have k: "?n div 2 div 8 \<le> 4096" "(?n - ?n div 2) div 8 \<le> 4096" using n by auto
  note heap = bm_bytes_range [of _ "heap_bits s", unfolded lay] and pool = bm_bytes_range [of _ "pool_bits s", unfolded lay]
  have fits: "0xc009a000 + ?n div 2 div 8 + (?n - ?n div 2) div 8 + ?n div 2 div 8 < (2 :: nat) ^ 32"
    "0xc009a000 + ?n div 2 div 8 < (2 :: nat) ^ 32"
    using k by simp_all
  have low: "unat a < 0xc0100 * 4096" if "a \<in> bm_bytes (heap_bits s) \<union> bm_bytes (pool_bits s)" for a
    using that heap(2) [OF _ fits(1)] pool(2) [OF _ fits(2)] k by fastforce
  have disj: "bm_bytes (heap_bits s) \<inter> bm_bytes (pool_bits s) = {}"
    using heap(1) [OF _ fits(1)] pool(2) [OF _ fits(2)] by fastforce
  have base: "vaddr_start (kernel_vaddr s) = page_no 0xc0100"
    using pools by (simp add: pools_set_def K_HEAP_START_def page_no_def push_bit_eq_mult)
  have pres: "present (pde_of s w)" if "768 \<le> unat (PDE_IDX w)" "unat (PDE_IDX w) < 1023" for w
    using that by (simp add: boot_pde_of [OF tabs] boot_pde_def)
  have diff: "PDE_IDX v = PDE_IDX w" if "768 \<le> unat (PDE_IDX v)" "unat (PDE_IDX v) < 1023"
    "768 \<le> unat (PDE_IDX w)" "unat (PDE_IDX w) < 1023" "frame (pde_of s v) = frame (pde_of s w)" for v w
  proof -
    have "page_no (0x101 + (unat (PDE_IDX v) - 768)) = page_no (0x101 + (unat (PDE_IDX w) - 768))"
      using that by (simp add: boot_pde_of [OF tabs] boot_pde_def)
    then have "0x101 + (unat (PDE_IDX v) - 768) = 0x101 + (unat (PDE_IDX w) - 768)"
      using that by (subst (asm) page_no_inject) simp_all
    then have "unat (PDE_IDX v) = unat (PDE_IDX w)" using that by linarith
    then show ?thesis by (simp add: word_unat_eq_iff)
  qed
  have "(0xc0100 :: nat) div 1024 = 768" by simp
  then have "inj_on (\<lambda>j. pte_at s (heap_page s j)) {..<?c}" "\<forall>j < ?c. let v = heap_page s j in v \<noteq> 0 \<and> frame v = v \<and>
      768 \<le> unat (PDE_IDX v) \<and> unat (PDE_IDX v) < 1023 \<and> present (pde_of s v) \<and>
      page_bytes v \<inter> (bm_bytes (heap_bits s) \<union> bm_bytes (pool_bits s)) = {}"
    using heap_size_le [of all_mem] pres diff low
    by (intro heap_pages_ok [OF base, of ?c "bm_bytes (heap_bits s) \<union> bm_bytes (pool_bits s)"]; simp)+
  moreover have "inj_on (heap_frame s) {..<?c}"
    using heap_size_le [of all_mem] by (intro inj_onI) (simp add: boot_pool_frames [OF pools] page_no_inject)
  moreover have "page_no (0x200 + j) \<noteq> 0" if "j < ?c" for j
    using unat_page_no [of "0x200 + j"] that heap_size_le [of all_mem] by auto
  then have "frames_ok (kernel_pool s)"
    using cap lay(5) k by (simp add: frames_ok_def boot_pool_frames [OF pools] pool_ok_def bm_small_def word_less_nat_alt)
  moreover have "bm_small (heap_bits s)" using lay(10) k by (simp add: bm_small_def word_less_nat_alt)
  ultimately show "heap_ok s" using boot_tables_ok [OF tabs] disj by (simp add: heap_ok_def cap)
qed

lemma bm_free_clear: "\<forall>a \<in> bm_bytes b. m a = 0 \<Longrightarrow> j < bm_cap b \<Longrightarrow> bm_free b m j"
  using bm_free_cong [of b m "\<lambda>_. 0" j] by (simp add: bm_free_def)

lemma boot_heap:
  fixes s :: "'a memory_machine_scheme"
  assumes tabs: "boot_tables s" and pools: "pools_set all_mem s" and clear: "bitmaps_clear s"
    and mem: "0x200000 \<le> all_mem" and n: "n \<le> heap_size all_mem"
  shows "heap_at s 0 n"
proof -
  note ok = boot_heap_ok [OF tabs pools mem]
  have free: "bm_free (heap_bits s) (mem s) j" "bm_free (pool_bits s) (mem s) j" if "j < heap_size all_mem" for j
    using clear that ok(2,3) by (auto simp: bitmaps_clear_def intro!: bm_free_clear)
  then have "free_frames (kernel_pool s) (mem s) = {..<heap_size all_mem}" by (auto simp: free_frames_def ok(3))
  moreover have "fresh s (heap_frame s j)" if "j < heap_size all_mem" for j
    using boot_fresh [OF tabs, of "0x200 + j"] heap_size_le [of all_mem] that by (simp add: boot_pool_frames [OF pools])
  moreover have "heap_page s j = page_no (0xc0100 + j)" for j
    using pools by (simp add: heap_page_def pools_set_def K_HEAP_START_def flip: nth_page_no)
      (simp add: page_no_def push_bit_eq_mult)
  then have "\<not> present (phys s (pte_at s (heap_page s j)))" if "j < heap_size all_mem" for j
    using boot_pte [OF tabs, of "0xc0100 + j"] heap_size_le [of all_mem] that by simp
  ultimately show ?thesis using ok n free by (simp add: heap_at_def)
qed

section \<open>The threads after \<^verbatim>\<open>init_all\<close>\<close>

text \<open>The linker puts the kernel's variables, and the loader the stack, below the heap.\<close>

definition boot_layout :: "'a kernel_machine_scheme \<Rightarrow> bool" where
  "boot_layout s \<longleftrightarrow> list_all (\<lambda>a. a < K_HEAP_START)
     (running_thread s # ends (thread_all_list s # waiting_lists s) @
       [general_tag (running_thread s), all_list_tag (running_thread s)])"

lemma boot_heap_page:
  assumes "pools_set all_mem s"
  shows "heap_page s j = page_no (0xc0100 + j)"
proof -
  have "vaddr_start (kernel_vaddr s) = page_no 0xc0100"
    using assms by (simp add: pools_set_def K_HEAP_START_def page_no_def push_bit_eq_mult)
  then show ?thesis by (simp add: heap_page_def nth_page_no)
qed

lemma boot_system:
  fixes s :: "'a kernel_machine_scheme"
  assumes b: "boot_state s" and tabs: "boot_tables s" and lay: "boot_layout s"
    and n: "n \<le> heap_size (load32 (mem s) 0xb00)"
  defines "m \<equiv> running_thread s"
  shows "\<exists>s'. init_all en s = Ret s' () \<and> system_at s' 0 n [] [m] \<and> pools_set (load32 (mem s) 0xb00) s' \<and>
    eflags s' = eflags s \<and> esp s' = esp s \<and> cr3 s' = 0x100000 \<and> thread_all_list s' = thread_all_list s \<and>
    tasks s' m = fresh_task m (lit ''main'') 31 (next_pid s + 1) TASK_RUNNING \<and> next_pid s' = next_pid s + 1"
proof -
  let ?Ls = "[pool_lock (kernel_pool s), pool_lock (user_pool s), pid_lock s, console_lock s, kbd_buf s]"
  obtain s' where s': "init_all en s = Ret s' ()" "addresses s' = addresses s"
    "pools_set (load32 (mem s) 0xb00) s'" "bitmaps_clear s'"
    "threads_of s' = ((tasks s)(m := fresh_task m (lit ''main'') 31 (next_pid s + 1) TASK_RUNNING), m, next_pid s + 1)"
    "locks_of s' = locks_of (fold lock_init ?Ls s)"
    "empty_lists (lnk s') (waiting_lists s)" "dlist (lnk s') (thread_all_list s) [all_list_tag m]"
    using init_all_views [OF b, where en = en] unfolding m_def by blast
  have a: "eflags s' = eflags s" "esp s' = esp s" "cr3 s' = cr3 s" "phys s' = phys s" "running_thread s' = m"
    "thread_ready_list s' = thread_ready_list s" "thread_all_list s' = thread_all_list s" "pid_lock s' = pid_lock s"
    "main_thread s' = m" "tasks s' m = fresh_task m (lit ''main'') 31 (next_pid s + 1) TASK_RUNNING"
    "next_pid s' = next_pid s + 1"
    using s'(2,5) by (simp_all add: addresses_def threads_of_def running_thread_def m_def)
  have "boot_tables s'" using tabs by (simp add: boot_tables_def a)
  then have heap: "heap_at s' 0 n" using boot_heap [OF _ s'(3,4) _ n] b by (simp add: boot_state_def)
  have d: "distinct (ends (thread_all_list s # waiting_lists s) @ [general_tag m, all_list_tag m])" "m \<noteq> 0"
    using b by (simp_all add: boot_state_def m_def)
  have feet: "foot (thread_ready_list s) [] \<inter> foot (thread_all_list s) [all_list_tag m] = {}"
    "foot (lock_waiters (pid_lock s)) [] \<inter> (foot (thread_ready_list s) [] \<union> foot (thread_all_list s) [all_list_tag m]) = {}"
    "general_tag m \<notin> foot (thread_ready_list s) []"
    using d(1) by (auto simp: foot_def waiting_lists_def)
  have "lock_free (pid_lock s) s'"
    using fold_lock_init_free [of "pid_lock s" ?Ls s] s'(6) by (simp add: locks_of_def lock_free_def)
  then have lists: "thread_lists s' [] [m]"
    using s'(7,8) feet d(2) by (simp add: thread_lists_def sched_inv_def a empty_lists_def waiting_lists_def del: foot_simps)
  have "page_apart s' [] [m] (heap_page s' j)" if "j < bm_cap (heap_bits s')" for j
  proof (rule page_apart_above)
    have c: "bm_cap (heap_bits s') \<le> 32768"
      using boot_heap_ok(2) [OF \<open>boot_tables s'\<close> s'(3)] heap_size_le b by (simp add: boot_state_def)
    show "frame (heap_page s' j) = heap_page s' j" by (simp add: boot_heap_page [OF s'(3)])
    have "unat (page_no (0xc0100 + j)) = (0xc0100 + j) * 4096" using that c by (intro unat_page_no) simp
    then have p: "K_HEAP_START \<le> heap_page s' j"
      by (simp add: boot_heap_page [OF s'(3)] word_le_nat_alt K_HEAP_START_def)
    show "\<forall>a \<in> list_feet s' [] [m]. a < heap_page s' j" "running_thread s' < heap_page s' j" "main_thread s' < heap_page s' j"
      using lay less_le_trans [OF _ p] by (auto simp: boot_layout_def waiting_lists_def a foot_def m_def)
  qed
  moreover have "thread_space s' 0 m" by (simp add: thread_space_def a fresh_task_def)
  ultimately have "system_at s' 0 n [] [m]" using heap lists by (simp add: system_at_def a)
  moreover have "cr3 s = 0x100000" using tabs by (simp add: boot_tables_def page_no_def push_bit_eq_mult)
  ultimately show ?thesis using s'(1,3) a by auto
qed

section \<open>\<^verbatim>\<open>main\<close>\<close>

text \<open>What the first frame of a new thread's stack makes it call.\<close>

definition first_call :: "'a process_machine_scheme \<Rightarrow> u32 \<Rightarrow> u32 \<times> u32 \<times> u32" where
  "first_call s t = (let st = thread_stacks s (t + 3664) in (ts_eip st, ts_function st, ts_func_arg st))"

lemma first_call_other:
  "\<forall>b. b \<noteq> p + 3664 \<longrightarrow> thread_stacks s' b = thread_stacks s b \<Longrightarrow> t \<noteq> p \<Longrightarrow> first_call s' t = first_call s t"
  by (simp add: first_call_def)

lemma main_thread_names:
  "length (lit ''consumer_a'') < 16" "length (lit ''consumer_b'') < 16"
  "length (lit ''user_prog_a'') < 16" "length (lit ''user_prog_b'') < 16"
  by (simp_all add: lit_def)

lemma main_threads_made:
  fixes s :: "'a kernel_machine_scheme"
  assumes "system_at s 0 (Suc (Suc n)) [] [m]"
  defines "p \<equiv> heap_page s 0" and "q \<equiv> heap_page s 1"
  shows "\<exists>s'. main_thread_a en s = main_prog_a en s' \<and> system_at s' 2 n [p, q] [m, p, q] \<and> same_setting s s' \<and>
    next_pid s' = next_pid s + 2 \<and>
    tasks s' = (tasks s)
      (p := (fresh_task p (lit ''consumer_a'') 8 (next_pid s + 1) TASK_READY)\<lparr>self_kstack := p + 3664\<rparr>,
       q := (fresh_task q (lit ''consumer_b'') 31 (next_pid s + 2) TASK_READY)\<lparr>self_kstack := q + 3664\<rparr>) \<and>
    first_call s' p = (kernel_thread_entry s, k_thread_a_at en, arg_a_at en) \<and>
    first_call s' q = (kernel_thread_entry s, k_thread_b_at en, arg_b_at en)"
proof -
  note start = thread_start_system [OF _ main_thread_names(1), of _ _ _ _ _ 8 "k_thread_a_at en" "arg_a_at en"]
    and start' = thread_start_system [OF _ main_thread_names(2), of _ _ _ _ _ 31 "k_thread_b_at en" "arg_b_at en"]
  obtain s1 where s1: "thread_start (lit ''consumer_a'') 8 (k_thread_a_at en) (arg_a_at en) s = Ret s1 p"
    "system_at s1 (Suc 0) (Suc n) [p] [m, p]" "same_setting s s1" "next_pid s1 = next_pid s + 1"
    "tasks s1 = (tasks s)(p := (fresh_task p (lit ''consumer_a'') 8 (next_pid s + 1) TASK_READY)\<lparr>self_kstack := p + 3664\<rparr>)"
    "first_call s1 p = (kernel_thread_entry s, k_thread_a_at en, arg_a_at en)"
    using start [OF assms(1)] by (auto simp: p_def first_call_def Let_def)
  have q: "heap_page s1 (Suc 0) = q" "kernel_thread_entry s1 = kernel_thread_entry s"
    using same_settingD [OF s1(3)] s1(3) by (simp_all add: q_def same_setting_def)
  have "p \<noteq> q"
    using heap_page_inject [OF heap_atD(1) [OF system_atD(1) [OF assms(1)]], of 0 1]
      heap_atD(2) [OF system_atD(1) [OF assms(1)]] by (simp add: p_def q_def)
  obtain s2 where s2: "thread_start (lit ''consumer_b'') 31 (k_thread_b_at en) (arg_b_at en) s1 = Ret s2 q"
    "system_at s2 2 n [p, q] [m, p, q]" "same_setting s1 s2" "next_pid s2 = next_pid s1 + 1"
    "tasks s2 = (tasks s1)(q := (fresh_task q (lit ''consumer_b'') 31 (next_pid s1 + 1) TASK_READY)\<lparr>self_kstack := q + 3664\<rparr>)"
    "first_call s2 q = (kernel_thread_entry s, k_thread_b_at en, arg_b_at en)"
    "\<forall>b. b \<noteq> q + 3664 \<longrightarrow> thread_stacks s2 b = thread_stacks s1 b"
    using start' [OF s1(2)] unfolding q by (auto simp: first_call_def Let_def numeral_2_eq_2)
  have "first_call s2 p = first_call s1 p" by (rule first_call_other [OF s2(7) \<open>p \<noteq> q\<close>])
  then show ?thesis
    using s1 s2 same_setting_trans [OF s1(3) s2(3)]
    by (intro exI [of _ s2]) (simp add: main_thread_a_def main_thread_b_def add.commute)
qed

lemma main_processes_made:
  fixes s :: "'a kernel_machine_scheme"
  assumes "system_at s i (50 + n) ts as"
  defines "p \<equiv> heap_page s i" and "q \<equiv> heap_page s (i + 25)"
  shows "\<exists>s'. main_prog_a en s = main_enabled s' \<and> system_at s' (i + 50) n (ts @ [p, q]) (as @ [p, q]) \<and>
    same_setting s s' \<and>
    tasks s' = (tasks s)
      (p := fresh_process p (lit ''user_prog_a'') (next_pid s + 1) (heap_page s (i + 1)) (heap_page s (i + 24)),
       q := fresh_process q (lit ''user_prog_b'') (next_pid s + 2) (heap_page s (i + 26)) (heap_page s (i + 49))) \<and>
    first_call s' p = (kernel_thread_entry s, start_process_entry s, u_prog_a_at en) \<and>
    first_call s' q = (kernel_thread_entry s, start_process_entry s, u_prog_b_at en) \<and>
    (\<forall>t. t \<noteq> p \<longrightarrow> t \<noteq> q \<longrightarrow> first_call s' t = first_call s t)"
proof -
  note ex = process_execute_system [OF _ main_thread_names(3), of _ _ _ _ _ "u_prog_a_at en"]
    and ex' = process_execute_system [OF _ main_thread_names(4), of _ _ _ _ _ "u_prog_b_at en"]
  have sys: "system_at s i (25 + (25 + n)) ts as" using assms(1) by simp
  obtain s1 where s1: "process_execute (u_prog_a_at en) (lit ''user_prog_a'') s = Ret s1 ()"
    "system_at s1 (i + 25) (25 + n) (ts @ [p]) (as @ [p])" "same_setting s s1" "next_pid s1 = next_pid s + 1"
    "tasks s1 = (tasks s)(p :=
       fresh_process p (lit ''user_prog_a'') (next_pid s + 1) (heap_page s (i + 1)) (heap_page s (i + 24)))"
    "first_call s1 p = (kernel_thread_entry s, start_process_entry s, u_prog_a_at en)"
    "\<forall>b. b \<noteq> p + 3664 \<longrightarrow> thread_stacks s1 b = thread_stacks s b"
    using ex [OF sys] unfolding p_def first_call_def Let_def by auto
  have page: "heap_page s1 j = heap_page s j" for j by (rule same_settingD(2) [OF s1(3)])
  have "kernel_thread_entry s1 = kernel_thread_entry s" "start_process_entry s1 = start_process_entry s"
    using s1(3) by (simp_all add: same_setting_def)
  then obtain s2 where s2: "process_execute (u_prog_b_at en) (lit ''user_prog_b'') s1 = Ret s2 ()"
    "system_at s2 (i + 50) n (ts @ [p, q]) (as @ [p, q])" "same_setting s1 s2"
    "tasks s2 = (tasks s1)(q :=
       fresh_process q (lit ''user_prog_b'') (next_pid s1 + 1) (heap_page s (i + 26)) (heap_page s (i + 49)))"
    "first_call s2 q = (kernel_thread_entry s, start_process_entry s, u_prog_b_at en)"
    "\<forall>b. b \<noteq> q + 3664 \<longrightarrow> thread_stacks s2 b = thread_stacks s1 b"
    using ex' [OF s1(2)] unfolding page first_call_def Let_def by (auto simp: q_def add.commute)
  have "p \<noteq> q"
    using heap_page_inject [OF heap_atD(1) [OF system_atD(1) [OF assms(1)]], of i "i + 25"]
      heap_atD(2) [OF system_atD(1) [OF assms(1)]] by (simp add: p_def q_def)
  then have "first_call s2 p = first_call s1 p" by (rule first_call_other [OF s2(6)])
  moreover have "first_call s2 t = first_call s t" if "t \<noteq> p" "t \<noteq> q" for t
    using first_call_other [OF s1(7) that(1)] first_call_other [OF s2(6) that(2)] by simp
  ultimately show ?thesis
    using s1 s2 same_setting_trans [OF s1(3) s2(3)]
    by (intro exI [of _ s2]) (simp add: main_prog_a_def main_prog_b_def add.commute)
qed

lemma cli_sti: "intr_get_status s = INTR_OFF \<Longrightarrow> cli (sti s) = s \<and> snd (intr_enable s) = sti s"
proof -
  assume off: "intr_get_status s = INTR_OFF"
  then have "(eflags s OR EFLAGS_IF) AND NOT EFLAGS_IF = eflags s"
    by (intro bit_word_eqI) (auto simp: bit_simps bit_EFLAGS_IF intr_get_status_OFF)
  then show ?thesis using off by (simp add: cli_def sti_def intr_enable_def)
qed

lemma hello_kept:
  fixes s :: "'a kernel_machine_scheme"
  assumes "boot_state s" "boot_tables s" "boot_layout s"
  shows "boot_state (put_str cs s)" "boot_tables (put_str cs s)" "boot_layout (put_str cs s)"
  using assms
  by (simp_all add: boot_state_def boot_tables_def boot_layout_def waiting_lists_def running_thread_def
      intr_get_status_def kernel_frame)

text \<open>The pages of the four threads that \<^verbatim>\<open>main\<close> starts, the five threads, and what the four call first.\<close>

abbreviation main_pages :: "u32 list" where
  "main_pages \<equiv> map page_no [0xc0100, 0xc0101, 0xc0102, 0xc011b]"

definition main_tasks :: "u32 \<Rightarrow> u16 \<Rightarrow> task_struct list" where
  "main_tasks m n =
     [fresh_task m (lit ''main'') 31 (n + 1) TASK_RUNNING,
      (fresh_task (page_no 0xc0100) (lit ''consumer_a'') 8 (n + 2) TASK_READY)\<lparr>self_kstack := page_no 0xc0100 + 3664\<rparr>,
      (fresh_task (page_no 0xc0101) (lit ''consumer_b'') 31 (n + 3) TASK_READY)\<lparr>self_kstack := page_no 0xc0101 + 3664\<rparr>,
      fresh_process (page_no 0xc0102) (lit ''user_prog_a'') (n + 4) (page_no 0xc0103) (page_no 0xc011a),
      fresh_process (page_no 0xc011b) (lit ''user_prog_b'') (n + 5) (page_no 0xc011c) (page_no 0xc0133)]"

definition main_calls :: "entries \<Rightarrow> 'a process_machine_scheme \<Rightarrow> (u32 \<times> u32 \<times> u32) list" where
  "main_calls en s =
     [(kernel_thread_entry s, k_thread_a_at en, arg_a_at en), (kernel_thread_entry s, k_thread_b_at en, arg_b_at en),
      (kernel_thread_entry s, start_process_entry s, u_prog_a_at en),
      (kernel_thread_entry s, start_process_entry s, u_prog_b_at en)]"

text \<open>The state in which \<^verbatim>\<open>main\<close> turns the interrupts on.\<close>

lemma main_reaches:
  fixes s :: "'a kernel_machine_scheme"
  assumes b: "boot_state s" "boot_tables s" "boot_layout s" and n: "52 \<le> heap_size (load32 (mem s) 0xb00)"
  defines "m \<equiv> running_thread s"
  shows "\<exists>s' k. kernel_main en s = main_enabled s' \<and> system_at s' 52 k main_pages (m # main_pages) \<and>
    eflags s' = eflags s \<and> esp s' = esp s \<and> cr3 s' = 0x100000 \<and> thread_all_list s' = thread_all_list s \<and>
    map (tasks s') (m # main_pages) = main_tasks m (next_pid s) \<and> map (first_call s') main_pages = main_calls en s'"
proof -
  let ?h = "put_str (lit ''hello kernel...'' @ [10]) s" and ?n = "heap_size (load32 (mem s) 0xb00)"
  have keep: "mem ?h = mem s" "running_thread ?h = m" "eflags ?h = eflags s" "esp ?h = esp s"
    "thread_all_list ?h = thread_all_list s" "next_pid ?h = next_pid s"
    by (simp_all add: kernel_frame running_thread_def m_def)
  obtain s0 where s0: "init_all en ?h = Ret s0 ()" "system_at s0 0 ?n [] [m]" "pools_set (load32 (mem s) 0xb00) s0"
    "eflags s0 = eflags s" "esp s0 = esp s" "cr3 s0 = 0x100000" "thread_all_list s0 = thread_all_list s"
    "tasks s0 m = fresh_task m (lit ''main'') 31 (next_pid s + 1) TASK_RUNNING" "next_pid s0 = next_pid s + 1"
    using boot_system [OF hello_kept [OF b], of ?n "lit ''hello kernel...'' @ [10]" en] unfolding keep by auto
  note page = boot_heap_page [OF s0(3)]
  obtain k where "?n = Suc (Suc (50 + k))" using n by (auto simp: le_iff_add)
  with s0(2) have "system_at s0 0 (Suc (Suc (50 + k))) [] [m]" by (simp only:)
  from main_threads_made [OF this, of en] obtain s1 where s1: "main_thread_a en s0 = main_prog_a en s1"
    "system_at s1 2 (50 + k) (take 2 main_pages) (m # take 2 main_pages)" "same_setting s0 s1" "next_pid s1 = next_pid s + 3"
    "map (tasks s1) (m # take 2 main_pages) = tasks s1 m # take 2 (tl (main_tasks m (next_pid s)))"
    "\<forall>t. t \<notin> set (take 2 main_pages) \<longrightarrow> tasks s1 t = tasks s0 t"
    "map (first_call s1) (take 2 main_pages) = take 2 (main_calls en s0)"
    by (auto simp: page s0(9) main_tasks_def main_calls_def page_no_inject algebra_simps)
  have page1: "heap_page s1 j = page_no (0xc0100 + j)" for j using same_settingD(2) [OF s1(3)] page by simp
  from main_processes_made [OF s1(2), of en] obtain s2 where s2: "main_prog_a en s1 = main_enabled s2"
    "system_at s2 52 k main_pages (m # main_pages)" "same_setting s1 s2"
    "map (tasks s2) (drop 2 main_pages) = drop 3 (main_tasks m (next_pid s))"
    "\<forall>t. t \<notin> set (drop 2 main_pages) \<longrightarrow> tasks s2 t = tasks s1 t"
    "map (first_call s2) (drop 2 main_pages) = drop 2 (main_calls en s1)"
    "\<forall>t. t \<notin> set (drop 2 main_pages) \<longrightarrow> first_call s2 t = first_call s1 t"
    by (auto simp: page1 s1(4) main_tasks_def main_calls_def page_no_inject algebra_simps)
  have set: "running_thread s2 = m" "eflags s2 = eflags s" "esp s2 = esp s" "cr3 s2 = 0x100000"
    "thread_all_list s2 = thread_all_list s" "main_calls en s0 = main_calls en s2" "main_calls en s1 = main_calls en s2"
    using same_setting_trans [OF s1(3) s2(3)] s2(3) s0(4-7)
    by (simp_all add: same_setting_def running_thread_def m_def main_calls_def)
  have "m \<notin> set main_pages"
    using system_atD(2) [OF s2(2)] set(1) by (auto simp: thread_lists_def sched_inv_def in_foot_iff)
  then have "tasks s2 m = tasks s0 m" using s1(6) s2(5) by simp
  then have "map (tasks s2) (m # main_pages) = main_tasks m (next_pid s)" "map (first_call s2) main_pages = main_calls en s2"
    using s0(8) s1(5,7) s2(4-7) set(6,7) by (simp_all add: page_no_inject main_tasks_def main_calls_def)
  then show ?thesis
    using s0(1) s1(1) s2(1,2) set by (intro exI [of _ s2] exI [of _ k]) (simp add: kernel_main_def)
qed

text \<open>The ring that the five threads form, with their slices and address spaces.\<close>

lemma main_ring:
  fixes t :: "'a timer_machine_scheme"
  assumes sys: "system_at t i n ts (m # ts)" and tasks: "map (tasks t) (m # ts) = main_tasks m k"
    and set: "cr3 t = 0x100000" "running_thread t = m" "intr_get_status t = INTR_OFF"
  shows "timed_ring t (m # ts)" "map (slice_of t) (m # ts) = [31, 8, 31, 31, 31]"
    "map (\<lambda>u. pgdir (tasks t u)) (m # ts) = [0, 0, 0, page_no 0xc011a, page_no 0xc0133]"
    "abs_ring t (m # ts) = zip (m # ts) [31, 8, 31, 31, 31]"
proof -
  note fresh = main_tasks_def fresh_task_def fresh_process_def default_prio_def
  have f: "map (\<lambda>u. f (tasks t u)) (m # ts) = map f (main_tasks m k)" for f :: "task_struct \<Rightarrow> 'b"
    unfolding tasks [symmetric] by simp
  have "list_all (\<lambda>x. x = 0x20040207) (map (\<lambda>u. stack_magic (tasks t u)) (m # ts))"
    unfolding f by (simp add: fresh)
  then have "list_all (\<lambda>u. stack_magic (tasks t u) = 0x20040207) (m # ts)" by (simp add: list_all_iff)
  moreover have "status (tasks t m) = TASK_RUNNING" using f [of status] by (simp add: fresh)
  ultimately show "timed_ring t (m # ts)" using system_ring [OF sys set(1,3)] set(2) by (simp add: timed_ring_def)
  show "map (slice_of t) (m # ts) = [31, 8, 31, 31, 31]"
    using f [of "\<lambda>x. unat (priority x)"] by (simp add: fresh slice_of_def [abs_def])
  show "map (\<lambda>u. pgdir (tasks t u)) (m # ts) = [0, 0, 0, page_no 0xc011a, page_no 0xc0133]"
    using f [of pgdir] by (simp add: fresh)
  have "map (\<lambda>u. unat (ticks (tasks t u))) (m # ts) = [31, 8, 31, 31, 31]"
    using f [of "\<lambda>x. unat (ticks x)"] by (simp add: fresh)
  moreover have "abs_ring t r = zip r (map (\<lambda>u. unat (ticks (tasks t u))) r)" for r
    by (simp add: abs_ring_def zip_map2 zip_same_conv_map)
  ultimately show "abs_ring t (m # ts) = zip (m # ts) [31, 8, 31, 31, 31]" by (simp only:)
qed


section \<open>A machine with 32 megabytes\<close>

definition demo_boot :: kernel_machine where
  "demo_boot = demo_kernel\<lparr>cr3 := PAGE_DIR_TABLE_POS, phys := setup_page (\<lambda>_. 0)\<rparr>"

lemma demo_boot_tables: "boot_tables demo_boot"
  using setup_page_boot_tables [of "demo_kernel\<lparr>cr3 := PAGE_DIR_TABLE_POS, phys := (\<lambda>_. 0)\<rparr>"]
  by (simp add: demo_boot_def)

lemma demo_boot_start: "boot_state demo_boot" "boot_layout demo_boot"
proof -
  show "boot_state demo_boot"
    using demo_boot_state by (simp add: boot_state_def demo_boot_def intr_get_status_def running_thread_def waiting_lists_def)
  show "boot_layout demo_boot"
    by (simp add: boot_layout_def demo_boot_def running_thread_def K_HEAP_START_def waiting_lists_def sema_waiters_def
        lock_semaphore_def list_tail_def demo_pool_def general_tag_def general_tag_offset_def all_list_tag_def
        all_list_tag_offset_def)
qed


end
