(* ===== verification/Entry.thy ===== *)
theory Entry
  imports Process
begin

text \<open>
  The code below C: the interrupt stubs, \<^verbatim>\<open>intr_exit\<close> and \<^verbatim>\<open>syscall_handler\<close> of
  \<^verbatim>\<open>src/kernel/kernel.S\<close>, \<^verbatim>\<open>switch_to\<close> of \<^verbatim>\<open>src/thread/switch.S\<close>, and the macros of
  \<^verbatim>\<open>src/lib/user/syscall.c\<close>, on the registers and the words of the stack. What the processor does
  at an interrupt, and \<^verbatim>\<open>iretd\<close>, are the steps that the Intel manual describes. The routines of the
  kernel that are called in between are arguments: of them it is only used that they come back with
  the stack as C's calling convention has it. The lemmas show that an interrupt, a system call and a
  switch leave the registers as they were, and that the structures of \<^verbatim>\<open>src/thread/thread.h\<close> are what
  this code finds on the stack.
\<close>

section \<open>Registers and stack\<close>

record cpu =
  r_eax :: u32
  r_ebx :: u32
  r_ecx :: u32
  r_edx :: u32
  r_esi :: u32
  r_edi :: u32
  r_ebp :: u32
  r_esp :: u32
  r_eip :: u32
  r_eflags :: u32
  r_cs :: u16
  r_ss :: u16
  r_ds :: u16
  r_es :: u16
  r_fs :: u16
  r_gs :: u16
  words :: "u32 \<Rightarrow> u32"
  sent :: "(u16 \<times> u8) list"

text \<open>A piece of code is the list of its instructions.\<close>

definition exec :: "(cpu \<Rightarrow> cpu) list \<Rightarrow> cpu \<Rightarrow> cpu" where
  "exec code c = fold (\<lambda>i. i) code c"

definition push :: "(cpu \<Rightarrow> u32) \<Rightarrow> cpu \<Rightarrow> cpu" where
  "push src c = c\<lparr>r_esp := r_esp c - 4, words := (words c)(r_esp c - 4 := src c)\<rparr>"

definition pop :: "(u32 \<Rightarrow> cpu \<Rightarrow> cpu) \<Rightarrow> cpu \<Rightarrow> cpu" where
  "pop dst c = dst (words c (r_esp c)) (c\<lparr>r_esp := r_esp c + 4\<rparr>)"

definition add_esp :: "u32 \<Rightarrow> cpu \<Rightarrow> cpu" where
  "add_esp n c = c\<lparr>r_esp := r_esp c + n\<rparr>"

definition pushad :: "cpu \<Rightarrow> cpu" where
  "pushad c = exec [push r_eax, push r_ecx, push r_edx, push r_ebx, push (\<lambda>_. r_esp c), push r_ebp, push r_esi,
     push r_edi] c"

definition popad :: "cpu \<Rightarrow> cpu" where
  "popad = exec [pop (\<lambda>x. r_edi_update (\<lambda>_. x)), pop (\<lambda>x. r_esi_update (\<lambda>_. x)), pop (\<lambda>x. r_ebp_update (\<lambda>_. x)),
     add_esp 4, pop (\<lambda>x. r_ebx_update (\<lambda>_. x)), pop (\<lambda>x. r_edx_update (\<lambda>_. x)), pop (\<lambda>x. r_ecx_update (\<lambda>_. x)),
     pop (\<lambda>x. r_eax_update (\<lambda>_. x))]"

text \<open>The privilege level of the running code.\<close>

definition cpl :: "cpu \<Rightarrow> u16" where "cpl c = r_cs c AND 3"

text \<open>
  The processor at an interrupt or exception: from user mode it takes the stack of the task state
  segment, \<open>tss\<close>, and saves the old one there; it saves the flags and the place in the program, and the
  error code if the exception has one; the gate clears the flags IF, TF, NT, RF and VM.
\<close>

definition stack_switch :: "u16 \<times> u32 \<Rightarrow> cpu \<Rightarrow> cpu" where
  "stack_switch tss c =
     (if cpl c = 3
      then exec [push (\<lambda>_. ucast (r_ss c)), push (\<lambda>_. r_esp c)] (c\<lparr>r_ss := fst tss, r_esp := snd tss\<rparr>) else c)"

definition interrupt :: "u32 \<Rightarrow> u16 \<times> u32 \<Rightarrow> u32 option \<Rightarrow> cpu \<Rightarrow> cpu" where
  "interrupt entry tss err =
     exec [stack_switch tss, push r_eflags, push (\<lambda>c. ucast (r_cs c)), push r_eip,
       case err of None \<Rightarrow> (\<lambda>c. c) | Some code \<Rightarrow> push (\<lambda>_. code),
       \<lambda>c. c\<lparr>r_cs := ucast SELECTOR_K_CODE, r_eip := entry, r_eflags := r_eflags c AND NOT 0x34300\<rparr>]"

text \<open>\<^verbatim>\<open>iretd\<close> in the kernel: on the way to user mode the stack is loaded as well.\<close>

definition iretd :: "cpu \<Rightarrow> cpu" where
  "iretd = exec [pop (\<lambda>x. r_eip_update (\<lambda>_. x)), pop (\<lambda>x. r_cs_update (\<lambda>_. ucast x)), pop (\<lambda>x. r_eflags_update (\<lambda>_. x)),
     \<lambda>c. if cpl c = 3 then c\<lparr>r_esp := words c (r_esp c), r_ss := ucast (words c (r_esp c + 4))\<rparr> else c]"

section \<open>kernel.S\<close>

text \<open>What the second argument of the macro \<^verbatim>\<open>VECTOR\<close> is for each of the 0x30 stubs.\<close>

datatype stub_kind = ERROR_CODE | ZERO

definition vector_kind :: "nat \<Rightarrow> stub_kind" where
  "vector_kind n = (if n = 0x1e then ERROR_CODE else ZERO)"

definition save_context :: "cpu \<Rightarrow> cpu" where
  "save_context = exec [push (\<lambda>c. ucast (r_ds c)), push (\<lambda>c. ucast (r_es c)), push (\<lambda>c. ucast (r_fs c)),
     push (\<lambda>c. ucast (r_gs c)), pushad]"

definition end_of_interrupt :: "cpu \<Rightarrow> cpu" where
  "end_of_interrupt c =
     c\<lparr>r_eax := (r_eax c AND NOT 0xff) OR 0x20, sent := sent c @ [(0xa0, 0x20), (0x20, 0x20)]\<rparr>"

text \<open>The stub of a vector up to the call through \<^verbatim>\<open>idt_table\<close>, the way back, and the whole of it.\<close>

definition intr_entry :: "nat \<Rightarrow> cpu \<Rightarrow> cpu" where
  "intr_entry n = exec [case vector_kind n of ERROR_CODE \<Rightarrow> (\<lambda>c. c) | ZERO \<Rightarrow> push (\<lambda>_. 0),
     save_context, end_of_interrupt, push (\<lambda>_. of_nat n)]"

definition intr_exit :: "cpu \<Rightarrow> cpu" where
  "intr_exit = exec [add_esp 4, popad, pop (\<lambda>x. r_gs_update (\<lambda>_. ucast x)), pop (\<lambda>x. r_fs_update (\<lambda>_. ucast x)),
     pop (\<lambda>x. r_es_update (\<lambda>_. ucast x)), pop (\<lambda>x. r_ds_update (\<lambda>_. ucast x)), add_esp 4, iretd]"

definition intr_stub :: "(u32 \<Rightarrow> cpu \<Rightarrow> cpu) \<Rightarrow> u32 list \<Rightarrow> nat \<Rightarrow> cpu \<Rightarrow> cpu" where
  "intr_stub run handlers n = exec [intr_entry n, run (handlers ! n), intr_exit]"

text \<open>\<^verbatim>\<open>syscall_handler\<close> up to the call through \<^verbatim>\<open>syscall_table\<close>, what follows it, and the whole.\<close>

definition syscall_entry :: "cpu \<Rightarrow> cpu" where
  "syscall_entry = exec [push (\<lambda>_. 0), save_context, push (\<lambda>_. 0x80), push r_edx, push r_ecx, push r_ebx]"

definition syscall_return :: "cpu \<Rightarrow> cpu" where
  "syscall_return = exec [add_esp 12, \<lambda>c. c\<lparr>words := (words c)(r_esp c + 8 * 4 := r_eax c)\<rparr>, intr_exit]"

definition syscall_stub :: "(u32 \<Rightarrow> cpu \<Rightarrow> cpu) \<Rightarrow> u32 list \<Rightarrow> cpu \<Rightarrow> kerror + cpu" where
  "syscall_stub run table c =
     (if unat (r_eax c) < length table
      then Inr (exec [syscall_entry, run (table ! unat (r_eax c)), syscall_return] c)
      else Inl (Fault (r_eax c)))"

text \<open>The macros of \<^verbatim>\<open>lib/user/syscall.c\<close>; \<open>int80\<close> is the instruction \<^verbatim>\<open>int $0x80\<close>.\<close>

definition syscall0 :: "(cpu \<Rightarrow> kerror + cpu) \<Rightarrow> u32 \<Rightarrow> cpu \<Rightarrow> kerror + (u32 \<times> cpu)" where
  "syscall0 int80 number c = sbind (int80 (c\<lparr>r_eax := number\<rparr>)) (\<lambda>c. Inr (r_eax c, c))"

definition syscall3 ::
  "(cpu \<Rightarrow> kerror + cpu) \<Rightarrow> u32 \<Rightarrow> u32 \<Rightarrow> u32 \<Rightarrow> u32 \<Rightarrow> cpu \<Rightarrow> kerror + (u32 \<times> cpu)" where
  "syscall3 int80 number arg1 arg2 arg3 c =
     sbind (int80 (c\<lparr>r_eax := number, r_ebx := arg1, r_ecx := arg2, r_edx := arg3\<rparr>)) (\<lambda>c. Inr (r_eax c, c))"

section \<open>switch.S\<close>

text \<open>The first word of a thread's page is \<^verbatim>\<open>self_kstack\<close>.\<close>

definition switch_save :: "(cpu \<Rightarrow> cpu) list" where
  "switch_save = [push r_esi, push r_edi, push r_ebx, push r_ebp,
     \<lambda>c. c\<lparr>r_eax := words c (r_esp c + 20)\<rparr>, \<lambda>c. c\<lparr>words := (words c)(r_eax c := r_esp c)\<rparr>]"

definition switch_load :: "(cpu \<Rightarrow> cpu) list" where
  "switch_load = [\<lambda>c. c\<lparr>r_eax := words c (r_esp c + 24)\<rparr>, \<lambda>c. c\<lparr>r_esp := words c (r_eax c)\<rparr>,
     pop (\<lambda>x. r_ebp_update (\<lambda>_. x)), pop (\<lambda>x. r_ebx_update (\<lambda>_. x)), pop (\<lambda>x. r_edi_update (\<lambda>_. x)),
     pop (\<lambda>x. r_esi_update (\<lambda>_. x)), pop (\<lambda>x. r_eip_update (\<lambda>_. x))]"

definition switch_regs :: "cpu \<Rightarrow> cpu" where
  "switch_regs = exec (switch_save @ switch_load)"

section \<open>Coming back\<close>

text \<open>
  What is used of a C routine with \<open>n\<close> words of arguments, called in \<open>c\<close> and back in \<open>d\<close>: the stack pointer
  and the code and stack segments are as before the call, and of the caller's words only the arguments
  may have changed.
\<close>

definition returned :: "nat \<Rightarrow> cpu \<Rightarrow> cpu \<Rightarrow> bool" where
  "returned n c d \<longleftrightarrow> r_esp d = r_esp c \<and> r_cs d = r_cs c \<and> r_ss d = r_ss c \<and>
     list_all (\<lambda>i. words d (r_esp c + 4 * of_nat i) = words c (r_esp c + 4 * of_nat i)) [n..<24]"

lemma exec_simps [simp]: "exec [] c = c" "exec (i # is) c = exec is (i c)"
  by (simp_all add: exec_def)

lemmas stack_code = push_def pop_def add_esp_def pushad_def popad_def

text \<open>Words one after the other in memory, and the structure \<^verbatim>\<open>intr_stack\<close> as such words.\<close>

fun words_at :: "(u32 \<Rightarrow> u32) \<Rightarrow> u32 \<Rightarrow> u32 list \<Rightarrow> bool" where
  "words_at w a [] \<longleftrightarrow> True"
| "words_at w a (x # xs) \<longleftrightarrow> w a = x \<and> words_at w (a + 4) xs"

definition frame_words :: "intr_stack \<Rightarrow> u32 list" where
  "frame_words st = [is_vec_no st, is_edi st, is_esi st, is_ebp st, is_esp_dummy st, is_ebx st, is_edx st, is_ecx st,
     is_eax st, is_gs st, is_fs st, is_es st, is_ds st, is_err_code st, is_eip st, is_cs st, is_eflags st, is_esp st,
     is_ss st]"

text \<open>What \<^verbatim>\<open>intr_exit\<close> loads from the structure; without a change of privilege the last two words are not there.\<close>

lemma intr_exit_loads:
  assumes "words_at (words c) (r_esp c) (take 17 (frame_words st))"
    "ucast (is_cs st) AND 3 = (3 :: u16) \<Longrightarrow> words_at (words c) (r_esp c) (frame_words st)"
  defines "d \<equiv> c\<lparr>r_eax := is_eax st, r_ebx := is_ebx st, r_ecx := is_ecx st, r_edx := is_edx st, r_esi := is_esi st,
    r_edi := is_edi st, r_ebp := is_ebp st, r_eip := is_eip st, r_eflags := is_eflags st, r_cs := ucast (is_cs st),
    r_ds := ucast (is_ds st), r_es := ucast (is_es st), r_fs := ucast (is_fs st), r_gs := ucast (is_gs st)\<rparr>"
  shows "intr_exit c = (if ucast (is_cs st) AND 3 = (3 :: u16) then d\<lparr>r_esp := is_esp st, r_ss := ucast (is_ss st)\<rparr>
    else d\<lparr>r_esp := r_esp c + 68\<rparr>)"
  using assms(1,2)
  by (auto simp: d_def intr_exit_def iretd_def cpl_def stack_code frame_words_def algebra_simps)

text \<open>The structure that the processor and the stub of vector \<open>n\<close> build.\<close>

definition saved_frame :: "nat \<Rightarrow> u32 \<Rightarrow> u32 \<Rightarrow> cpu \<Rightarrow> intr_stack" where
  "saved_frame n e err c = \<lparr>is_vec_no = of_nat n, is_edi = r_edi c, is_esi = r_esi c, is_ebp = r_ebp c, is_esp_dummy = e,
     is_ebx = r_ebx c, is_edx = r_edx c, is_ecx = r_ecx c, is_eax = r_eax c, is_gs = ucast (r_gs c), is_fs = ucast (r_fs c),
     is_es = ucast (r_es c), is_ds = ucast (r_ds c), is_err_code = err, is_eip = r_eip c, is_cs = ucast (r_cs c),
     is_eflags = r_eflags c, is_esp = r_esp c, is_ss = ucast (r_ss c)\<rparr>"

definition kernel_esp :: "u16 \<times> u32 \<Rightarrow> cpu \<Rightarrow> u32" where
  "kernel_esp tss c = (if cpl c = 3 then snd tss - 8 else r_esp c)"

lemma intr_entry_frame:
  fixes c :: cpu and tss :: "u16 \<times> u32" and entry :: u32
  assumes "vector_kind n = ZERO"
  defines "d \<equiv> intr_entry n (interrupt entry tss None c)"
  shows "r_esp d = kernel_esp tss c - 68" "r_cs d = ucast SELECTOR_K_CODE" "r_ss d = (if cpl c = 3 then fst tss else r_ss c)"
    "r_eflags d = r_eflags c AND NOT 0x34300" "sent d = sent c @ [(0xa0, 0x20), (0x20, 0x20)]"
    "words_at (words d) (r_esp d) (take (if cpl c = 3 then 19 else 17) (frame_words (saved_frame n (kernel_esp tss c - 32) 0 c)))"
  using assms(1)
  by (simp_all add: d_def intr_entry_def interrupt_def stack_switch_def save_context_def end_of_interrupt_def stack_code
      kernel_esp_def saved_frame_def frame_words_def)

lemma words_at_nth: "words_at w a xs \<longleftrightarrow> (\<forall>i < length xs. w (a + 4 * of_nat i) = xs ! i)"
proof (induction xs arbitrary: a)
  case (Cons x xs)
  show ?case by (simp only: words_at.simps Cons list.size(4) All_less_Suc2 add_Suc_right add_0_right) (simp add: algebra_simps)
qed simp

lemma returned_words:
  assumes "returned n c d" "words_at (words c) (r_esp c) xs" "length xs \<le> 24"
  shows "words_at (words d) (r_esp d + 4 * of_nat n) (drop n xs)"
proof -
  have d: "r_esp d = r_esp c" "\<And>i. n \<le> i \<Longrightarrow> i < 24 \<Longrightarrow> words d (r_esp c + 4 * of_nat i) = words c (r_esp c + 4 * of_nat i)"
    using assms(1) by (auto simp: returned_def list_all_iff)
  have "words d (r_esp d + 4 * of_nat n + 4 * of_nat i) = drop n xs ! i" if i: "i < length (drop n xs)" for i
  proof -
    have "words c (r_esp c + 4 * of_nat (n + i)) = xs ! (n + i)"
      using i assms(2) unfolding words_at_nth by (auto simp del: of_nat_add)
    moreover have "words d (r_esp c + 4 * of_nat (n + i)) = words c (r_esp c + 4 * of_nat (n + i))"
      using i assms(3) by (intro d(2)) simp_all
    ultimately show ?thesis using i by (simp add: d(1) algebra_simps)
  qed
  then show ?thesis by (simp add: words_at_nth)
qed

lemma segment_slot [simp]: "(ucast (ucast (x :: u16) :: u32) :: u16) = x"
  by (rule bit_word_eqI) (auto simp: bit_simps)

text \<open>A routine called on top of the saved frame comes back, and \<^verbatim>\<open>intr_exit\<close> restores the registers.\<close>

lemma frame_restored:
  assumes fr: "words_at (words c1) (r_esp c1) (take (if cpl c = 3 then 19 else 17) (frame_words (saved_frame n e err c)))"
    and ret: "returned 1 c1 d" and esp: "cpl c \<noteq> 3 \<Longrightarrow> r_esp c1 + 68 = r_esp c" "cpl c \<noteq> 3 \<Longrightarrow> r_ss c1 = r_ss c"
  shows "\<exists>w p. intr_exit d = c\<lparr>words := w, sent := p\<rparr>"
proof -
  let ?k = "if cpl c = 3 then 19 else 17" and ?st = "(saved_frame n e err c)\<lparr>is_vec_no := words d (r_esp d)\<rparr>"
  have "length (take ?k (frame_words (saved_frame n e err c))) \<le> 24" by (simp add: frame_words_def)
  from returned_words [OF ret fr this]
  have w: "words_at (words d) (r_esp d) (take ?k (frame_words ?st))"
    by (cases "cpl c = 3") (simp_all add: frame_words_def)
  have cs: "ucast (is_cs ?st) AND 3 = cpl c" by (simp add: saved_frame_def cpl_def)
  have "words_at (words d) (r_esp d) (take 17 (frame_words ?st))"
    "ucast (is_cs ?st) AND 3 = (3 :: u16) \<Longrightarrow> words_at (words d) (r_esp d) (frame_words ?st)"
    using w unfolding cs by (simp_all add: frame_words_def split: if_splits)
  note exit = intr_exit_loads [OF this, unfolded cs]
  have "intr_exit d = c\<lparr>words := words d, sent := sent d\<rparr>"
    using ret esp by (intro cpu.equality) (simp_all add: exit returned_def saved_frame_def)
  then show ?thesis by blast
qed

text \<open>
  C14: an interrupt, in user mode or in the kernel, on a vector for which the processor pushes no error code:
  the stub calls the handler of the vector with interrupts off, after the end of the interrupt has been
  sent to both controllers, with the vector on the stack as its argument; and when the handler comes
  back, \<^verbatim>\<open>intr_exit\<close> goes on with the interrupted program with every register as it was.
\<close>

theorem interrupt_returns:
  fixes c :: cpu and n :: nat and entry :: u32 and tss :: "u16 \<times> u32"
  assumes "n < 0x30" "n \<noteq> 0x1e"
  defines "c1 \<equiv> intr_entry n (interrupt entry tss None c)"
  assumes "returned 1 c1 (run (handlers ! n) c1)"
  shows "words c1 (r_esp c1) = of_nat n \<and> \<not> bit (r_eflags c1) 9 \<and> sent c1 = sent c @ [(0xa0, 0x20), (0x20, 0x20)] \<and>
    (\<exists>w p. intr_stub run handlers n (interrupt entry tss None c) = c\<lparr>words := w, sent := p\<rparr>)"
proof -
  have "vector_kind n = ZERO" using assms(2) by (simp add: vector_kind_def)
  note fr = intr_entry_frame [OF this, of entry tss c, folded c1_def]
  have "\<exists>w p. intr_exit (run (handlers ! n) c1) = c\<lparr>words := w, sent := p\<rparr>"
    by (rule frame_restored [OF fr(6) assms(4)]) (use fr(1,3) in \<open>simp_all add: kernel_esp_def\<close>)
  moreover have "words c1 (r_esp c1) = of_nat n"
    using fr(6) by (simp add: frame_words_def saved_frame_def split: if_splits)
  moreover have "\<not> bit (r_eflags c1) 9" unfolding fr(4) by (simp add: bit_simps)
  ultimately show ?thesis using fr(5) by (simp add: intr_stub_def c1_def)
qed

section \<open>System calls\<close>

lemma syscall_entry_frame:
  fixes c :: cpu and tss :: "u16 \<times> u32" and entry :: u32
  defines "d \<equiv> syscall_entry (interrupt entry tss None c)"
  shows "r_esp d = kernel_esp tss c - 80" "r_cs d = ucast SELECTOR_K_CODE" "r_ss d = (if cpl c = 3 then fst tss else r_ss c)"
    "r_eflags d = r_eflags c AND NOT 0x34300" "r_eax d = r_eax c"
    "words_at (words d) (r_esp d) ([r_ebx c, r_ecx c, r_edx c] @ take (if cpl c = 3 then 19 else 17)
       (frame_words (saved_frame 0x80 (kernel_esp tss c - 32) 0 c)))"
  by (simp_all add: d_def syscall_entry_def interrupt_def stack_switch_def save_context_def stack_code
      kernel_esp_def saved_frame_def frame_words_def)

text \<open>
  The function of a system call comes back with its result in \<open>eax\<close>, which is put in the place from which
  \<^verbatim>\<open>popad\<close> takes the caller's \<open>eax\<close>.
\<close>

lemma syscall_restored:
  assumes fr: "words_at (words c1) (r_esp c1) ([a1, a2, a3] @ take (if cpl c = 3 then 19 else 17) (frame_words (saved_frame n e err c)))"
    and ret: "returned 3 c1 d" and esp: "cpl c \<noteq> 3 \<Longrightarrow> r_esp c1 + 80 = r_esp c" "cpl c \<noteq> 3 \<Longrightarrow> r_ss c1 = r_ss c"
  shows "\<exists>w p. syscall_return d = c\<lparr>r_eax := r_eax d, words := w, sent := p\<rparr>"
proof -
  let ?k = "if cpl c = 3 then 19 else 17" and ?c = "c\<lparr>r_eax := r_eax d\<rparr>"
  let ?d = "d\<lparr>r_esp := r_esp d + 12, words := (words d)(r_esp d + 44 := r_eax d)\<rparr>"
  have "length ([a1, a2, a3] @ take ?k (frame_words (saved_frame n e err c))) \<le> 24" by (simp add: frame_words_def)
  from returned_words [OF ret fr this]
  have "words_at (words d) (r_esp d + 12) (take ?k (frame_words (saved_frame n e err c)))" by simp
  then have fr': "words_at (words ?d) (r_esp ?d) (take (if cpl ?c = 3 then 19 else 17) (frame_words (saved_frame n e err ?c)))"
    by (cases "cpl c = 3") (simp_all add: frame_words_def saved_frame_def cpl_def)
  have "returned 1 ?d ?d" by (simp add: returned_def list_all_iff)
  have "r_esp ?d + 68 = r_esp ?c" "r_ss ?d = r_ss ?c" if "cpl ?c \<noteq> 3"
    using ret esp that by (simp_all add: returned_def cpl_def add.assoc)
  then have "\<exists>w p. intr_exit ?d = ?c\<lparr>words := w, sent := p\<rparr>" by (rule frame_restored [OF fr' \<open>returned 1 ?d ?d\<close>])
  then show ?thesis by (simp add: syscall_return_def add_esp_def add.commute)
qed

text \<open>
  C15: the macros of the user's library. A system call whose number is in the table runs the function of
  that number with interrupts off and with the three arguments where a C function expects them; when it
  comes back the macro returns its result, and every other register of the caller is as it was.
\<close>

theorem system_call_returns:
  fixes c :: cpu and entry number a b x :: u32 and tss :: "u16 \<times> u32" and run :: "u32 \<Rightarrow> cpu \<Rightarrow> cpu"
    and table :: "u32 list"
  defines "int80 \<equiv> \<lambda>c. syscall_stub run table (interrupt entry tss None c)"
    and "c0 \<equiv> c\<lparr>r_eax := number, r_ebx := a, r_ecx := b, r_edx := x\<rparr>"
  defines "c1 \<equiv> syscall_entry (interrupt entry tss None c0)"
  assumes "unat number < length table" "returned 3 c1 (run (table ! unat number) c1)"
  shows "words_at (words c1) (r_esp c1) [a, b, x] \<and> \<not> bit (r_eflags c1) 9 \<and>
    (\<exists>w p. syscall3 int80 number a b x c = Inr (r_eax (run (table ! unat number) c1),
       c0\<lparr>r_eax := r_eax (run (table ! unat number) c1), words := w, sent := p\<rparr>))"
proof -
  have c0: "r_eax c0 = number" "r_ebx c0 = a" "r_ecx c0 = b" "r_edx c0 = x" by (simp_all add: c0_def)
  note fr = syscall_entry_frame [of entry tss c0, folded c1_def, unfolded c0]
  have "\<exists>w p. syscall_return (run (table ! unat number) c1) = c0\<lparr>r_eax := r_eax (run (table ! unat number) c1), words := w, sent := p\<rparr>"
    by (rule syscall_restored [OF fr(6) assms(5)]) (use fr(1,3) in \<open>simp_all add: kernel_esp_def\<close>)
  moreover have "r_eax (interrupt entry tss None c0) = number"
    by (simp add: interrupt_def stack_switch_def stack_code c0)
  ultimately obtain w p where "int80 c0 = Inr (c0\<lparr>r_eax := r_eax (run (table ! unat number) c1), words := w, sent := p\<rparr>)"
    using assms(4) by (auto simp: int80_def syscall_stub_def c1_def)
  then have "syscall3 int80 number a b x c = Inr (r_eax (run (table ! unat number) c1),
      c0\<lparr>r_eax := r_eax (run (table ! unat number) c1), words := w, sent := p\<rparr>)"
    by (simp add: syscall3_def c0_def [symmetric])
  moreover have "\<not> bit (r_eflags c1) 9" unfolding fr(4) by (simp add: bit_simps)
  moreover have "words_at (words c1) (r_esp c1) [a, b, x]" using fr(6) by simp
  ultimately show ?thesis by blast
qed

section \<open>Switching threads\<close>

definition switch_saved :: "cpu \<Rightarrow> u32 \<Rightarrow> u32" where
  "switch_saved c = (words c)(r_esp c - 4 := r_esi c, r_esp c - 8 := r_edi c, r_esp c - 12 := r_ebx c,
     r_esp c - 16 := r_ebp c, words c (r_esp c + 4) := r_esp c - 16)"

lemma switch_regs_eq:
  "switch_regs c = (let w = switch_saved c; new = w (r_esp c + 8); sp = w new in
     c\<lparr>r_eax := new, r_ebp := w sp, r_ebx := w (sp + 4), r_edi := w (sp + 8), r_esi := w (sp + 12), r_eip := w (sp + 16),
       r_esp := sp + 20, words := w\<rparr>)"
proof -
  let ?d = "c\<lparr>r_eax := words c (r_esp c + 4), r_esp := r_esp c - 16, words := switch_saved c\<rparr>"
  have "exec switch_save c = ?d" by (simp add: switch_save_def stack_code switch_saved_def add.commute [of "r_esp c" 4])
  then have "switch_regs c = exec switch_load ?d" by (simp add: switch_regs_def exec_def)
  then show ?thesis by (simp add: switch_load_def stack_code Let_def algebra_simps)
qed

text \<open>The words that a call of \<^verbatim>\<open>switch_to(cur, next)\<close> writes.\<close>

definition switch_writes :: "cpu \<Rightarrow> u32 \<Rightarrow> u32 set" where
  "switch_writes c cur = {r_esp c - 4, r_esp c - 8, r_esp c - 12, r_esp c - 16, cur}"

lemma switch_saved_other:
  "words c (r_esp c + 4) = cur \<Longrightarrow> a \<notin> switch_writes c cur \<Longrightarrow> switch_saved c a = words c a"
  by (simp add: switch_saved_def switch_writes_def)

lemma switch_regs_loads:
  assumes args: "words_at (words c) (r_esp c) [ret, cur, new]" and cur: "cur \<noteq> r_esp c + 8"
    and new: "words c new = sp" "words_at (words c) sp [bp, bx, di, si, ip]"
    and apart: "{new, sp, sp + 4, sp + 8, sp + 12, sp + 16} \<inter> switch_writes c cur = {}"
  shows "switch_regs c = c\<lparr>r_eax := new, r_ebp := bp, r_ebx := bx, r_edi := di, r_esi := si, r_eip := ip,
      r_esp := sp + 20, words := switch_saved c\<rparr>"
proof -
  have a: "words c (r_esp c + 4) = cur" "words c (r_esp c + 8) = new" using args by (simp_all add: add.commute)
  have "r_esp c + 8 \<notin> switch_writes c cur" using cur by (simp add: switch_writes_def)
  note other = switch_saved_other [OF a(1)] this
  have w: "switch_saved c x = words c x" if "x \<in> {r_esp c + 8, new, sp, sp + 4, sp + 8, sp + 12, sp + 16}" for x
    using that other apart by blast
  show ?thesis using a(2) new by (simp add: switch_regs_eq w Let_def add.commute)
qed

text \<open>
  C18: a thread that calls \<^verbatim>\<open>switch_to\<close> goes on after the call when another thread switches back to it, with the
  registers that a C function keeps and the stack pointer as they were, when nobody has written the
  words it left on its stack and in \<^verbatim>\<open>self_kstack\<close>.
\<close>

theorem switch_comes_back:
  fixes c d :: cpu
  assumes c: "words_at (words c) (r_esp c) [ret, me, other]"
    and d: "words_at (words d) (r_esp d) [ret', cur, me]" "cur \<noteq> r_esp d + 8"
  defines "mine \<equiv> {me, r_esp c - 16, r_esp c - 12, r_esp c - 8, r_esp c - 4, r_esp c}"
  assumes own: "me \<notin> {r_esp c - 16, r_esp c - 12, r_esp c - 8, r_esp c - 4, r_esp c}"
    and kept: "\<forall>a \<in> mine. words d a = words (switch_regs c) a" and apart: "mine \<inter> switch_writes d cur = {}"
  shows "\<exists>w. switch_regs d = d\<lparr>r_eax := me, r_ebp := r_ebp c, r_ebx := r_ebx c, r_edi := r_edi c, r_esi := r_esi c,
    r_eip := ret, r_esp := r_esp c + 4, words := w\<rparr>"
proof -
  have "words c (r_esp c) = ret" "words c (r_esp c + 4) = me" using c by (simp_all add: add.commute)
  then have "words (switch_regs c) me = r_esp c - 16" "words_at (words (switch_regs c)) (r_esp c - 16)
      [r_ebp c, r_ebx c, r_edi c, r_esi c, ret]"
    using own by (auto simp: switch_regs_eq Let_def switch_saved_def)
  then have "words d me = r_esp c - 16" "words_at (words d) (r_esp c - 16) [r_ebp c, r_ebx c, r_edi c, r_esi c, ret]"
    using kept by (simp_all add: mine_def)
  moreover have "{me, r_esp c - 16, r_esp c - 16 + 4, r_esp c - 16 + 8, r_esp c - 16 + 12, r_esp c - 16 + 16} = mine"
    by (simp add: mine_def)
  ultimately have "switch_regs d = d\<lparr>r_eax := me, r_ebp := r_ebp c, r_ebx := r_ebx c, r_edi := r_edi c,
      r_esi := r_esi c, r_eip := ret, r_esp := r_esp c - 16 + 20, words := switch_saved d\<rparr>"
    using apart by (intro switch_regs_loads [OF d]) simp_all
  then show ?thesis by (intro exI [of _ "switch_saved d"]) (simp add: add.commute)
qed

definition stack_words :: "thread_stack \<Rightarrow> u32 list" where
  "stack_words st = [ts_ebp st, ts_ebx st, ts_edi st, ts_esi st, ts_eip st, ts_unused_retaddr st, ts_function st,
     ts_func_arg st]"

text \<open>
  C19: the first switch to a thread that \<^verbatim>\<open>thread_create\<close> has made: the processor is at \<^verbatim>\<open>kernel_thread\<close> with the
  function and its argument where a C function expects its two arguments.
\<close>

theorem first_switch_calls_function:
  fixes c :: cpu and f a :: u32
  assumes made: "self_kstack (tasks s p) = p + PG_SIZE"
  defines "st \<equiv> thread_stacks (thread_create p f a s) (p + 3664)"
  assumes mem: "words c p = p + 3664" "words_at (words c) (p + 3664) (stack_words st)"
    and args: "words_at (words c) (r_esp c) [ret, cur, p]" "cur \<noteq> r_esp c + 8"
    and apart: "insert p ((\<lambda>i. p + 3664 + 4 * i) ` {0, 1, 2, 3, 4, 6, 7}) \<inter> switch_writes c cur = {}"
  shows "self_kstack (tasks (thread_create p f a s) p) = p + 3664 \<and>
    (\<exists>w. switch_regs c = c\<lparr>r_eax := p, r_ebp := 0, r_ebx := 0, r_edi := 0, r_esi := 0, r_eip := kernel_thread_entry s,
       r_esp := p + 3684, words := w\<rparr> \<and> words_at w (p + 3684 + 4) [f, a])"
proof -
  note made' = thread_create_fields [OF refl made, of f a]
  have st: "ts_ebp st = 0" "ts_ebx st = 0" "ts_edi st = 0" "ts_esi st = 0" "ts_eip st = kernel_thread_entry s"
    "ts_function st = f" "ts_func_arg st = a"
    using made by (simp_all add: st_def thread_create_def upd_task_def Let_def sizeof_intr_stack_def
        sizeof_thread_stack_def PG_SIZE_def add.commute)
  have w: "words_at (words c) (p + 3664) [0, 0, 0, 0, kernel_thread_entry s]" using mem(2) st by (simp add: stack_words_def)
  have fa: "words c (p + 3688) = f" "words c (p + 3692) = a" using mem(2) st by (simp_all add: stack_words_def add.commute)
  have ap: "{p, p + 3664, p + 3664 + 4, p + 3664 + 8, p + 3664 + 12, p + 3664 + 16} \<inter> switch_writes c cur = {}"
    and out: "p + 3688 \<notin> switch_writes c cur" "p + 3692 \<notin> switch_writes c cur"
    using apart by (simp_all add: add.commute)
  have "words c (r_esp c + 4) = cur" using args(1) by simp
  note keep = switch_saved_other [OF this out(1)] switch_saved_other [OF this out(2)]
  have "switch_regs c = c\<lparr>r_eax := p, r_ebp := 0, r_ebx := 0, r_edi := 0, r_esi := 0, r_eip := kernel_thread_entry s,
      r_esp := p + 3664 + 20, words := switch_saved c\<rparr>"
    by (rule switch_regs_loads [OF args mem(1) w ap])
  then show ?thesis using keep fa made'(1) by (auto simp: add.commute)
qed
section \<open>Entering a process\<close>

text \<open>
  A process can be given the page \<open>v\<close>: the pool's lock is free, the bitmap of its addresses has a bit for the
  page, both pools have a free frame, the page table is still to be made, and the three bitmaps lie apart.
\<close>

definition user_page_ready :: "'a memory_machine_scheme \<Rightarrow> u32 \<Rightarrow> bool" where
  "user_page_ready s v \<longleftrightarrow>
     (let t = tasks s (running_thread s); L = pool_lock (user_pool s); b = vaddr_bitmap (userprog_vaddr t);
          i = (v - vaddr_start (userprog_vaddr t)) div PG_SIZE in
      lock_free L s \<and> running_thread s \<noteq> 0 \<and> dlist (lnk s) (lock_waiters L) [] \<and> pgdir t \<noteq> 0 \<and>
      0 < sint i \<and> unat i < bm_cap b \<and> v AND 0xfff = 0 \<and>
      frames_ok (user_pool s) \<and> frames_ok (kernel_pool s) \<and> tables_ok s \<and> \<not> present (pde_of s v) \<and>
      free_frames (user_pool s) (mem s) \<noteq> {} \<and> free_frames (kernel_pool s) (mem s) \<noteq> {} \<and>
      (\<forall>j \<in> free_frames (kernel_pool s) (mem s). fresh s (frame_of (kernel_pool s) j)) \<and>
      bm_bytes b \<inter> (bm_bytes (pool_bitmap (user_pool s)) \<union> bm_bytes (pool_bitmap (kernel_pool s))) = {} \<and>
      bm_bytes (pool_bitmap (user_pool s)) \<inter> bm_bytes (pool_bitmap (kernel_pool s)) = {})"

lemma palloc_least:
  fixes t :: "'a memory_machine_scheme"
  assumes "frames_ok p" "free_frames p m = F" "F \<noteq> {}"
  shows "(LEAST j. j \<in> F) \<in> F" "palloc p (t\<lparr>mem := m\<rparr>) =
    Inr (frame_of p (LEAST j. j \<in> F), t\<lparr>mem := bm_claim (pool_bitmap p) (LEAST j. j \<in> F) m\<rparr>)"
proof -
  show "(LEAST j. j \<in> F) \<in> F" using assms(3) by (metis LeastI ex_in_conv)
  have "pool_ok p" "free_frames p (mem (t\<lparr>mem := m\<rparr>)) \<noteq> {}" using assms by (simp_all add: frames_ok_def)
  then obtain j where j: "j \<in> F" "\<forall>i \<in> F. j \<le> i" "palloc p (t\<lparr>mem := m\<rparr>) = Inr (frame_of p j, t\<lparr>mem := bm_claim (pool_bitmap p) j m\<rparr>)"
    by (rule palloc_first) (simp add: assms(2))
  then have "(LEAST j. j \<in> F) = j" by (intro Least_equality) auto
  with j(3) show "palloc p (t\<lparr>mem := m\<rparr>) =
    Inr (frame_of p (LEAST j. j \<in> F), t\<lparr>mem := bm_claim (pool_bitmap p) (LEAST j. j \<in> F) m\<rparr>)" by simp
qed

text \<open>The frames that the page and its table get, whatever else the state holds.\<close>

lemma user_page_frames:
  fixes s :: "'a memory_machine_scheme"
  assumes ready: "user_page_ready s v"
  defines "b \<equiv> vaddr_bitmap (userprog_vaddr (tasks s (running_thread s)))"
    and "i \<equiv> unat ((v - vaddr_start (userprog_vaddr (tasks s (running_thread s)))) div PG_SIZE)"
  shows "\<exists>j \<in> free_frames (user_pool s) (mem s). \<exists>k \<in> free_frames (kernel_pool s) (mem s). \<exists>m2 m3.
    \<forall>t :: 'a memory_machine_scheme. palloc (user_pool s) (t\<lparr>mem := bm_claim b i (mem s)\<rparr>) = Inr (frame_of (user_pool s) j, t\<lparr>mem := m2\<rparr>) \<and>
      palloc (kernel_pool s) (t\<lparr>mem := m2\<rparr>) = Inr (frame_of (kernel_pool s) k, t\<lparr>mem := m3\<rparr>)"
proof -
  have r: "i < bm_cap b" "frames_ok (user_pool s)" "frames_ok (kernel_pool s)"
    "free_frames (user_pool s) (mem s) \<noteq> {}" "free_frames (kernel_pool s) (mem s) \<noteq> {}"
    "bm_bytes b \<inter> bm_bytes (pool_bitmap (user_pool s)) = {}" "bm_bytes b \<inter> bm_bytes (pool_bitmap (kernel_pool s)) = {}"
    "bm_bytes (pool_bitmap (user_pool s)) \<inter> bm_bytes (pool_bitmap (kernel_pool s)) = {}"
    using ready by (simp_all add: user_page_ready_def Let_def b_def i_def Int_Un_distrib)
  let ?m1 = "bm_claim b i (mem s)"
  have f1: "free_frames (user_pool s) ?m1 = free_frames (user_pool s) (mem s)"
    "free_frames (kernel_pool s) ?m1 = free_frames (kernel_pool s) (mem s)"
    using free_frames_other [OF r(6), of "[i]" "mem s"] free_frames_other [OF r(7), of "[i]" "mem s"] r(1) by simp_all
  note j = palloc_least [OF r(2) f1(1) r(4)]
  let ?m2 = "bm_claim (pool_bitmap (user_pool s)) (LEAST j. j \<in> free_frames (user_pool s) (mem s)) ?m1"
  have "free_frames (kernel_pool s) ?m2 = free_frames (kernel_pool s) (mem s)"
    using free_frames_other [OF r(8), of "[LEAST j. j \<in> free_frames (user_pool s) (mem s)]" ?m1] j(1) f1(2)
    by (simp add: free_frames_def)
  note k = palloc_least [OF r(3) this r(5)]
  show ?thesis using j k by blast
qed

text \<open>What \<^verbatim>\<open>get_a_page\<close> does for a process that gets its first page under a page directory entry.\<close>

lemma user_page_given:
  fixes s :: "'a memory_machine_scheme"
  assumes ready: "user_page_ready s v"
  shows "\<exists>j \<in> free_frames (user_pool s) (mem s). \<exists>m ph. get_a_page PF_USER v s = Ret (s\<lparr>mem := m, phys := ph\<rparr>) v \<and>
    translate (cr3 s) ph v = Some (frame_of (user_pool s) j) \<and>
    (\<forall>w. apart s v w \<longrightarrow> translate (cr3 s) ph w = maps s w)"
proof -
  let ?t = "tasks s (running_thread s)" and ?L = "pool_lock (user_pool s)"
  let ?b = "vaddr_bitmap (userprog_vaddr ?t)" and ?i = "(v - vaddr_start (userprog_vaddr ?t)) div PG_SIZE"
  have r: "lock_free ?L s" "running_thread s \<noteq> 0" "dlist (lnk s) (lock_waiters ?L) []" "pgdir ?t \<noteq> 0" "0 < sint ?i"
    "v AND 0xfff = 0" "tables_ok s" "\<not> present (pde_of s v)" "frames_ok (user_pool s)"
    "\<forall>j \<in> free_frames (kernel_pool s) (mem s). fresh s (frame_of (kernel_pool s) j)"
    using ready unfolding user_page_ready_def Let_def by blast+
  obtain j k m2 m3 where jk: "j \<in> free_frames (user_pool s) (mem s)" "k \<in> free_frames (kernel_pool s) (mem s)" and
    pa: "\<And>t :: 'a memory_machine_scheme. palloc (user_pool s) (t\<lparr>mem := bm_claim ?b (unat ?i) (mem s)\<rparr>) = Inr (frame_of (user_pool s) j, t\<lparr>mem := m2\<rparr>)"
    "\<And>t :: 'a memory_machine_scheme. palloc (kernel_pool s) (t\<lparr>mem := m2\<rparr>) = Inr (frame_of (kernel_pool s) k, t\<lparr>mem := m3\<rparr>)"
    using user_page_frames [OF ready] by blast
  let ?u = "frame_of (user_pool s) j" and ?f = "frame_of (kernel_pool s) k"
  let ?ph = "(with_table (cr3 s) ?f v (phys s))(?f + PTE_IDX v * 4 := entry_for ?u)"
  have f: "fresh s ?f" "frame ?f = ?f" "?f \<noteq> frame (cr3 s)" and u: "?u \<noteq> 0" "frame ?u = ?u"
    using r(9,10) jk by (auto simp: fresh_def frames_ok_def free_frames_def)
  define s1 where "s1 = set_repeat ?L 1 (set_holder ?L (running_thread s) (set_value (lock_semaphore ?L) 0 s))"
  have s1: "mem s1 = mem s" "phys s1 = phys s" "cr3 s1 = cr3 s" "user_pool s1 = user_pool s" "kernel_pool s1 = kernel_pool s"
    "running_thread s1 = running_thread s" "tasks s1 = tasks s" "lnk s1 = lnk s"
    by (simp_all add: s1_def set_repeat_def set_holder_def set_value_def running_thread_def)
  have add: "page_table_add v ?u (s1\<lparr>mem := m2\<rparr>) = Inr (s1\<lparr>mem := m3, phys := ?ph\<rparr>)"
    using page_table_add_missing [of "s1\<lparr>mem := m2\<rparr>" v ?f m3 ?u] r(7,8) f(2,3) pa(2) [of s1] by (simp add: s1 tables_ok_def)
  note lock = locked_section [OF r(1-3) s1_def, of "s1\<lparr>mem := m3, phys := ?ph\<rparr>"]
  have rel: "lock_release ?L (s1\<lparr>mem := m3, phys := ?ph\<rparr>) = Inr (s\<lparr>mem := m3, phys := ?ph\<rparr>)"
    using lock(2) r(3) s1 by (simp add: running_thread_def) (simp add: s1_def set_repeat_def set_holder_def set_value_def)
  have "a_page_locked PF_USER v s1 = Ret (s\<lparr>mem := m3, phys := ?ph\<rparr>) v"
    using r(4,5) pa(1) [of s1] u(1) add rel
    by (simp add: a_page_locked_def pool_for_def s1 Let_def ASSERT_def bitmap_set_u32 finish_with_def)
  moreover have "lock_acquire ?L s = Ret s1 ()" using lock(1) r(3) s1 by (simp add: running_thread_def)
  ultimately have "get_a_page PF_USER v s = Ret (s\<lparr>mem := m3, phys := ?ph\<rparr>) v" by (simp add: get_a_page_def pool_for_def)
  moreover have "translate (cr3 s) ?ph v = Some ?u" "\<forall>w. apart s v w \<longrightarrow> translate (cr3 s) ?ph w = maps s w"
    using maps_after_missing(1) [OF r(7,8) f(1), of ?u] maps_after_missing(2) [OF r(7,8) f(1), where p = ?u] u(2) r(6) by simp_all
  ultimately show ?thesis using jk(1) by blast
qed


text \<open>The registers with which a program starts in user mode.\<close>

definition user_start :: "u32 \<Rightarrow> cpu \<Rightarrow> cpu" where
  "user_start filename c = c\<lparr>r_eax := 0, r_ebx := 0, r_ecx := 0, r_edx := 0, r_esi := 0, r_edi := 0, r_ebp := 0,
     r_esp := 0xc0000000, r_eip := filename, r_eflags := 0x202, r_cs := 0x2b, r_ss := 0x33, r_ds := 0x33, r_es := 0x33,
     r_fs := 0x33, r_gs := 0\<rparr>"

definition start_frame :: "u32 \<Rightarrow> intr_stack \<Rightarrow> intr_stack" where
  "start_frame filename st = st\<lparr>is_edi := 0, is_esi := 0, is_ebp := 0, is_esp_dummy := 0, is_ebx := 0, is_edx := 0,
     is_ecx := 0, is_eax := 0, is_gs := 0, is_ds := 0x33, is_es := 0x33, is_fs := 0x33, is_eip := filename, is_cs := 0x2b,
     is_eflags := 0x202\<rparr>"

lemma process_frame_fields:
  fixes s :: "'a process_machine_scheme" and filename :: u32
  defines "r \<equiv> process_frame filename s" and "cur \<equiv> running_thread s"
  defines "a \<equiv> self_kstack (tasks s cur) + 128"
  shows "fst r = a" "mem (snd r) = mem s" "phys (snd r) = phys s" "cr3 (snd r) = cr3 s" "esp (snd r) = esp s" "lnk (snd r) = lnk s"
    "sema_value (snd r) = sema_value s" "lock_holder (snd r) = lock_holder s" "lock_repeat (snd r) = lock_repeat s"
    "user_pool (snd r) = user_pool s" "kernel_pool (snd r) = kernel_pool s"
    "tasks (snd r) = (tasks s)(cur := (tasks s cur)\<lparr>self_kstack := a\<rparr>)"
    "intr_stacks (snd r) a = start_frame filename (intr_stacks s a)"
  by (simp_all add: r_def cur_def a_def process_frame_def Let_def upd_intr_stack_def upd_task_def put_str_def
      running_thread_def sizeof_thread_stack_def SELECTOR_U_DATA_def SELECTOR_U_CODE_def EFLAGS_IOPL_0_def EFLAGS_MBS_def
      EFLAGS_IF_1_def start_frame_def)

lemma process_frame_ready: "user_page_ready (snd (process_frame filename s)) v \<longleftrightarrow> user_page_ready s v"
proof -
  have "running_thread (snd (process_frame filename s)) = running_thread s"
    by (simp add: running_thread_def process_frame_fields)
  then show ?thesis
    by (simp add: user_page_ready_def Let_def process_frame_fields lock_free_def tables_ok_def fresh_def)
qed

text \<open>
  C16: \<^verbatim>\<open>start_process\<close> in a process that can be given its stack: the last page below the kernel is mapped to a frame
  of the user pool, and \<^verbatim>\<open>intr_exit\<close>, with the stack pointer at the structure that was filled, goes to the
  program in user mode, with an empty stack at the top of that page, interrupts on and no other
  register carrying anything over.
\<close>

theorem process_enters_user_mode:
  fixes s :: "'a process_machine_scheme"
  assumes "user_page_ready s USER_STACK3_VADDR"
  shows "\<exists>s'. start_process filename s = Ret s' () \<and> esp s' = self_kstack (tasks s (running_thread s)) + 128 \<and>
    (\<exists>j \<in> free_frames (user_pool s) (mem s). maps s' USER_STACK3_VADDR = Some (frame_of (user_pool s) j)) \<and>
    (\<forall>c. r_esp c = esp s' \<longrightarrow> words_at (words c) (r_esp c) (frame_words (intr_stacks s' (esp s'))) \<longrightarrow>
       intr_exit c = user_start filename c)"
proof -
  note pf = process_frame_fields [of filename s]
  obtain a s1 where r: "process_frame filename s = (a, s1)" by (cases "process_frame filename s")
  then have "user_page_ready s1 USER_STACK3_VADDR" using assms process_frame_ready [of filename s] by simp
  from user_page_given [OF this] obtain j m ph where j: "j \<in> free_frames (user_pool s) (mem s)"
    "get_a_page PF_USER USER_STACK3_VADDR s1 = Ret (s1\<lparr>mem := m, phys := ph\<rparr>) USER_STACK3_VADDR"
    "translate (cr3 s) ph USER_STACK3_VADDR = Some (frame_of (user_pool s) j)"
    using pf r by auto
  let ?st = "(intr_stacks s1 a)\<lparr>is_esp := 0xc0000000, is_ss := 0x33\<rparr>"
  let ?s = "s1\<lparr>mem := m, phys := ph, intr_stacks := (intr_stacks s1)(a := ?st), esp := a\<rparr>"
  have start: "start_process filename s = Ret ?s ()"
    using j(2) by (simp add: start_process_def r process_entered_def Let_def upd_intr_stack_def USER_STACK3_VADDR_def
        PG_SIZE_def SELECTOR_U_DATA_def)
  have "intr_exit c = user_start filename c" if "words_at (words c) (r_esp c) (frame_words ?st)" for c
  proof -
    have st: "intr_stacks s1 a = start_frame filename (intr_stacks s a)" using pf(1,13) r by simp
    have "words_at (words c) (r_esp c) (take 17 (frame_words ?st))" using that by (simp add: frame_words_def)
    from intr_exit_loads [OF this that] show ?thesis by (simp add: st user_start_def start_frame_def)
  qed
  then show ?thesis using start j(1,3) pf r by auto
qed


section \<open>Error codes\<close>

text \<open>
  Where the processor pushes an error code and the stub pushes a zero all the same, \<^verbatim>\<open>iretd\<close> takes the error
  code for the place to go to.
\<close>

lemma error_code_taken_for_place:
  assumes "vector_kind n = ZERO" "returned 1 (intr_entry n (interrupt entry tss (Some code) c)) d"
  shows "r_eip (intr_exit d) = code"
proof -
  let ?c = "intr_entry n (interrupt entry tss (Some code) c)"
  have "words ?c (r_esp ?c + 4 * of_nat 14) = code"
    using assms(1)
    by (simp add: intr_entry_def interrupt_def stack_switch_def save_context_def end_of_interrupt_def stack_code)
  moreover have "words d (r_esp ?c + 4 * of_nat 14) = words ?c (r_esp ?c + 4 * of_nat 14)" "r_esp d = r_esp ?c"
    using assms(2) by (auto simp: returned_def list_all_iff simp del: of_nat_numeral)
  ultimately have "words d (56 + r_esp d) = code" by (simp add: add.commute)
  then show ?thesis by (simp add: intr_exit_def iretd_def stack_code)
qed

section \<open>A program, a handler and a process\<close>

definition demo_cpu :: cpu where
  "demo_cpu = \<lparr>r_eax = 1, r_ebx = 2, r_ecx = 3, r_edx = 4, r_esi = 5, r_edi = 6, r_ebp = 0xbfffffe0, r_esp = 0xbfffffd0,
     r_eip = 0x8048010, r_eflags = 0x202, r_cs = 0x2b, r_ss = 0x33, r_ds = 0x33, r_es = 0x33, r_fs = 0x33, r_gs = 0,
     words = (\<lambda>_. 0), sent = []\<rparr>"

text \<open>A routine that uses its argument's slot and the registers that C lets it use.\<close>

definition demo_routine :: "u32 \<Rightarrow> cpu \<Rightarrow> cpu" where
  "demo_routine a c = c\<lparr>r_eax := 7, r_ecx := a, r_edx := 0, words := (words c)(r_esp c := 0, r_esp c - 4 := a)\<rparr>"

lemma demo_routine_returned: "0 < n \<Longrightarrow> returned n c (demo_routine a c)"
proof -
  assume n: "0 < n"
  have "list_all (\<lambda>i. 4 * of_nat i \<noteq> (0 :: u32) \<and> 4 * of_nat i \<noteq> (- 4 :: u32)) [1..<24]" by (simp add: upt_rec)
  then have "r_esp c + 4 * of_nat i \<noteq> r_esp c \<and> r_esp c + 4 * of_nat i \<noteq> r_esp c - 4" if "i \<in> set [n..<24]" for i
    using that n by (auto simp: list_all_iff add_eq_0_iff diff_conv_add_uminus simp del: add_uminus_conv_diff)
  then show ?thesis by (simp add: returned_def list_all_iff demo_routine_def)
qed

theorem interrupt_returns_witness:
  "\<exists>w p. intr_stub demo_routine (replicate 0x81 0xc0001000) 0x20 (interrupt 0xc0002000 (0x10, 0xc0201000) None demo_cpu) =
     demo_cpu\<lparr>words := w, sent := p\<rparr>"
  using interrupt_returns [where n = "0x20" and run = demo_routine and handlers = "replicate 0x81 0xc0001000" and
      entry = "0xc0002000" and tss = "(0x10, 0xc0201000)" and c = demo_cpu]
    demo_routine_returned [of 1] by simp

theorem system_call_returns_witness:
  "\<exists>c. syscall3 (\<lambda>c. syscall_stub demo_routine (replicate 32 0xc0001000) (interrupt 0xc0002000 (0x10, 0xc0201000) None c))
     0 9 8 7 demo_cpu = Inr (7, c) \<and> r_ecx c = 8"
  using system_call_returns [where number = 0 and table = "replicate 32 0xc0001000" and run = demo_routine and
      entry = "0xc0002000" and tss = "(0x10, 0xc0201000)" and a = 9 and b = 8 and x = 7 and c = demo_cpu]
    demo_routine_returned [of 3] by (auto simp: demo_routine_def)

text \<open>Two threads that switch to each other, and a new one.\<close>

definition demo_out :: cpu where
  "demo_out = demo_cpu\<lparr>r_esp := 0xc0100f00, words := (\<lambda>_. 0)(0xc0100f00 := 0xc0001234, 0xc0100f04 := 0xc0100000,
     0xc0100f08 := 0xc0200000)\<rparr>"

definition demo_in :: cpu where
  "demo_in = demo_cpu\<lparr>r_esp := 0xc0200f00, r_ebx := 99, words := (words (switch_regs demo_out))(0xc0200f00 := 0xc0001235,
     0xc0200f04 := 0xc0200000, 0xc0200f08 := 0xc0100000)\<rparr>"

theorem switch_comes_back_witness:
  "\<exists>w. switch_regs demo_in = demo_in\<lparr>r_eax := 0xc0100000, r_ebp := 0xbfffffe0, r_ebx := 2, r_edi := 6, r_esi := 5,
     r_eip := 0xc0001234, r_esp := 0xc0100f04, words := w\<rparr>"
proof -
  have "words_at (words demo_out) (r_esp demo_out) [0xc0001234, 0xc0100000, 0xc0200000]"
    "words_at (words demo_in) (r_esp demo_in) [0xc0001235, 0xc0200000, 0xc0100000]"
    by (simp_all add: demo_out_def demo_in_def)
  from switch_comes_back [OF this] show ?thesis
    by (simp add: demo_in_def switch_writes_def) (simp add: demo_out_def demo_cpu_def)
qed

definition demo_first :: cpu where
  "demo_first = demo_cpu\<lparr>r_esp := 0xc0200f00, words := (\<lambda>_. 0)(0xc0102000 := 0xc0102e50, 0xc0102e60 := 0xc0001600,
     0xc0102e68 := 0xc0001800, 0xc0102e6c := 7, 0xc0200f04 := 0xc0200000, 0xc0200f08 := 0xc0102000)\<rparr>"

theorem first_switch_calls_function_witness:
  "\<exists>w. switch_regs demo_first = demo_first\<lparr>r_eax := 0xc0102000, r_ebp := 0, r_ebx := 0, r_edi := 0, r_esi := 0,
     r_eip := 0xc0001600, r_esp := 0xc0102e64, words := w\<rparr> \<and> words_at w 0xc0102e68 [0xc0001800, 7]"
proof -
  let ?s = "upd_task 0xc0102000 (\<lambda>t. t\<lparr>self_kstack := 0xc0103000\<rparr>) demo_process"
  have "self_kstack (tasks ?s 0xc0102000) = 0xc0102000 + PG_SIZE" by (simp add: upd_task_def PG_SIZE_def)
  note first = first_switch_calls_function [OF this, where c = demo_first and f = "0xc0001800" and a = 7 and ret = 0 and
      cur = "0xc0200000"]
  have "thread_stacks demo_process a = \<lparr>ts_ebp = 0, ts_ebx = 0, ts_edi = 0, ts_esi = 0, ts_eip = 0,
      ts_unused_retaddr = 0, ts_function = 0, ts_func_arg = 0\<rparr>" for a
    by (simp add: demo_process_def lock_init_def sema_init_def list_init_def set_holder_def set_repeat_def set_value_def
        Let_def console_machine.defs)
  then have "stack_words (thread_stacks (thread_create 0xc0102000 0xc0001800 7 ?s) 0xc0102e50) =
      [0, 0, 0, 0, 0xc0001600, 0, 0xc0001800, 7]"
    by (simp add: stack_words_def thread_create_def upd_task_def Let_def sizeof_intr_stack_def sizeof_thread_stack_def)
  moreover have "kernel_thread_entry ?s = 0xc0001600" by (simp add: upd_task_def)
  ultimately show ?thesis using first by (simp add: demo_first_def switch_writes_def)
qed

definition demo_starting :: process_machine where
  "demo_starting = demo_process\<lparr>mem := (\<lambda>_. 0), kernel_pool := demo_pool,
     user_pool := demo_pool\<lparr>pool_bitmap := \<lparr>btmp_bytes_len = 1, bits = 0x5008\<rparr>, pool_lock := 0xc0006400\<rparr>,
     tasks := (\<lambda>a. (demo_task a TASK_RUNNING)\<lparr>pgdir := 0xc0100000, userprog_vaddr :=
       \<lparr>vaddr_bitmap = \<lparr>btmp_bytes_len = 2, bits = 0x5010\<rparr>, vaddr_start = 0xbfff0000\<rparr>\<rparr>)\<rparr>"

lemma demo_starting_ready: "user_page_ready demo_starting USER_STACK3_VADDR"
proof -
  have "running_thread demo_starting = 0xc009e000"
    using demo_process_running by (simp add: demo_starting_def running_thread_def)
  moreover have "lock_free 0xc0006400 demo_starting" "dlist (lnk demo_starting) (lock_waiters 0xc0006400) []"
    using demo_process_lock by (simp_all add: demo_starting_def lock_free_def)
  moreover have "frames_ok (user_pool demo_starting)" "frames_ok (kernel_pool demo_starting)"
    using demo_pool_ok by (simp_all add: demo_starting_def frames_ok_def frame_of_def pool_ok_def bm_small_def demo_pool_def bm_cap_def)
  moreover have "tables_ok demo_starting" using demo_mem_tables by (simp add: tables_ok_def demo_starting_def)
  moreover have "\<not> present (pde_of demo_starting USER_STACK3_VADDR)"
    by (simp add: demo_starting_def USER_STACK3_VADDR_def pde_addr_def PDE_IDX_def frame_def)
  moreover have "fresh demo_starting (frame_of demo_pool k)" if "k < 8" for k
  proof -
    have "k \<in> {0, 1, 2, 3, 4, 5, 6, 7}" using that by auto
    then show ?thesis
      by (auto simp: fresh_def demo_starting_def frame_of_def demo_pool_def PG_SIZE_def) (auto simp: frame_def present_def)
  qed
  moreover have "free_frames (user_pool demo_starting) (\<lambda>_. 0) = {..<8}"
    by (auto simp: free_frames_def demo_starting_def bm_cap_def bm_free_def)
  ultimately show ?thesis
    unfolding user_page_ready_def Let_def using demo_pool_free
    by (simp add: demo_starting_def) (simp add: USER_STACK3_VADDR_def demo_pool_def bm_bytes_def bm_cap_def PG_SIZE_def lessThan_empty_iff)
qed

theorem process_enters_user_mode_witness:
  "\<exists>s'. start_process 0x8048000 demo_starting = Ret s' () \<and> maps s' USER_STACK3_VADDR \<noteq> None"
  using process_enters_user_mode [OF demo_starting_ready, of "0x8048000"] by fastforce

end
