(* ===== verification/Loader.thy ===== *)
theory Loader
  imports Boot
begin

text \<open>
  The boot sector \<^verbatim>\<open>src/boot/mbr.S\<close> and the loader \<^verbatim>\<open>src/boot/loader.S\<close>: reading sectors from the disk,
  finding out the size of the memory with the help of the BIOS, the descriptor table, and copying the
  segments of the kernel's ELF file to their addresses. The BIOS and the disk are arguments; theorems
  that rely on them say on what. Last comes the code in protected mode as a whole, with \<^verbatim>\<open>setup_page\<close>
  of the theory \<^verbatim>\<open>Boot\<close>, and the state in which \<^verbatim>\<open>main\<close> starts.
\<close>

section \<open>Registers\<close>

text \<open>The registers that the real-mode code uses and the memory it reaches, its segments being at 0.\<close>

record regs =
  eax :: u32
  ebx :: u32
  ecx :: u32
  edx :: u32
  esi :: u32
  edi :: u32
  ram :: memory

text \<open>Writing the low half of a register, a word to memory, and the product of \<^verbatim>\<open>ax\<close> and \<^verbatim>\<open>cx\<close> in \<^verbatim>\<open>dx\<close> and \<^verbatim>\<open>ax\<close>.\<close>

definition low :: "u16 \<Rightarrow> u32 \<Rightarrow> u32" where
  "low w r = (r AND 0xffff0000) OR ucast w"

definition store32 :: "u32 \<Rightarrow> u32 \<Rightarrow> memory \<Rightarrow> memory" where
  "store32 addr w m = m(addr := ucast w, addr + 1 := ucast (drop_bit 8 w), addr + 2 := ucast (drop_bit 16 w),
     addr + 3 := ucast (drop_bit 24 w))"

definition mul_cx :: "'a regs_scheme \<Rightarrow> 'a regs_scheme" where
  "mul_cx r = (let p = ucast (ucast (eax r) :: u16) * ucast (ucast (ecx r) :: u16) :: u32
     in r\<lparr>eax := low (ucast p) (eax r), edx := low (ucast (drop_bit 16 p)) (edx r)\<rparr>)"

definition mul_ecx :: "'a regs_scheme \<Rightarrow> 'a regs_scheme" where
  "mul_ecx r = (let p = ucast (eax r) * ucast (ecx r) :: u64
     in r\<lparr>eax := ucast p, edx := ucast (drop_bit 32 p)\<rparr>)"

text \<open>How often the instruction \<^verbatim>\<open>loop\<close> repeats: it counts down before it tests.\<close>

definition loop_count :: "'a::len word \<Rightarrow> nat" where
  "loop_count c = (if c = 0 then 2 ^ LENGTH('a) else unat c)"

section \<open>loader.S: the size of the memory\<close>

text \<open>
  Addresses of the loader's data: behind the jump of three bytes at 0x900 come the descriptor table,
  \<^verbatim>\<open>total_mem_bytes\<close>, the table's operand, the buffer for the memory map and the number of its entries.
\<close>

definition GDT_BASE :: u32 where "GDT_BASE = 0x903"
definition total_mem_bytes :: u32 where "total_mem_bytes = 0xb00"
definition ards_buf :: u32 where "ards_buf = 0xb0a"
definition ards_nr :: u32 where "ards_nr = 0xbfe"

text \<open>
  \<open>int15\<close> is the BIOS call \<^verbatim>\<open>int 0x15\<close>: the carry flag and the registers and memory after it. The loop
  ends with the carry flag of the last call.
\<close>

partial_function (option) e820_mem_get_loop ::
  "('a regs_scheme \<Rightarrow> bool \<times> 'a regs_scheme) \<Rightarrow> 'a regs_scheme \<Rightarrow> (bool \<times> 'a regs_scheme) option" where
  "e820_mem_get_loop int15 r =
     (let (cf, r) = int15 (r\<lparr>eax := 0xe820, ecx := 20\<rparr>)
      in if cf then Some (True, r)
         else let r = r\<lparr>edi := low (ucast (edi r) + ucast (ecx r)) (edi r),
                  ram := store16 ards_nr (load16 (ram r) ards_nr + 1) (ram r)\<rparr>
           in if ebx r = 0 then Some (False, r) else e820_mem_get_loop int15 r)"

fun find_max_mem_area :: "nat \<Rightarrow> 'a regs_scheme \<Rightarrow> 'a regs_scheme" where
  "find_max_mem_area 0 r = r"
| "find_max_mem_area (Suc n) r =
     (let r = r\<lparr>eax := load32 (ram r) (ebx r)\<rparr>;
          r = r\<lparr>eax := eax r + load32 (ram r) (ebx r + 8)\<rparr>;
          r = r\<lparr>ebx := ebx r + 20\<rparr>;
          r = (if sint (eax r) \<le> sint (edx r) then r else r\<lparr>edx := eax r\<rparr>)
      in find_max_mem_area n (r\<lparr>ecx := low (ucast (ecx r) - 1) (ecx r)\<rparr>))"

definition e820_mem_size :: "'a regs_scheme \<Rightarrow> 'a regs_scheme" where
  "e820_mem_size r =
     (let r = r\<lparr>ecx := low (load16 (ram r) ards_nr) (ecx r)\<rparr>;
          r = r\<lparr>ebx := ards_buf\<rparr>;
          r = r\<lparr>ebx := ebx r XOR ebx r\<rparr>
      in find_max_mem_area (loop_count (ucast (ecx r) :: u16)) r)"

text \<open>The third method ends in the endless loop at \<^verbatim>\<open>.error_hlt\<close> in any case.\<close>

definition error_hlt :: "'a regs_scheme \<Rightarrow> kerror + 'a regs_scheme" where
  "error_hlt r = Inl Hang"

definition e801_failed_so_try88 ::
  "('a regs_scheme \<Rightarrow> bool \<times> 'a regs_scheme) \<Rightarrow> 'a regs_scheme \<Rightarrow> kerror + 'a regs_scheme" where
  "e801_failed_so_try88 int15 r =
     (let (cf, r) = int15 (r\<lparr>eax := (eax r AND NOT 0xff00) OR 0x8800\<rparr>)
      in if cf then error_hlt r
         else let r = r\<lparr>eax := eax r AND 0xffff\<rparr>;
                  r = mul_cx (r\<lparr>ecx := low 0x400 (ecx r)\<rparr>);
                  r = r\<lparr>edx := push_bit 16 (edx r)\<rparr>;
                  r = r\<lparr>edx := edx r OR eax r\<rparr>;
                  r = r\<lparr>edx := edx r + 0x100000\<rparr>
           in error_hlt r)"

definition e820_failed_so_try_e801 ::
  "('a regs_scheme \<Rightarrow> bool \<times> 'a regs_scheme) \<Rightarrow> 'a regs_scheme \<Rightarrow> kerror + 'a regs_scheme" where
  "e820_failed_so_try_e801 int15 r =
     (let (cf, r) = int15 (r\<lparr>eax := low 0xe801 (eax r)\<rparr>)
      in if cf then e801_failed_so_try88 int15 r
         else let r = mul_cx (r\<lparr>ecx := low 0x400 (ecx r)\<rparr>);
                  r = r\<lparr>edx := push_bit 16 (edx r)\<rparr>;
                  r = r\<lparr>eax := eax r AND 0xffff\<rparr>;
                  r = r\<lparr>edx := edx r OR eax r\<rparr>;
                  r = r\<lparr>edx := edx r + 0x100000\<rparr>;
                  r = r\<lparr>esi := edx r\<rparr>;
                  r = r\<lparr>eax := 0\<rparr>;
                  r = r\<lparr>eax := low (ucast (ebx r)) (eax r)\<rparr>;
                  r = mul_ecx (r\<lparr>ecx := 0x10000\<rparr>);
                  r = r\<lparr>edx := esi r\<rparr>
           in Inr (r\<lparr>edx := edx r + eax r\<rparr>))"

definition loader_start ::
  "('a regs_scheme \<Rightarrow> bool \<times> 'a regs_scheme) \<Rightarrow> 'a regs_scheme \<Rightarrow> kerror + 'a regs_scheme" where
  "loader_start int15 r =
     (let r = r\<lparr>ebx := ebx r XOR ebx r\<rparr>;
          r = r\<lparr>edx := 0x534d4150\<rparr>;
          r = r\<lparr>edi := low (ucast ards_buf) (edi r)\<rparr>
      in sbind (returns (e820_mem_get_loop int15 r)) (\<lambda>(cf, r).
         sbind (if cf then e820_failed_so_try_e801 int15 r else Inr (e820_mem_size r)) (\<lambda>r.
           Inr (r\<lparr>ram := store32 total_mem_bytes (edx r) (ram r)\<rparr>))))"

section \<open>Registers and memory words\<close>

lemma bit_low: "bit (low w r) n \<longleftrightarrow> (if n < 16 then bit w n else bit r n)"
  by (auto simp: low_def bit_simps mask_bits dest: bit_imp_le_length)

lemma ucast_low [simp]: "(ucast (low w r) :: u16) = w"
  by (rule bit_word_eqI) (auto simp: bit_low bit_simps)

lemma low_low [simp]: "low v (low w r) = low v r"
  by (rule bit_word_eqI) (auto simp: bit_low)

lemma low_0: "low w 0 = ucast w"
  by (simp add: low_def)

lemma low_small:
  assumes "unat r < 2 ^ 16"
  shows "low w r = ucast w"
proof -
  have "take_bit 16 r = r" using assms by (simp add: take_bit_eq_mod word_unat_eq_iff unat_mod)
  then have "bit r n \<Longrightarrow> n < 16" for n by (metis bit_take_bit_iff)
  then show ?thesis by (intro bit_word_eqI) (auto simp: bit_low bit_simps dest: bit_imp_le_length)
qed

lemma push_low: "push_bit 16 (low w r) = push_bit 16 (ucast w)"
  by (rule bit_word_eqI) (auto simp: bit_low bit_simps dest: bit_imp_le_length)

lemma low_and: "low w r AND 0xffff = ucast w"
  by (rule bit_word_eqI) (auto simp: bit_low bit_simps mask_bits dest: bit_imp_le_length)

lemma unat_ucast_u16: "unat (ucast w :: u32) = unat (w :: u16)"
  using unsigned_less [of w, where ?'a = nat] by (simp add: unsigned_ucast_eq take_bit_nat_eq_self)

lemma load32_store32: "load32 (store32 a w m) a = w"
proof -
  have "load32 (store32 a w m) a = ucast (ucast w :: u8) OR push_bit 8 (ucast (ucast (drop_bit 8 w) :: u8)) OR
    push_bit 16 (ucast (ucast (drop_bit 16 w) :: u8)) OR push_bit 24 (ucast (ucast (drop_bit 24 w) :: u8))"
    by (simp add: load32_def store32_def)
  also have "\<dots> = w"
  proof (rule bit_word_eqI)
    fix n :: nat assume "n < LENGTH(32)"
    then consider "n < 8" | "8 \<le> n" "n < 16" | "16 \<le> n" "n < 24" | "24 \<le> n" "n < 32"
      by (cases "n < 8"; cases "n < 16"; cases "n < 24") auto
    then show "bit (ucast (ucast w :: u8) OR push_bit 8 (ucast (ucast (drop_bit 8 w) :: u8)) OR
      push_bit 16 (ucast (ucast (drop_bit 16 w) :: u8)) OR push_bit 24 (ucast (ucast (drop_bit 24 w) :: u8)) :: u32) n = bit w n"
      by cases (auto simp: bit_simps)
  qed
  finally show ?thesis .
qed

text \<open>The two halves of a product of sixteen-bit numbers put together again.\<close>

lemma mul_halves:
  "push_bit 16 (ucast (ucast (drop_bit 16 p) :: u16)) OR ucast (ucast p :: u16) = (p :: u32)"
proof (rule bit_word_eqI)
  fix n :: nat assume "n < LENGTH(32)"
  then show "bit (push_bit 16 (ucast (ucast (drop_bit 16 p) :: u16)) OR ucast (ucast p :: u16) :: u32) n = bit p n"
    by (cases "n < 16") (auto simp: bit_simps)
qed

lemma ucast_mul_64K: "(ucast (ucast w * 0x10000 :: u64) :: u32) = w * 0x10000"
proof -
  have "(ucast (push_bit 16 (ucast w) :: u64) :: u32) = push_bit 16 w"
    by (rule bit_word_eqI) (auto simp: bit_simps)
  then show ?thesis by (simp add: push_bit_eq_mult)
qed

section \<open>What the loader takes for the size of the memory\<close>

text \<open>
  The BIOS call 0xe820: each call with entries left to report does not fail, keeps the registers that
  the loader relies on, writes one entry of twenty bytes to the buffer and says in \<^verbatim>\<open>ebx\<close> where to go on,
  which is 0 behind the last entry. \<open>left\<close> is the number of entries to come for a value of \<^verbatim>\<open>ebx\<close>.
\<close>

definition e820_bios :: "('a regs_scheme \<Rightarrow> bool \<times> 'a regs_scheme) \<Rightarrow> (u32 \<Rightarrow> nat) \<Rightarrow> bool" where
  "e820_bios int15 left \<longleftrightarrow>
     (\<forall>r. eax r = 0xe820 \<longrightarrow> edx r = 0x534d4150 \<longrightarrow> 0 < left (ebx r) \<longrightarrow>
        (let (cf, r') = int15 r
         in \<not> cf \<and> edx r' = edx r \<and> edi r' = edi r \<and> ecx r' = 20 \<and>
            (if left (ebx r) = 1 then ebx r' = 0 else ebx r' \<noteq> 0 \<and> Suc (left (ebx r')) = left (ebx r)) \<and>
            (\<forall>a. a \<notin> span (ucast (ucast (edi r) :: u16)) 20 \<longrightarrow> ram r' a = ram r a)))"

text \<open>What the loop over the entries computes: the signed maximum of the ends of the areas from address 0 on.\<close>

definition area_end :: "memory \<Rightarrow> u32 \<Rightarrow> u32" where
  "area_end m a = load32 m a + load32 m (a + 8)"

definition signed_max :: "u32 \<Rightarrow> u32 \<Rightarrow> u32" where
  "signed_max x y = (if sint x \<le> sint y then y else x)"

lemma find_max_mem_area_eq:
  "ram (find_max_mem_area n r) = ram r \<and>
   edx (find_max_mem_area n r) = fold (\<lambda>i. signed_max (area_end (ram r) (ebx r + of_nat i * 20))) [0..<n] (edx r)"
proof (induction n arbitrary: r)
  case (Suc n)
  have "fold (\<lambda>i. signed_max (area_end (ram r) (ebx r + of_nat i * 20))) [0..<Suc n] e =
    fold (\<lambda>i. signed_max (area_end (ram r) (ebx r + 20 + of_nat i * 20))) [0..<n] (signed_max (area_end (ram r) (ebx r)) e)"
    for e by (simp add: upt_conv_Cons map_Suc_upt [symmetric] fold_map o_def algebra_simps del: upt_Suc)
  moreover have "find_max_mem_area (Suc n) r = find_max_mem_area n (r\<lparr>eax := area_end (ram r) (ebx r), ebx := ebx r + 20,
    edx := signed_max (area_end (ram r) (ebx r)) (edx r), ecx := low (ucast (ecx r) - 1) (ecx r)\<rparr>)"
    by (simp add: Let_def signed_max_def area_end_def)
  ultimately show ?case using Suc by simp
qed simp

lemma sint_le_unsigned:
  assumes "0 \<le> sint x" "sint x \<le> sint y"
  shows "x \<le> (y :: u32)"
proof -
  have "sint z = uint z" if "0 \<le> sint z" for z :: u32
  proof -
    have "\<not> bit z 31" using that bit_last_iff [of z] by simp
    then have "n < 31" if "bit z n" for n
      using that bit_imp_le_length [OF that] by (cases "n = 31") auto
    then have "take_bit 31 (uint z) = uint z" by (intro bit_eqI) (auto simp: bit_simps)
    then show ?thesis using \<open>\<not> bit z 31\<close> by (simp add: sint_uint signed_take_bit_eq_if_positive bit_uint_iff)
  qed
  then show ?thesis using assms by (simp add: word_le_def)
qed

lemma signed_max_fold: "sint e \<le> sint (fold (\<lambda>i. signed_max (f i)) is e)"
proof (induction "is" arbitrary: e)
  case (Cons i "is")
  have "sint e \<le> sint (signed_max (f i) e)" by (simp add: signed_max_def)
  then show ?case using Cons [of "signed_max (f i) e"] by simp
qed simp

lemma signed_max_fold_same: "\<forall>i \<in> set is. sint (f i) \<le> sint e \<Longrightarrow> fold (\<lambda>i. signed_max (f i)) is e = e"
  by (induction "is") (simp_all add: signed_max_def)

lemma span_unat:
  assumes "a \<in> span p n" "unat p + n \<le> 2 ^ 32"
  shows "unat p \<le> unat a" "unat a < unat p + n"
proof -
  obtain i where i: "i < n" "a = of_nat (unat p + i)" using assms(1) by (auto simp: mem_span_iff)
  then have "unat a = unat p + i" using assms(2) unat_of_nat_u32 [of "unat p + i"] by (simp del: of_nat_add)
  with i show "unat p \<le> unat a" "unat a < unat p + n" by simp_all
qed

lemma span_apart: "unat p + m \<le> unat q \<Longrightarrow> unat q + n \<le> 2 ^ 32 \<Longrightarrow> span q n \<inter> span p m = {}"
  using span_unat [of _ q n] span_unat [of _ p m] by fastforce

text \<open>One round of the loop.\<close>

lemma e820_round:
  fixes r :: "'a regs_scheme"
  assumes "e820_bios int15 left" "left (ebx r) = Suc k" "edx r = 0x534d4150"
    and room: "unat (ucast (edi r) :: u16) + 20 \<le> 0xbfe"
  obtains r' :: "'a regs_scheme" where
    "e820_mem_get_loop int15 r = (if k = 0 then Some (False, r') else e820_mem_get_loop int15 r')"
    "edx r' = 0x534d4150" "k \<noteq> 0 \<Longrightarrow> left (ebx r') = k"
    "unat (ucast (edi r') :: u16) = unat (ucast (edi r) :: u16) + 20"
    "load16 (ram r') ards_nr = load16 (ram r) ards_nr + 1"
    "\<And>a. unat a < unat (ucast (edi r) :: u16) \<Longrightarrow> ram r' a = ram r a"
proof -
  define di where "di = (ucast (edi r) :: u16)"
  obtain cf q where q: "int15 (r\<lparr>eax := 0xe820, ecx := 20\<rparr>) = (cf, q)" by fastforce
  let ?r = "q\<lparr>edi := low (di + 20) (edi r), ram := store16 ards_nr (load16 (ram q) ards_nr + 1) (ram q)\<rparr>"
  have b: "\<not> cf" "edx q = edx r" "edi q = edi r" "ecx q = 20"
    "if k = 0 then ebx q = 0 else ebx q \<noteq> 0 \<and> left (ebx q) = k"
    "\<And>a. a \<notin> span (ucast di) 20 \<Longrightarrow> ram q a = ram r a"
    using assms(1) [unfolded e820_bios_def, rule_format, of "r\<lparr>eax := 0xe820, ecx := 20\<rparr>"] assms(2,3) q
    by (auto simp: di_def simp del: span_numeral split: if_splits)
  have u: "unat (ucast di :: u32) = unat di" by (rule unat_ucast_u16)
  have out: "ram q a = ram r a" if "unat a < unat di \<or> 0xbfe \<le> unat a" for a
  proof (rule b(6))
    show "a \<notin> span (ucast di) 20"
      using that span_unat [of a "ucast di" 20] room by (auto simp: u di_def [symmetric] simp del: span_numeral)
  qed
  have "load16 (ram q) ards_nr = load16 (ram r) ards_nr" by (simp add: load16_def ards_nr_def out)
  moreover have "unat (di + 20) = unat di + 20" using room by (simp add: unat_word_ariths di_def)
  moreover have "ram ?r a = ram r a" if "unat a < unat di" for a
  proof -
    have "a \<noteq> ards_nr" "a \<noteq> ards_nr + 1" using that room by (auto simp: ards_nr_def di_def [symmetric])
    then show ?thesis using that by (simp add: store16_def out)
  qed
  moreover have "e820_mem_get_loop int15 r = (if k = 0 then Some (False, ?r) else e820_mem_get_loop int15 ?r)"
    using b(1,3,4,5) by (subst e820_mem_get_loop.simps) (simp add: q di_def)
  ultimately show thesis using b(2,5) assms(3) by (intro that [of ?r]) (simp_all add: di_def load16_store16)
qed

lemma e820_loop_ends:
  assumes "e820_bios int15 left"
  shows "left (ebx r) = Suc k \<Longrightarrow> edx r = 0x534d4150 \<Longrightarrow> unat (ucast (edi r) :: u16) + 20 * Suc k \<le> 0xbfe \<Longrightarrow>
    \<exists>r'. e820_mem_get_loop int15 r = Some (False, r') \<and> edx r' = 0x534d4150 \<and>
      load16 (ram r') ards_nr = load16 (ram r) ards_nr + of_nat (Suc k) \<and>
      (\<forall>a. unat a < unat (ucast (edi r) :: u16) \<longrightarrow> ram r' a = ram r a)"
proof (induction k arbitrary: r)
  case 0
  then show ?case by (elim e820_round [OF assms]) auto
next
  case (Suc k)
  obtain q where q: "e820_mem_get_loop int15 r = e820_mem_get_loop int15 q" "edx q = 0x534d4150" "left (ebx q) = Suc k"
    "unat (ucast (edi q) :: u16) = unat (ucast (edi r) :: u16) + 20" "load16 (ram q) ards_nr = load16 (ram r) ards_nr + 1"
    "\<And>a. unat a < unat (ucast (edi r) :: u16) \<Longrightarrow> ram q a = ram r a"
    using Suc.prems by (elim e820_round [OF assms]) auto
  then obtain r' where "e820_mem_get_loop int15 q = Some (False, r')" "edx r' = 0x534d4150"
    "load16 (ram r') ards_nr = load16 (ram q) ards_nr + of_nat (Suc k)"
    "\<forall>a. unat a < unat (ucast (edi q) :: u16) \<longrightarrow> ram r' a = ram q a"
    using Suc.IH [of q] Suc.prems(3) by auto
  then show ?case using q by (intro exI [of _ r']) (auto simp: algebra_simps)
qed

text \<open>
  C22: the loader with a BIOS that reports a memory map of up to twelve entries. It asks for the whole
  map, but then looks for the end of the highest area at address 0 instead of in the buffer, and starts
  from the constant 0x534d4150 that is still in \<^verbatim>\<open>edx\<close>: the size that it leaves for \<^verbatim>\<open>mem_init\<close> does not
  depend on what the BIOS reported and is never smaller than that constant. When the first words of
  the memory give nothing greater, \<^verbatim>\<open>mem_pool_init\<close> counts 13012 free pages on every machine.
\<close>

theorem memory_map_not_read:
  fixes r :: "'a regs_scheme"
  assumes "e820_bios int15 left" "left 0 = n" "0 < n" "n \<le> 12" "load16 (ram r) ards_nr = 0"
  shows "\<exists>r'. loader_start int15 r = Inr r' \<and>
    load32 (ram r') 0xb00 = fold (\<lambda>i. signed_max (area_end (ram r) (of_nat i * 20))) [0..<n] 0x534d4150 \<and>
    0x534d4150 \<le> load32 (ram r') 0xb00 \<and>
    ((\<forall>i < n. sint (area_end (ram r) (of_nat i * 20)) \<le> 0x534d4150) \<longrightarrow> all_free_pages (load32 (ram r') 0xb00) = 13012)"
proof -
  define r0 where "r0 = r\<lparr>ebx := 0, edx := 0x534d4150, edi := low (ucast ards_buf) (edi r)\<rparr>"
  obtain k where k: "n = Suc k" using assms(3) by (cases n) auto
  have di: "unat (ucast (edi r0) :: u16) = 0xb0a" by (simp add: r0_def ards_buf_def)
  obtain q where q: "e820_mem_get_loop int15 r0 = Some (False, q)" "edx q = 0x534d4150"
    "load16 (ram q) ards_nr = of_nat n" "\<forall>a. unat a < 0xb0a \<longrightarrow> ram q a = ram r a"
    using e820_loop_ends [OF assms(1), of r0 k] assms(2,4,5) k di by (auto simp: r0_def)
  define f where "f = (\<lambda>m. fold (\<lambda>i. signed_max (area_end m (of_nat i * 20))) [0..<n] 0x534d4150)"
  have cnt: "loop_count (of_nat n :: u16) = n"
    using assms(3,4) by (simp add: loop_count_def unat_of_nat word_unat_eq_iff)
  have e: "edx (e820_mem_size q) = f (ram q)" "ram (e820_mem_size q) = ram q"
    using find_max_mem_area_eq [of n "q\<lparr>ecx := low (of_nat n) (ecx q), ebx := 0\<rparr>"] q(2,3)
    by (simp_all add: e820_mem_size_def cnt f_def)
  have "area_end (ram q) (of_nat i * 20) = area_end (ram r) (of_nat i * 20)" if "i < n" for i
  proof -
    have "unat (of_nat i * 20 + of_nat j :: u32) = i * 20 + j" if "j < 12" for j
      using that \<open>i < n\<close> assms(4) unat_of_nat_u32 [of "i * 20 + j"] by simp
    from this [of 0] this [of 1] this [of 2] this [of 3] this [of 8] this [of 9] this [of 10] this [of 11]
    show ?thesis using q(4) that assms(4) by (simp add: area_end_def load32_def add.assoc)
  qed
  then have f: "f (ram q) = f (ram r)" unfolding f_def by (intro fold_cong) auto
  define r' where "r' = (e820_mem_size q)\<lparr>ram := store32 total_mem_bytes (f (ram r)) (ram q)\<rparr>"
  have "loader_start int15 r = Inr r'" using q(1) e f by (simp add: loader_start_def r0_def r'_def)
  moreover have total: "load32 (ram r') 0xb00 = f (ram r)" by (simp add: r'_def total_mem_bytes_def load32_store32)
  moreover have "sint (0x534d4150 :: u32) \<le> sint (f (ram r))" unfolding f_def by (rule signed_max_fold)
  then have "0x534d4150 \<le> f (ram r)" by (intro sint_le_unsigned) simp_all
  moreover have "f (ram r) = 0x534d4150" if "\<forall>i < n. sint (area_end (ram r) (of_nat i * 20)) \<le> 0x534d4150"
    unfolding f_def using that by (intro signed_max_fold_same) auto
  then have "(\<forall>i < n. sint (area_end (ram r) (of_nat i * 20)) \<le> 0x534d4150) \<longrightarrow> all_free_pages (f (ram r)) = 13012"
    by (simp add: all_free_pages_def used_mem_def PG_SIZE_def)
  ultimately show ?thesis unfolding f_def by auto
qed

text \<open>
  C24: the other two ways to the size. When the memory map cannot be had, the call 0xe801 gives the size
  that it reports: the kilobytes below 16 MB in \<^verbatim>\<open>ax\<close> plus 1 MB plus the blocks of 64 KB above in \<^verbatim>\<open>bx\<close>;
  when that fails too, the machine hangs, whatever the third call reports.
\<close>

theorem memory_size_fallbacks:
  fixes r :: "'a regs_scheme"
  assumes "int15 (r\<lparr>ebx := 0, edx := 0x534d4150, edi := low (ucast ards_buf) (edi r), eax := 0xe820, ecx := 20\<rparr>) = (True, r1)"
    "int15 (r1\<lparr>eax := low 0xe801 (eax r1)\<rparr>) = (cf, r2)"
  shows "if cf then loader_start int15 r = Inl Hang
    else \<exists>r'. loader_start int15 r = Inr r' \<and>
      load32 (ram r') 0xb00 = 0x100000 + ucast (ucast (eax r2) :: u16) * 1024 + ucast (ucast (ebx r2) :: u16) * 0x10000"
proof (cases cf)
  case True
  then show ?thesis using assms
    by (simp add: loader_start_def e820_mem_get_loop.simps e820_failed_so_try_e801_def e801_failed_so_try88_def error_hlt_def
        split_beta Let_def)
next
  case False
  define p where "p = (ucast (ucast (eax r2) :: u16) * 0x400 :: u32)"
  have lo: "push_bit 16 (low (ucast (drop_bit 16 p)) x) OR (low (ucast p) y AND 0xffff) = p" for x y
    by (simp only: push_low low_and mul_halves)
  show ?thesis using False assms lo
    by (simp add: loader_start_def e820_mem_get_loop.simps e820_failed_so_try_e801_def mul_cx_def mul_ecx_def Let_def p_def
        total_mem_bytes_def load32_store32 ucast_mul_64K low_0)
qed

section \<open>Reading sectors from the disk\<close>

text \<open>The disk as the instructions \<^verbatim>\<open>out\<close> and \<^verbatim>\<open>in\<close> see it; \<open>'d\<close> is its state.\<close>

record 'd disk =
  out_byte :: "u16 \<Rightarrow> u8 \<Rightarrow> 'd \<Rightarrow> 'd"
  in_byte :: "u16 \<Rightarrow> 'd \<Rightarrow> u8 \<times> 'd"
  in_word :: "u16 \<Rightarrow> 'd \<Rightarrow> u16 \<times> 'd"

definition out_bytes :: "'d disk \<Rightarrow> (u16 \<times> u8) list \<Rightarrow> 'd \<Rightarrow> 'd" where
  "out_bytes dk = fold (\<lambda>(port, b). out_byte dk port b)"

text \<open>The command that both routines send, for the sector in \<^verbatim>\<open>eax\<close> and the number of sectors in \<^verbatim>\<open>cx\<close>.\<close>

definition disk_command :: "u32 \<Rightarrow> u16 \<Rightarrow> (u16 \<times> u8) list" where
  "disk_command sector count =
     (let mid = drop_bit 8 sector; high = drop_bit 8 mid; top = drop_bit 8 high
      in [(0x1f2, ucast count), (0x1f3, ucast sector), (0x1f4, ucast mid), (0x1f5, ucast high),
          (0x1f6, (ucast top AND 0x0f) OR 0xe0), (0x1f7, 0x20)])"

partial_function (option) not_ready :: "'d disk \<Rightarrow> 'd \<Rightarrow> 'd option" where
  "not_ready dk d =
     (let (al, d) = in_byte dk 0x1f7 d in if al AND 0x88 = 0x08 then Some d else not_ready dk d)"

fun go_on_read :: "'d disk \<Rightarrow> nat \<Rightarrow> u32 \<Rightarrow> memory \<Rightarrow> 'd \<Rightarrow> memory \<times> 'd" where
  "go_on_read dk 0 a m d = (m, d)"
| "go_on_read dk (Suc n) a m d =
     (let (ax, d) = in_word dk 0x1f0 d in go_on_read dk n (a + 2) (store16 a ax m) d)"

definition rd_disk_m_32 :: "'d disk \<Rightarrow> u32 \<Rightarrow> u32 \<Rightarrow> u32 \<Rightarrow> memory \<Rightarrow> 'd \<Rightarrow> kerror + (memory \<times> 'd)" where
  "rd_disk_m_32 dk sector a count m d =
     (let di = ucast count :: u16
      in sbind (returns (not_ready dk (out_bytes dk (disk_command sector di) d))) (\<lambda>d.
           Inr (go_on_read dk (loop_count (low (di * 256) count)) a m d)))"

text \<open>The routine of the boot sector counts in \<^verbatim>\<open>cx\<close> and addresses with \<^verbatim>\<open>bx\<close>.\<close>

fun go_read_loop :: "'d disk \<Rightarrow> nat \<Rightarrow> u16 \<Rightarrow> memory \<Rightarrow> 'd \<Rightarrow> memory \<times> 'd" where
  "go_read_loop dk 0 bx m d = (m, d)"
| "go_read_loop dk (Suc n) bx m d =
     (let (ax, d) = in_word dk 0x1f0 d in go_read_loop dk n (bx + 2) (store16 (ucast bx) ax m) d)"

definition rd_disk_m_16 :: "'d disk \<Rightarrow> u32 \<Rightarrow> u16 \<Rightarrow> u16 \<Rightarrow> memory \<Rightarrow> 'd \<Rightarrow> kerror + (memory \<times> 'd)" where
  "rd_disk_m_16 dk sector bx cx m d =
     (let di = cx
      in sbind (returns (not_ready dk (out_bytes dk (disk_command sector di) d))) (\<lambda>d.
           Inr (go_read_loop dk (loop_count (di * 256)) bx m d)))"

text \<open>The state of the disk after some reads of the status port, and the words it delivers.\<close>

fun polled :: "'d disk \<Rightarrow> nat \<Rightarrow> 'd \<Rightarrow> 'd" where
  "polled dk 0 d = d"
| "polled dk (Suc k) d = polled dk k (snd (in_byte dk 0x1f7 d))"

definition busy :: "'d disk \<Rightarrow> 'd \<Rightarrow> bool" where
  "busy dk d \<longleftrightarrow> fst (in_byte dk 0x1f7 d) AND 0x88 \<noteq> 0x08"

fun disk_word :: "'d disk \<Rightarrow> 'd \<Rightarrow> nat \<Rightarrow> u16" where
  "disk_word dk d 0 = fst (in_word dk 0x1f0 d)"
| "disk_word dk d (Suc i) = disk_word dk (snd (in_word dk 0x1f0 d)) i"

text \<open>
  A disk with 28-bit sector numbers and the words \<open>content\<close>: after the command to read \<open>n\<close> sectors from
  sector \<open>lba\<close> on it becomes ready and then delivers their words one after the other without a break.
\<close>

definition ata_disk :: "'d disk \<Rightarrow> (nat \<Rightarrow> u16) \<Rightarrow> 'd \<Rightarrow> bool" where
  "ata_disk dk content d \<longleftrightarrow>
     (\<forall>lba n. lba < 2 ^ 28 \<longrightarrow> 0 < n \<longrightarrow> n < 256 \<longrightarrow>
        (let d = out_bytes dk [(0x1f2, of_nat n), (0x1f3, of_nat lba), (0x1f4, of_nat (lba div 2 ^ 8)),
               (0x1f5, of_nat (lba div 2 ^ 16)), (0x1f6, of_nat (lba div 2 ^ 24) OR 0xe0), (0x1f7, 0x20)] d
         in \<exists>k. (\<forall>j < k. busy dk (polled dk j d)) \<and> \<not> busy dk (polled dk k d) \<and>
              (\<forall>i < n * 256. disk_word dk (polled dk (Suc k) d) i = content (lba * 256 + i))))"

lemma not_ready_ends:
  "\<forall>j < k. busy dk (polled dk j d) \<Longrightarrow> \<not> busy dk (polled dk k d) \<Longrightarrow> not_ready dk d = Some (polled dk (Suc k) d)"
proof (induction k arbitrary: d)
  case 0
  then show ?case by (subst not_ready.simps) (simp add: busy_def split_beta)
next
  case (Suc k)
  have "busy dk (polled dk j (snd (in_byte dk 0x1f7 d)))" if "j < k" for j using Suc.prems(1) that by (auto dest: spec [of _ "Suc j"])
  moreover have "busy dk d" using Suc.prems(1) by (auto dest: spec [of _ 0])
  ultimately show ?case
    using Suc.IH [of "snd (in_byte dk 0x1f7 d)"] Suc.prems(2)
    by (subst not_ready.simps) (simp add: busy_def split_beta)
qed

lemma not_ready_Some: "not_ready dk d = Some d' \<Longrightarrow> \<exists>k. \<not> busy dk (polled dk k d)"
proof (rule not_ready.raw_induct [where P = "\<lambda>dk d d'. \<exists>k. \<not> busy dk (polled dk k d)"])
  fix loop and dk :: "'a disk" and d d'
  assume IH: "\<And>dk d d'. loop dk d = Some d' \<Longrightarrow> \<exists>k. \<not> busy dk (polled dk k d)"
    and eq: "(let (al, d) = in_byte dk 0x1f7 d in if al AND 0x88 = 0x08 then Some d else loop dk d) = Some d'"
  show "\<exists>k. \<not> busy dk (polled dk k d)"
  proof (cases "busy dk d")
    case True
    then have "loop dk (snd (in_byte dk 0x1f7 d)) = Some d'" using eq by (auto simp: busy_def split_beta)
    then obtain k where "\<not> busy dk (polled dk k (snd (in_byte dk 0x1f7 d)))" using IH by blast
    then show ?thesis by (intro exI [of _ "Suc k"]) simp
  qed (auto intro: exI [of _ 0])
qed

lemma go_on_read_insw: "fst (go_on_read dk n a m d) = insw (disk_word dk d) a n m"
  by (induction n arbitrary: a m d) (simp_all add: split_beta)

lemma go_read_loop_same: "unat bx + 2 * n \<le> 65536 \<Longrightarrow> go_read_loop dk n bx m d = go_on_read dk n (ucast bx) m d"
proof (induction n arbitrary: bx m d)
  case (Suc n)
  show ?case
  proof (cases n)
    case (Suc k)
    then have u: "unat (bx + 2) = unat bx + 2" using Suc.prems by (simp add: unat_word_ariths)
    then have "(ucast (bx + 2) :: u32) = ucast bx + 2"
      using unsigned_less [of bx, where ?'a = nat] by (simp add: word_unat_eq_iff unat_ucast_u16 unat_word_ariths)
    then show ?thesis using Suc.IH [of "bx + 2"] Suc.prems u by (simp add: split_beta)
  qed (simp add: split_beta)
qed simp

lemma nth_outsw: "i < n \<Longrightarrow> outsw port a n m ! i = (port, load16 m (a + of_nat (2 * i)))"
  by (induction n arbitrary: a i) (auto simp: less_Suc_eq_0_disj algebra_simps)

lemma load16_insw:
  "i < n \<Longrightarrow> 2 * n \<le> 2 ^ 32 \<Longrightarrow> load16 (insw ws a n m) (a + of_nat (2 * i)) = ws i"
  using insw_outsw [of n 0 a ws m] nth_outsw [of i n 0 a "insw ws a n m"] by simp

text \<open>The bytes of a sector number.\<close>

lemma word_and_f: "k < 16 \<Longrightarrow> (of_nat k AND 0x0f :: u8) = of_nat k"
proof -
  assume "k < 16"
  then have "take_bit 4 k = k" by (simp add: take_bit_nat_eq_self)
  then have "bit k n \<Longrightarrow> n < 4" for n by (metis bit_take_bit_iff)
  then show ?thesis by (intro bit_word_eqI) (auto simp: bit_simps mask_bits)
qed

lemma disk_command_bytes:
  assumes "lba < 2 ^ 28"
  shows "disk_command (of_nat lba) (of_nat n) = [(0x1f2, of_nat n), (0x1f3, of_nat lba), (0x1f4, of_nat (lba div 2 ^ 8)),
    (0x1f5, of_nat (lba div 2 ^ 16)), (0x1f6, of_nat (lba div 2 ^ 24) OR 0xe0), (0x1f7, 0x20)]"
proof -
  have u: "(ucast (of_nat k :: u32) :: u8) = of_nat k" "(ucast (of_nat k :: u16) :: u8) = of_nat k" for k
    by (rule bit_word_eqI; simp add: bit_simps)+
  have "drop_bit 8 (of_nat k :: u32) = of_nat (k div 2 ^ 8)" if "k < 2 ^ 28" for k
    using that by (simp add: drop_bit_eq_div word_unat_eq_iff unat_div)
  from this [of lba] this [of "lba div 2 ^ 8"] this [of "lba div 2 ^ 16"] assms
  have w: "drop_bit 8 (of_nat lba :: u32) = of_nat (lba div 2 ^ 8)"
    "drop_bit 8 (of_nat (lba div 2 ^ 8) :: u32) = of_nat (lba div 2 ^ 16)"
    "drop_bit 8 (of_nat (lba div 2 ^ 16) :: u32) = of_nat (lba div 2 ^ 24)"
    by (simp_all add: div_mult2_eq [symmetric] less_imp_diff_less le_less_trans [OF div_le_dividend])
  have "lba div 2 ^ 24 < 16" using assms by (simp add: less_mult_imp_div_less)
  then have "(of_nat (lba div 2 ^ 24) AND 0x0f :: u8) = of_nat (lba div 2 ^ 24)"
    by (rule word_and_f)
  then show ?thesis
    unfolding disk_command_def Let_def w u by simp
qed

lemma rd_disk_eq:
  assumes "0 < n" "n < 256"
  shows "rd_disk_m_32 dk sector a (of_nat n) m d =
      sbind (returns (not_ready dk (out_bytes dk (disk_command sector (of_nat n)) d))) (\<lambda>d. Inr (go_on_read dk (n * 256) a m d))"
    and "rd_disk_m_16 dk sector bx (of_nat n) m d =
      sbind (returns (not_ready dk (out_bytes dk (disk_command sector (of_nat n)) d))) (\<lambda>d. Inr (go_read_loop dk (n * 256) bx m d))"
proof -
  have c: "(ucast (of_nat n :: u32) :: u16) = of_nat n" by (rule bit_word_eqI) (simp add: bit_simps)
  have n: "unat (of_nat n * 256 :: u16) = n * 256" using assms(2) by (simp add: unat_word_ariths unat_of_nat)
  have "low (of_nat n * 256) (of_nat n :: u32) = ucast (of_nat n * 256 :: u16)"
    using assms(2) by (intro low_small) simp
  then have "loop_count (low (of_nat n * 256) (of_nat n :: u32)) = n * 256" "loop_count (of_nat n * 256 :: u16) = n * 256"
    using n assms(1) by (auto simp: loop_count_def unat_ucast_u16 word_unat_eq_iff)
  then show "rd_disk_m_32 dk sector a (of_nat n) m d =
      sbind (returns (not_ready dk (out_bytes dk (disk_command sector (of_nat n)) d))) (\<lambda>d. Inr (go_on_read dk (n * 256) a m d))"
    "rd_disk_m_16 dk sector bx (of_nat n) m d =
      sbind (returns (not_ready dk (out_bytes dk (disk_command sector (of_nat n)) d))) (\<lambda>d. Inr (go_read_loop dk (n * 256) bx m d))"
    by (simp_all add: rd_disk_m_32_def rd_disk_m_16_def c)
qed

lemma go_on_read_other: "b \<notin> span a k \<Longrightarrow> k = 2 * n \<Longrightarrow> fst (go_on_read dk n a m d) b = m b"
  unfolding go_on_read_insw by (intro insw_other) (auto simp: mem_span_iff)

lemma rd_disk_other:
  assumes "rd_disk_m_32 dk sector a (of_nat n) m d = Inr (m', d')" "0 < n" "n < 256" "b \<notin> span a (n * 512)"
  shows "m' b = m b"
proof -
  obtain e where "go_on_read dk (n * 256) a m e = (m', d')"
    using assms(1) rd_disk_eq(1) [OF assms(2,3), of dk sector a m d] by (auto simp: sbind_Inr_iff)
  then show ?thesis using go_on_read_other [OF assms(4), of "n * 256" dk m e] by simp
qed

lemma ata_sectors_read:
  fixes dk :: "'d disk"
  assumes "lba < 2 ^ 28" "0 < n" "n < 256" and ata: "ata_disk dk content d"
  shows "\<exists>m' d'. rd_disk_m_32 dk (of_nat lba) a (of_nat n) m d = Inr (m', d') \<and>
    (\<forall>i < n * 256. load16 m' (a + of_nat (2 * i)) = content (lba * 256 + i)) \<and> (\<forall>b. b \<notin> span a (n * 512) \<longrightarrow> m' b = m b)"
proof -
  let ?d = "out_bytes dk (disk_command (of_nat lba) (of_nat n)) d"
  obtain k where k: "not_ready dk ?d = Some (polled dk (Suc k) ?d)"
    "\<forall>i < n * 256. disk_word dk (polled dk (Suc k) ?d) i = content (lba * 256 + i)"
    using ata [unfolded ata_disk_def Let_def, rule_format, OF assms(1-3)] not_ready_ends [of _ dk ?d]
    unfolding disk_command_bytes [OF assms(1)] by blast
  define m' where "m' = fst (go_on_read dk (n * 256) a m (polled dk (Suc k) ?d))"
  have m': "m' = insw (disk_word dk (polled dk (Suc k) ?d)) a (n * 256) m" by (simp add: m'_def go_on_read_insw)
  have "load16 m' (a + of_nat (2 * i)) = content (lba * 256 + i)" if "i < n * 256" for i
    using load16_insw [OF that, of "disk_word dk (polled dk (Suc k) ?d)" a m] k(2) that assms(3) by (simp add: m')
  moreover have "m' b = m b" if "b \<notin> span a (n * 512)" for b
    unfolding m'_def by (rule go_on_read_other [OF that]) simp
  ultimately show ?thesis using k(1) by (simp add: rd_disk_eq [OF assms(2,3)] m'_def) (metis prod.collapse)
qed


section \<open>The kernel's ELF file\<close>

definition KERNEL_BIN_BASE_ADDR :: u32 where "KERNEL_BIN_BASE_ADDR = 0x70000"
definition PT_NULL :: u8 where "PT_NULL = 0"

fun rep_movsb :: "nat \<Rightarrow> u32 \<Rightarrow> u32 \<Rightarrow> memory \<Rightarrow> memory" where
  "rep_movsb 0 dst src m = m"
| "rep_movsb (Suc n) dst src m = rep_movsb n (dst + 1) (src + 1) (m(dst := m src))"

text \<open>\<^verbatim>\<open>mem_cpy\<close> takes its three arguments from the stack, which is not part of this memory.\<close>

definition mem_cpy :: "u32 \<Rightarrow> u32 \<Rightarrow> u32 \<Rightarrow> memory \<Rightarrow> memory" where
  "mem_cpy dst src sz m = rep_movsb (unat sz) dst src m"

fun each_segment :: "nat \<Rightarrow> u32 \<Rightarrow> u32 \<Rightarrow> memory \<Rightarrow> memory" where
  "each_segment 0 step hdr m = m"
| "each_segment (Suc n) step hdr m =
     (let m = (if m (hdr + 0) = PT_NULL then m
               else mem_cpy (load32 m (hdr + 8)) (load32 m (hdr + 4) + KERNEL_BIN_BASE_ADDR) (load32 m (hdr + 16)) m)
      in each_segment n step (hdr + step) m)"

definition kernel_init :: "memory \<Rightarrow> memory" where
  "kernel_init m =
     (let step = ucast (load16 m (KERNEL_BIN_BASE_ADDR + 42));
          hdr = load32 m (KERNEL_BIN_BASE_ADDR + 28);
          hdr = hdr + KERNEL_BIN_BASE_ADDR;
          count = ucast (load16 m (KERNEL_BIN_BASE_ADDR + 44)) :: u32
      in each_segment (loop_count count) step hdr m)"

text \<open>The program headers of the file, and what the loader uses of them.\<close>

definition seg_count :: "memory \<Rightarrow> nat" where
  "seg_count m = unat (load16 m (KERNEL_BIN_BASE_ADDR + 44))"

definition seg_hdr :: "memory \<Rightarrow> nat \<Rightarrow> u32" where
  "seg_hdr m i = load32 m (KERNEL_BIN_BASE_ADDR + 28) + KERNEL_BIN_BASE_ADDR +
     of_nat i * ucast (load16 m (KERNEL_BIN_BASE_ADDR + 42))"

definition seg_used :: "memory \<Rightarrow> nat \<Rightarrow> bool" where
  "seg_used m i \<longleftrightarrow> i < seg_count m \<and> m (seg_hdr m i) \<noteq> PT_NULL"

definition seg_len :: "memory \<Rightarrow> nat \<Rightarrow> nat" where
  "seg_len m i = unat (load32 m (seg_hdr m i + 16))"

definition seg_src :: "memory \<Rightarrow> nat \<Rightarrow> u32" where
  "seg_src m i = load32 m (seg_hdr m i + 4) + KERNEL_BIN_BASE_ADDR"

definition seg_dst :: "memory \<Rightarrow> nat \<Rightarrow> u32" where
  "seg_dst m i = load32 m (seg_hdr m i + 8)"

definition seg_to :: "memory \<Rightarrow> nat \<Rightarrow> u32 set" where
  "seg_to m i = span (seg_dst m i) (seg_len m i)"

definition seg_from :: "memory \<Rightarrow> nat \<Rightarrow> u32 set" where
  "seg_from m i = span (seg_src m i) (seg_len m i)"

text \<open>A file with segments whose destinations are apart from each other and from the file.\<close>

definition kernel_file :: "memory \<Rightarrow> bool" where
  "kernel_file m \<longleftrightarrow> 0 < seg_count m \<and>
     (\<forall>i j. seg_used m i \<longrightarrow> j < seg_count m \<longrightarrow>
        seg_to m i \<inter> span (seg_hdr m j) 20 = {} \<and>
        (seg_used m j \<longrightarrow> seg_to m i \<inter> seg_from m j = {} \<and> (i \<noteq> j \<longrightarrow> seg_to m i \<inter> seg_to m j = {})))"

lemma rep_movsb_memcpy: "rep_movsb (unat sz) dst src m = memcpy_loop m dst src sz"
proof (induction "unat sz" arbitrary: m dst src sz)
  case 0
  then show ?case by (subst memcpy_loop.simps) (simp add: unat_eq_0)
next
  case (Suc n)
  then have nz: "sz \<noteq> 0" by auto
  then have "n = unat (sz - 1)" using Suc.hyps(2) by (simp add: unat_minus_one)
  with Suc show ?case using nz by (subst memcpy_loop.simps) (simp flip: Suc.hyps(2))
qed

lemma mem_cpy_bytes:
  "span dst (unat sz) \<inter> span src (unat sz) = {} \<Longrightarrow>
   mem_cpy dst src sz m = write_bytes m dst (read_bytes m src (unat sz))"
  unfolding mem_cpy_def rep_movsb_memcpy by (intro memcpy_loop_eq disjoint_forward_copy_ok)

text \<open>The loop over the segments from the \<open>i\<close>-th on, in a memory in which the file is still as it was in \<open>m\<close>.\<close>

definition file_kept :: "memory \<Rightarrow> memory \<Rightarrow> bool" where
  "file_kept m m' \<longleftrightarrow> (\<forall>j < seg_count m. \<forall>a \<in> span (seg_hdr m j) 20. m' a = m a) \<and>
     (\<forall>j. seg_used m j \<longrightarrow> (\<forall>a \<in> seg_from m j. m' a = m a))"

lemma segment_copied:
  assumes "kernel_file m" "file_kept m m'" "i < seg_count m"
  defines "m1 \<equiv> if seg_used m i then write_bytes m' (seg_dst m i) (read_bytes m (seg_src m i) (seg_len m i)) else m'"
  shows "each_segment (Suc k) (ucast (load16 m (KERNEL_BIN_BASE_ADDR + 42))) (seg_hdr m i) m' =
    each_segment k (ucast (load16 m (KERNEL_BIN_BASE_ADDR + 42))) (seg_hdr m (Suc i)) m1" and "file_kept m m1"
proof -
  have hdr: "m' (seg_hdr m i + of_nat j) = m (seg_hdr m i + of_nat j)" if "j < 20" for j
  proof -
    have "seg_hdr m i + of_nat j \<in> span (seg_hdr m i) 20" unfolding mem_span_iff using that by blast
    then show ?thesis using assms(2,3) unfolding file_kept_def by blast
  qed
  from hdr [of 0] hdr [of 4] hdr [of 5] hdr [of 6] hdr [of 7] hdr [of 8] hdr [of 9] hdr [of 10] hdr [of 11]
    hdr [of 16] hdr [of 17] hdr [of 18] hdr [of 19]
  have h: "m' (seg_hdr m i) = m (seg_hdr m i)" "load32 m' (seg_hdr m i + 8) = seg_dst m i"
    "load32 m' (seg_hdr m i + 4) + KERNEL_BIN_BASE_ADDR = seg_src m i" "unat (load32 m' (seg_hdr m i + 16)) = seg_len m i"
    by (simp_all add: seg_dst_def seg_src_def seg_len_def load32_def add.assoc)
  have "mem_cpy (seg_dst m i) (seg_src m i) (load32 m' (seg_hdr m i + 16)) m' = m1" if "seg_used m i"
  proof -
    have "read_bytes m' (seg_src m i) (seg_len m i) = read_bytes m (seg_src m i) (seg_len m i)"
      using assms(2) that by (intro read_bytes_cong) (auto simp: file_kept_def seg_from_def)
    moreover have "seg_to m i \<inter> seg_from m i = {}" using assms(1,3) that unfolding kernel_file_def by blast
    ultimately show ?thesis using that h(4) by (subst mem_cpy_bytes) (simp_all add: m1_def seg_to_def seg_from_def)
  qed
  then show "each_segment (Suc k) (ucast (load16 m (KERNEL_BIN_BASE_ADDR + 42))) (seg_hdr m i) m' =
    each_segment k (ucast (load16 m (KERNEL_BIN_BASE_ADDR + 42))) (seg_hdr m (Suc i)) m1"
    using assms(3) h by (auto simp: seg_used_def m1_def seg_hdr_def algebra_simps)
  have "m1 a = m' a" if "seg_used m i \<Longrightarrow> a \<notin> seg_to m i" for a using that by (simp add: m1_def seg_to_def)
  moreover have "a \<notin> seg_to m i" if "seg_used m i" "j < seg_count m" "a \<in> span (seg_hdr m j) 20" for a j
    using assms(1) that unfolding kernel_file_def by blast
  moreover have "a \<notin> seg_to m i" if "seg_used m i" "seg_used m j" "a \<in> seg_from m j" for a j
    using assms(1) that unfolding kernel_file_def seg_used_def by blast
  ultimately show "file_kept m m1" using assms(2) unfolding file_kept_def by metis
qed

lemma segments_copied:
  assumes "kernel_file m"
  shows "file_kept m m' \<Longrightarrow> i + k \<le> seg_count m \<Longrightarrow>
    (let m'' = each_segment k (ucast (load16 m (KERNEL_BIN_BASE_ADDR + 42))) (seg_hdr m i) m' in
      (\<forall>j. seg_used m j \<longrightarrow> i \<le> j \<longrightarrow> j < i + k \<longrightarrow>
         read_bytes m'' (seg_dst m j) (seg_len m j) = read_bytes m (seg_src m j) (seg_len m j)) \<and>
      (\<forall>a. (\<forall>j. seg_used m j \<longrightarrow> i \<le> j \<longrightarrow> j < i + k \<longrightarrow> a \<notin> seg_to m j) \<longrightarrow> m'' a = m' a))"
proof (induction k arbitrary: i m')
  case (Suc k)
  define m1 where
    "m1 = (if seg_used m i then write_bytes m' (seg_dst m i) (read_bytes m (seg_src m i) (seg_len m i)) else m')"
  define m'' where "m'' = each_segment (Suc k) (ucast (load16 m (KERNEL_BIN_BASE_ADDR + 42))) (seg_hdr m i) m'"
  have i: "i < seg_count m" using Suc.prems(2) by simp
  note step = segment_copied [OF assms Suc.prems(1) i, folded m1_def]
  have IH: "\<And>j. seg_used m j \<Longrightarrow> Suc i \<le> j \<Longrightarrow> j < i + Suc k \<Longrightarrow>
      read_bytes m'' (seg_dst m j) (seg_len m j) = read_bytes m (seg_src m j) (seg_len m j)"
    "\<And>a. (\<And>j. seg_used m j \<Longrightarrow> Suc i \<le> j \<Longrightarrow> j < i + Suc k \<Longrightarrow> a \<notin> seg_to m j) \<Longrightarrow> m'' a = m1 a"
    using Suc.IH [OF step(2), of "Suc i"] Suc.prems(2) by (auto simp: m''_def step(1) Let_def simp del: each_segment.simps)
  have "read_bytes m'' (seg_dst m i) (seg_len m i) = read_bytes m (seg_src m i) (seg_len m i)" if u: "seg_used m i"
  proof -
    have "read_bytes m'' (seg_dst m i) (seg_len m i) = read_bytes m1 (seg_dst m i) (seg_len m i)"
    proof (rule read_bytes_cong, rule IH(2))
      fix a j
      assume "a \<in> span (seg_dst m i) (seg_len m i)" "seg_used m j" "Suc i \<le> j"
      then show "a \<notin> seg_to m j"
        using assms u unfolding kernel_file_def seg_used_def by (metis Suc_n_not_le_n disjoint_iff seg_to_def)
    qed
    then show ?thesis
      using u read_write_bytes [of "read_bytes m (seg_src m i) (seg_len m i)" m' "seg_dst m i"]
        unsigned_less [of "load32 m (seg_hdr m i + 16)", where ?'a = nat]
      by (simp add: m1_def seg_len_def)
  qed
  moreover have "m1 a = m' a" if "seg_used m i \<Longrightarrow> a \<notin> seg_to m i" for a using that by (simp add: m1_def seg_to_def)
  ultimately show ?case using IH unfolding m''_def [symmetric] Let_def by (metis add_Suc_right le_antisym not_less_eq_eq le_add1 less_add_Suc1 le_SucI le_refl)
qed simp

lemma kernel_init_all:
  assumes "kernel_file m"
  shows "kernel_init m = each_segment (seg_count m) (ucast (load16 m (KERNEL_BIN_BASE_ADDR + 42))) (seg_hdr m 0) m"
proof -
  have "loop_count (ucast (load16 m (KERNEL_BIN_BASE_ADDR + 44)) :: u32) = seg_count m"
    using assms by (auto simp: kernel_file_def loop_count_def seg_count_def unat_ucast_u16 word_unat_eq_iff simp del: span_numeral)
  then show ?thesis by (simp add: kernel_init_def Let_def seg_hdr_def)
qed

lemma kernel_init_segment:
  assumes "kernel_file m" "seg_used m i"
  shows "read_bytes (kernel_init m) (seg_dst m i) (seg_len m i) = read_bytes m (seg_src m i) (seg_len m i)"
  using segments_copied [OF assms(1), of m 0 "seg_count m"] assms(2)
  by (simp add: kernel_init_all [OF assms(1)] Let_def seg_used_def file_kept_def)

lemma kernel_init_other:
  assumes "kernel_file m" "\<forall>i. seg_used m i \<longrightarrow> a \<notin> seg_to m i"
  shows "kernel_init m a = m a"
  using segments_copied [OF assms(1), of m 0 "seg_count m"] assms(2)
  by (simp add: kernel_init_all [OF assms(1)] Let_def file_kept_def)


section \<open>Protected mode\<close>

text \<open>The descriptors of \<^verbatim>\<open>boot.inc\<close>: their upper words, and a descriptor from its two words.\<close>

definition DESC_CODE_HIGH4 :: u32 where
  "DESC_CODE_HIGH4 = push_bit 23 1 + push_bit 22 1 + push_bit 16 0xf + push_bit 15 1 + push_bit 12 1 + push_bit 8 8"

definition DESC_DATA_HIGH4 :: u32 where
  "DESC_DATA_HIGH4 = push_bit 23 1 + push_bit 22 1 + push_bit 16 0xf + push_bit 15 1 + push_bit 12 1 + push_bit 8 2"

definition DESC_VIDEO_HIGH4 :: u32 where
  "DESC_VIDEO_HIGH4 = push_bit 23 1 + push_bit 22 1 + push_bit 15 1 + push_bit 12 1 + push_bit 8 2 + 0x0b"

definition desc_of :: "u32 \<Rightarrow> u32 \<Rightarrow> gdt_desc" where
  "desc_of lo hi = \<lparr>limit_low_word = ucast lo, base_low_word = ucast (drop_bit 16 lo), base_mid_byte = ucast hi,
     attr_low_byte = ucast (drop_bit 8 hi), limit_high_attr_high = ucast (drop_bit 16 hi), base_high_byte = ucast (drop_bit 24 hi)\<rparr>"

text \<open>The table in the loader's image, at the address at which the kernel finds it, and the operand's limit.\<close>

definition loader_gdt :: "'a tss_machine_scheme \<Rightarrow> bool" where
  "loader_gdt s \<longleftrightarrow> gdt s (GDT_BASE + 0xc0000000) = desc_of 0 0 \<and>
     gdt s (GDT_BASE + 0xc0000000 + 8) = desc_of 0x0000ffff DESC_CODE_HIGH4 \<and>
     gdt s (GDT_BASE + 0xc0000000 + 16) = desc_of 0x0000ffff DESC_DATA_HIGH4 \<and>
     gdt s (GDT_BASE + 0xc0000000 + 24) = desc_of 0x80000007 DESC_VIDEO_HIGH4"

text \<open>
  The registers that the way into protected mode sets: the first control register, the selectors, and the
  port behind which the gate of address line 20 is.
\<close>

record boot_cpu =
  cr0 :: u32
  port_92 :: u8
  seg_cs :: u16
  seg_ds :: u16
  seg_es :: u16
  seg_ss :: u16
  seg_fs :: u16
  seg_gs :: u16

definition GDT_LIMIT :: u64 where "GDT_LIMIT = 4 * 8 - 1"
definition LOADER_BASE_ADDR :: u16 where "LOADER_BASE_ADDR = 0x900"
definition LOADER_STACK_TOP :: u32 where "LOADER_STACK_TOP = ucast LOADER_BASE_ADDR"
definition SELECTOR_CODE :: u16 where "SELECTOR_CODE = push_bit 3 1 + 0 + 0"
definition SELECTOR_DATA :: u16 where "SELECTOR_DATA = push_bit 3 2 + 0 + 0"
definition SELECTOR_VIDEO :: u16 where "SELECTOR_VIDEO = push_bit 3 3 + 0 + 0"
definition KERNEL_START_SECTOR :: u32 where "KERNEL_START_SECTOR = 9"

definition show_at :: "u16 \<Rightarrow> u8 \<Rightarrow> 'a machine_scheme \<Rightarrow> 'a machine_scheme" where
  "show_at pos c s = s\<lparr>screen := (screen s)\<lparr>vram := (vram (screen s))(pos := c)\<rparr>\<rparr>"

text \<open>From \<^verbatim>\<open>.mem_get_ok\<close> to the jump into protected mode: the gate, the descriptor table and the flag in \<^verbatim>\<open>cr0\<close>.\<close>

definition enter_protected_mode :: "boot_cpu \<Rightarrow> 'a tss_machine_scheme \<Rightarrow> boot_cpu \<times> 'a tss_machine_scheme" where
  "enter_protected_mode b s =
     (let b = b\<lparr>port_92 := port_92 b OR 2\<rparr>;
          s = s\<lparr>gdtr := GDT_LIMIT OR push_bit 16 (ucast GDT_BASE)\<rparr>;
          b = b\<lparr>cr0 := cr0 b OR 1\<rparr>
      in (b\<lparr>seg_cs := SELECTOR_CODE\<rparr>, s))"

text \<open>
  The code in protected mode. Its stack pointer and the operand of \<^verbatim>\<open>lgdt\<close> are moved to the kernel's half of
  the addresses before paging is turned on; the table itself is at one place in memory all the time.
\<close>

definition p_mode_start ::
  "'d disk \<Rightarrow> 'd \<Rightarrow> boot_cpu \<Rightarrow> 'a thread_machine_scheme \<Rightarrow> kerror + ('d \<times> boot_cpu \<times> 'a thread_machine_scheme)" where
  "p_mode_start dk d b s =
     (let b = b\<lparr>seg_ds := SELECTOR_DATA, seg_es := SELECTOR_DATA, seg_ss := SELECTOR_DATA\<rparr>;
          s = s\<lparr>esp := LOADER_STACK_TOP\<rparr>;
          b = b\<lparr>seg_gs := SELECTOR_VIDEO\<rparr>;
          s = show_at 160 0x50 s
      in sbind (rd_disk_m_32 dk KERNEL_START_SECTOR KERNEL_BIN_BASE_ADDR 200 (mem s) d) (\<lambda>(m, d).
         let s = s\<lparr>mem := m\<rparr>;
             s = s\<lparr>phys := setup_page (phys s)\<rparr>;
             gdt_ptr = gdtr s;
             video = table_base gdt_ptr + 0xc0000000 + 0x18;
             s = s\<lparr>gdt := (gdt s)(video := (gdt s video)\<lparr>base_high_byte := base_high_byte (gdt s video) OR 0xc0\<rparr>)\<rparr>;
             gdt_ptr = ucast (table_limit gdt_ptr) OR push_bit 16 (ucast (table_base gdt_ptr + 0xc0000000));
             s = s\<lparr>esp := esp s + 0xc0000000\<rparr>;
             s = s\<lparr>cr3 := PAGE_DIR_TABLE_POS\<rparr>;
             b = b\<lparr>cr0 := cr0 b OR push_bit 31 1\<rparr>;
             s = s\<lparr>gdtr := gdt_ptr\<rparr>;
             b = b\<lparr>seg_gs := SELECTOR_VIDEO\<rparr>;
             s = show_at 320 0x56 s;
             b = b\<lparr>seg_cs := SELECTOR_CODE\<rparr>;
             s = s\<lparr>mem := kernel_init (mem s)\<rparr>;
             s = s\<lparr>esp := 0xc009f000\<rparr>
         in Inr (d, b, s)))"

text \<open>The loader as a whole: the size of the memory in real mode, then protected mode.\<close>

definition loader ::
  "('r regs_scheme \<Rightarrow> bool \<times> 'r regs_scheme) \<Rightarrow> 'd disk \<Rightarrow> 'r regs_scheme \<Rightarrow> 'd \<Rightarrow> boot_cpu \<Rightarrow> 'a thread_machine_scheme
     \<Rightarrow> kerror + ('d \<times> boot_cpu \<times> 'a thread_machine_scheme)" where
  "loader int15 dk r d b s =
     sbind (loader_start int15 (r\<lparr>ram := mem s\<rparr>)) (\<lambda>r.
       case enter_protected_mode b (s\<lparr>mem := ram r\<rparr>) of (b, s) \<Rightarrow> p_mode_start dk d b s)"

text \<open>
  The boot sector: all segments at that of the code but the one of the screen, the stack below the code; \<open>int10\<close> is the
  BIOS call that clears the screen, with its registers; then come the letters with their colours and the
  loader's four sectors.
\<close>

definition LOADER_START_SECTOR :: u32 where "LOADER_START_SECTOR = 2"

definition mbr_start ::
  "(u16 \<Rightarrow> u16 \<Rightarrow> u16 \<Rightarrow> u16 \<Rightarrow> 'a thread_machine_scheme \<Rightarrow> 'a thread_machine_scheme) \<Rightarrow> 'd disk \<Rightarrow> 'd \<Rightarrow> boot_cpu
     \<Rightarrow> 'a thread_machine_scheme \<Rightarrow> kerror + ('d \<times> boot_cpu \<times> 'a thread_machine_scheme)" where
  "mbr_start int10 dk d b s =
     (let b = b\<lparr>seg_ds := seg_cs b, seg_es := seg_cs b, seg_ss := seg_cs b, seg_fs := seg_cs b\<rparr>;
          s = s\<lparr>esp := 0x7c00\<rparr>;
          b = b\<lparr>seg_gs := 0xb800\<rparr>;
          s = int10 0x0600 0x0700 0 0x184f s;
          s = fold (\<lambda>(i, c). show_at (2 * i + 1) 0xa4 \<circ> show_at (2 * i) c)
                [(0, 0x4c), (1, 0x4f), (2, 0x56), (3, 0x45), (4, 0x36), (5, 0x20), (6, 0x4f), (7, 0x53)] s
      in sbind (rd_disk_m_16 dk LOADER_START_SECTOR LOADER_BASE_ADDR 4 (mem s) d) (\<lambda>(m, d). Inr (d, b, s\<lparr>mem := m\<rparr>)))"

lemma mem_show_at: "mem (show_at p c s) = mem s"
  by (simp add: show_at_def)

lemma mbr_loads_loader:
  assumes "ata_disk dk content d" "\<And>s. mem (int10 0x0600 0x0700 0 0x184f s) = mem s"
  shows "\<exists>d' b' s'. mbr_start int10 dk d b s = Inr (d', b', s') \<and>
    (\<forall>i < 1024. load16 (mem s') (0x900 + of_nat (2 * i)) = content (512 + i)) \<and>
    (\<forall>a. a \<notin> span 0x900 2048 \<longrightarrow> mem s' a = mem s a)"
proof -
  have "rd_disk_m_16 dk 2 0x900 4 (mem s) d = rd_disk_m_32 dk 2 0x900 4 (mem s) d"
    using rd_disk_eq [of 4 dk 2] by (simp add: go_read_loop_same)
  moreover obtain m' d' where "rd_disk_m_32 dk 2 0x900 4 (mem s) d = Inr (m', d')"
    "\<forall>i < 1024. load16 m' (0x900 + of_nat (2 * i)) = content (512 + i)" "\<forall>b. b \<notin> span 0x900 2048 \<longrightarrow> m' b = mem s b"
    using ata_sectors_read [of 2 4 dk content d "0x900" "mem s"] assms(1) by (auto simp del: span_numeral)
  ultimately show ?thesis
    using assms(2) by (simp add: mbr_start_def Let_def mem_show_at LOADER_START_SECTOR_def LOADER_BASE_ADDR_def del: span_numeral)
qed

text \<open>Protected mode with paging, address line 20 open, and the selectors of the loader's segments.\<close>

definition kernel_mode :: "boot_cpu \<Rightarrow> bool" where
  "kernel_mode b \<longleftrightarrow> bit (cr0 b) 0 \<and> bit (cr0 b) 31 \<and> bit (port_92 b) 1 \<and> seg_cs b = ucast SELECTOR_K_CODE \<and>
     list_all (\<lambda>r. r b = ucast SELECTOR_K_DATA) [seg_ds, seg_es, seg_ss] \<and> seg_gs b = ucast SELECTOR_K_GS"

text \<open>The state at the end, in terms of the one at the start.\<close>

lemma loader_gdtr:
  "table_base (GDT_LIMIT OR push_bit 16 (ucast GDT_BASE)) = 0x903"
  "table_limit (GDT_LIMIT OR push_bit 16 (ucast GDT_BASE)) = 31"
  by (simp_all add: table_base_def table_limit_def GDT_LIMIT_def GDT_BASE_def)

lemma loader_runs:
  fixes s :: "'a thread_machine_scheme"
  assumes "rd_disk_m_32 dk 9 0x70000 200 (mem s) d = Inr (m, d')"
  obtains b' s' where "(case enter_protected_mode b s of (b, s) \<Rightarrow> p_mode_start dk d b s) = Inr (d', b', s')"
    "mem s' = kernel_init m" "phys s' = setup_page (phys s)"
    "cr3 s' = PAGE_DIR_TABLE_POS" "esp s' = 0xc009f000" "gdtr s' = 31 OR push_bit 16 0xc0000903"
    "gdt s' = (gdt s)(0xc000091b := (gdt s 0xc000091b)\<lparr>base_high_byte := base_high_byte (gdt s 0xc000091b) OR 0xc0\<rparr>)"
    "kernel_mode b'"
  using assms
  by (simp add: enter_protected_mode_def p_mode_start_def show_at_def Let_def KERNEL_START_SECTOR_def KERNEL_BIN_BASE_ADDR_def
      loader_gdtr SELECTOR_CODE_def SELECTOR_DATA_def SELECTOR_VIDEO_def kernel_mode_def SELECTOR_K_CODE_def
      SELECTOR_K_DATA_def SELECTOR_K_GS_def bit_simps)

lemma loader_start_size: "loader_start int15 r = Inr r' \<Longrightarrow> load32 (ram r') 0xb00 = edx r'"
  by (auto simp: loader_start_def Let_def sbind_Inr_iff load32_store32 total_mem_bytes_def split: prod.splits)


section \<open>Examples\<close>

text \<open>A BIOS that reports 32 MB in two areas, and one that knows only the second call.\<close>

definition demo_bios :: "regs \<Rightarrow> bool \<times> regs" where
  "demo_bios r =
     (let di = ucast (ucast (edi r) :: u16); (start, len) = (if ebx r = 0 then (0, 0xa0000) else (0x100000, 0x1f00000))
      in (eax r \<noteq> 0xe820, r\<lparr>ecx := 20, ebx := if ebx r = 0 then 1 else 0, ram := store32 (di + 8) len (store32 di start (ram r))\<rparr>))"

definition demo_old_bios :: "regs \<Rightarrow> bool \<times> regs" where
  "demo_old_bios r = (ucast (eax r) \<noteq> (0xe801 :: u16), r\<lparr>eax := 0x3c00, ebx := 0x100\<rparr>)"

definition demo_regs :: regs where
  "demo_regs = \<lparr>eax = 0, ebx = 0, ecx = 0, edx = 0, esi = 0, edi = 0, ram = \<lambda>_. 0\<rparr>"

theorem memory_map_not_read_witness:
  "\<exists>r'. loader_start demo_bios demo_regs = Inr r' \<and> all_free_pages (load32 (ram r') 0xb00) = 13012"
proof -
  have "e820_bios demo_bios (\<lambda>b. if b = 0 then 2 else if b = 1 then 1 else 0)"
    by (auto simp: e820_bios_def demo_bios_def Let_def store32_def)
  moreover have "load16 (ram demo_regs) ards_nr = 0" "area_end (ram demo_regs) a = 0" for a
    by (simp_all add: demo_regs_def load16_def area_end_def load32_def)
  ultimately show ?thesis
    using memory_map_not_read [of demo_bios "\<lambda>b. if b = 0 then 2 else if b = 1 then 1 else 0" 2 demo_regs] by auto
qed

theorem memory_size_fallbacks_witness:
  "(\<exists>r'. loader_start demo_old_bios demo_regs = Inr r' \<and> load32 (ram r') 0xb00 = 0x2000000) \<and>
   loader_start (\<lambda>r. (eax r \<noteq> 0x8800, r)) demo_regs = Inl Hang"
proof
  define r where "r = demo_regs\<lparr>ebx := 0, edx := 0x534d4150, edi := low (ucast ards_buf) (edi demo_regs), eax := 0xe820, ecx := 20\<rparr>"
  have "demo_old_bios r = (True, r\<lparr>eax := 0x3c00, ebx := 0x100\<rparr>)" by (simp add: demo_old_bios_def r_def)
  from memory_size_fallbacks [of demo_old_bios demo_regs, OF this [unfolded r_def] prod.collapse [symmetric]]
  show "\<exists>r'. loader_start demo_old_bios demo_regs = Inr r' \<and> load32 (ram r') 0xb00 = 0x2000000"
    by (simp add: demo_old_bios_def)
  show "loader_start (\<lambda>r. (eax r \<noteq> 0x8800, r)) demo_regs = Inl Hang"
    using memory_size_fallbacks [of "\<lambda>r. (eax r \<noteq> 0x8800, r)" demo_regs] by (simp add: low_def)
qed

text \<open>A disk that is busy for two reads of its status: its registers, the reads left and the position.\<close>

definition demo_disk :: "(nat \<Rightarrow> u16) \<Rightarrow> ((u16 \<Rightarrow> u8) \<times> nat \<times> nat) disk" where
  "demo_disk content = \<lparr>
     out_byte = \<lambda>port b (g, k, pos). if port = 0x1f7
       then (g, 2, (unat (g 0x1f3) + 2 ^ 8 * unat (g 0x1f4) + 2 ^ 16 * unat (g 0x1f5) + 2 ^ 24 * unat (g 0x1f6 AND 0xf)) * 256)
       else (g(port := b), k, pos),
     in_byte = \<lambda>port (g, k, pos). (if k = 0 then 0x08 else 0x80, g, k - 1, pos),
     in_word = \<lambda>port (g, k, pos). (content pos, g, k, Suc pos)\<rparr>"

lemma lba_of_bytes:
  assumes "lba < 2 ^ 28"
  shows "unat (of_nat lba :: u8) + 2 ^ 8 * unat (of_nat (lba div 2 ^ 8) :: u8) + 2 ^ 16 * unat (of_nat (lba div 2 ^ 16) :: u8) +
    2 ^ 24 * unat ((of_nat (lba div 2 ^ 24) OR 0xe0) AND 0xf :: u8) = lba"
proof -
  have "lba div 2 ^ 24 < 16" using assms by (simp add: less_mult_imp_div_less)
  then have top: "unat ((of_nat (lba div 2 ^ 24) OR 0xe0) AND 0xf :: u8) = lba div 2 ^ 24"
    using word_and_f [of "lba div 2 ^ 24"] by (simp add: bit.conj_disj_distrib2 unat_of_nat)
  have "lba mod 2 ^ 16 = 2 ^ 8 * (lba div 2 ^ 8 mod 2 ^ 8) + lba mod 2 ^ 8"
    "lba mod 2 ^ 24 = 2 ^ 16 * (lba div 2 ^ 16 mod 2 ^ 8) + lba mod 2 ^ 16"
    using mod_mult2_eq [of lba "2 ^ 8" "2 ^ 8"] mod_mult2_eq [of lba "2 ^ 16" "2 ^ 8"] by simp_all
  then show ?thesis using mod_mult_div_eq [of lba "2 ^ 24"] unfolding top by (simp add: unat_of_nat)
qed

lemma demo_disk_ata: "ata_disk (demo_disk content) content d"
proof -
  have word: "disk_word (demo_disk content) (g, k, pos) i = content (pos + i)" for g k pos i
    by (induction i arbitrary: pos) (simp_all add: demo_disk_def)
  have poll: "polled (demo_disk content) j (g, k, pos) = (g, k - j, pos)" for g k pos j
    by (induction j arbitrary: k) (simp_all add: demo_disk_def)
  have busy: "busy (demo_disk content) (g, k, pos) \<longleftrightarrow> k \<noteq> 0" for g k pos
    by (simp add: busy_def demo_disk_def)
  show ?thesis unfolding ata_disk_def
  proof (intro allI impI)
    fix lba n :: nat
    assume "lba < 2 ^ 28"
    define e where "e = out_bytes (demo_disk content) [(0x1f2, of_nat n), (0x1f3, of_nat lba), (0x1f4, of_nat (lba div 2 ^ 8)),
      (0x1f5, of_nat (lba div 2 ^ 16)), (0x1f6, of_nat (lba div 2 ^ 24) OR 0xe0), (0x1f7, 0x20)] d"
    obtain g where e: "e = (g, 2, lba * 256)"
      using lba_of_bytes [OF \<open>lba < 2 ^ 28\<close>] by (cases d) (simp add: e_def out_bytes_def demo_disk_def)
    have "\<forall>j < 2. busy (demo_disk content) (polled (demo_disk content) j e)"
      "\<not> busy (demo_disk content) (polled (demo_disk content) 2 e)"
      "polled (demo_disk content) (Suc 2) e = (g, 0, lba * 256)"
      by (simp_all add: e busy poll del: polled.simps)
    then show "let d = out_bytes (demo_disk content) [(0x1f2, of_nat n), (0x1f3, of_nat lba), (0x1f4, of_nat (lba div 2 ^ 8)),
      (0x1f5, of_nat (lba div 2 ^ 16)), (0x1f6, of_nat (lba div 2 ^ 24) OR 0xe0), (0x1f7, 0x20)] d in
      \<exists>k. (\<forall>j < k. busy (demo_disk content) (polled (demo_disk content) j d)) \<and> \<not> busy (demo_disk content) (polled (demo_disk content) k d) \<and>
        (\<forall>i < n * 256. disk_word (demo_disk content) (polled (demo_disk content) (Suc k) d) i = content (lba * 256 + i))"
      unfolding e_def [symmetric] Let_def by (intro exI [of _ 2] conjI) (simp_all add: word del: polled.simps)
  qed
qed

text \<open>A file with one segment of four bytes for address 0xc0001500 and an empty program header.\<close>

definition demo_image :: memory where
  "demo_image = (\<lambda>_. 0)(0x7001c := 52, 0x7002a := 32, 0x7002c := 2, 0x70034 := 1, 0x70039 := 1, 0x7003d := 0x15,
     0x7003f := 0xc0, 0x70044 := 4, 0x70100 := 1, 0x70101 := 2, 0x70102 := 3, 0x70103 := 4)"

lemma demo_image_parts:
  "seg_count demo_image = 2" "seg_used demo_image i \<longleftrightarrow> i = 0" "seg_hdr demo_image 0 = 0x70034" "seg_hdr demo_image 1 = 0x70054"
  "seg_dst demo_image 0 = 0xc0001500" "seg_src demo_image 0 = 0x70100" "seg_len demo_image 0 = 4"
proof -
  show c: "seg_count demo_image = 2" and h: "seg_hdr demo_image 0 = 0x70034" "seg_hdr demo_image 1 = 0x70054"
    by (simp_all add: seg_count_def seg_hdr_def demo_image_def load16_def load32_def KERNEL_BIN_BASE_ADDR_def)
  have w: "load32 demo_image 0x7003c = 0xc0001500" "load32 demo_image 0x70038 = 0x100" "load32 demo_image 0x70044 = 4"
    by (simp_all add: load32_def demo_image_def)
  show "seg_dst demo_image 0 = 0xc0001500" "seg_src demo_image 0 = 0x70100" "seg_len demo_image 0 = 4"
    by (simp_all add: h w seg_dst_def seg_src_def seg_len_def KERNEL_BIN_BASE_ADDR_def)
  have "i < 2 \<longleftrightarrow> i = 0 \<or> i = 1" by linarith
  then show "seg_used demo_image i \<longleftrightarrow> i = 0"
    using c h by (auto simp: seg_used_def PT_NULL_def) (simp_all add: demo_image_def)
qed

lemma demo_kernel_file: "kernel_file demo_image"
proof -
  have "j < 2 \<longleftrightarrow> j = 0 \<or> j = 1" for j :: nat by linarith
  moreover have "span 0xc0001500 4 \<inter> span p 20 = {}" "span 0xc0001500 4 \<inter> span p 4 = {}" if "p < 0x80000" for p
    using that by (simp_all add: span_apart word_less_nat_alt del: span_numeral)
  ultimately show ?thesis
    by (auto simp: kernel_file_def demo_image_parts demo_image_parts(4) [simplified] seg_to_def seg_from_def simp del: span_numeral)
qed


text \<open>The sectors of the disk that hold this file, and a machine that has just entered protected mode.\<close>

definition demo_sectors :: "nat \<Rightarrow> u16" where
  "demo_sectors i = load16 demo_image (0x70000 + of_nat (2 * (i - 9 * 256)))"


lemma load16_eq_iff: "load16 m a = load16 m' a \<longleftrightarrow> m a = m' a \<and> m (a + 1) = m' (a + 1)"
proof
  assume eq: "load16 m a = load16 m' a"
  have "ucast (load16 n a) = n a" "ucast (drop_bit 8 (load16 n a)) = n (a + 1)" for n
    by (rule bit_word_eqI; auto simp: load16_def bit_simps dest: bit_imp_le_length)+
  with eq show "m a = m' a \<and> m (a + 1) = m' (a + 1)" by metis
qed (simp add: load16_def)

lemma demo_image_read:
  "\<exists>d'. rd_disk_m_32 (demo_disk demo_sectors) 9 0x70000 200 (\<lambda>_. 0) (\<lambda>_. 0, 0, 0) = Inr (demo_image, d')"
proof -
  obtain m' d' where r: "rd_disk_m_32 (demo_disk demo_sectors) 9 0x70000 200 (\<lambda>_. 0) (\<lambda>_. 0, 0, 0) = Inr (m', d')"
    "\<And>i. i < 200 * 256 \<Longrightarrow> load16 m' (0x70000 + of_nat (2 * i)) = demo_sectors (9 * 256 + i)"
    "\<And>b. b \<notin> span 0x70000 (200 * 512) \<Longrightarrow> m' b = 0"
    using ata_sectors_read [of 9 200 "demo_disk demo_sectors" demo_sectors "(\<lambda>_. 0, 0, 0)" "0x70000" "\<lambda>_. 0"]
      demo_disk_ata [of demo_sectors "(\<lambda>_. 0, 0, 0)"]
    by (auto simp del: span_numeral)
  have "m' a = demo_image a" for a
  proof (cases "a \<in> span 0x70000 (200 * 512)")
    case True
    then obtain i where i: "i < 200 * 512" "a = 0x70000 + of_nat i" unfolding mem_span_iff by blast
    obtain j where j: "i = 2 * j \<or> i = 2 * j + 1" by (metis mod_mult_div_eq add.commute add_0 not_mod_2_eq_0_eq_1)
    then have "j < 200 * 256" using i(1) by linarith
    then have "m' (0x70000 + of_nat (2 * j)) = demo_image (0x70000 + of_nat (2 * j)) \<and>
      m' (0x70000 + of_nat (2 * j) + 1) = demo_image (0x70000 + of_nat (2 * j) + 1)"
      unfolding load16_eq_iff [symmetric] using r(2) [of j] by (simp only: demo_sectors_def diff_add_inverse)
    moreover have "a = 0x70000 + of_nat (2 * j) \<or> a = 0x70000 + of_nat (2 * j) + 1"
      using j by (auto simp: i(2))
    ultimately show ?thesis by metis
  next
    case False
    have "demo_image a = 0" if "unat a < 0x70000 \<or> 0x70104 \<le> unat a"
      using that by (auto simp: demo_image_def)
    moreover have "unat a < 0x70000 \<or> 0x70104 \<le> unat a"
    proof (rule ccontr)
      assume "\<not> (unat a < 0x70000 \<or> 0x70104 \<le> unat a)"
      then have "unat a - 0x70000 < 200 * 512" "a = 0x70000 + of_nat (unat a - 0x70000)" by (linarith, simp add: of_nat_diff)
      then show False using False unfolding mem_span_iff by blast
    qed
    ultimately show ?thesis using r(3) [OF False] by simp
  qed
  then show ?thesis using r(1) by (metis ext)
qed

definition demo_loading :: thread_machine where
  "demo_loading = demo_threads\<lparr>mem := \<lambda>_. 0, phys := \<lambda>_. 0, gdt := (\<lambda>_. desc_of 0 0)(0xc000090b := desc_of 0xffff DESC_CODE_HIGH4,
     0xc0000913 := desc_of 0xffff DESC_DATA_HIGH4, 0xc000091b := desc_of 0x80000007 DESC_VIDEO_HIGH4)\<rparr>"

definition demo_boot_cpu :: boot_cpu where
  "demo_boot_cpu = \<lparr>cr0 = 0x60000010, port_92 = 0, seg_cs = 0, seg_ds = 0, seg_es = 0, seg_ss = 0, seg_fs = 0, seg_gs = 0xb800\<rparr>"

text \<open>A machine with four gigabytes, whose size wraps around to 0.\<close>

definition demo_big_bios :: "regs \<Rightarrow> bool \<times> regs" where
  "demo_big_bios r = (ucast (eax r) \<noteq> (0xe801 :: u16), r\<lparr>eax := 0x3c00, ebx := 0xff00\<rparr>)"

lemma demo_size_told: "\<exists>r'. loader_start demo_big_bios demo_regs = Inr r' \<and> ram r' = (\<lambda>_. 0) \<and> edx r' = 0"
  by (simp add: loader_start_def e820_mem_get_loop.simps e820_failed_so_try_e801_def demo_big_bios_def demo_regs_def
      mul_cx_def mul_ecx_def low_def store32_def Let_def fun_eq_iff)

lemma demo_told:
  obtains r' d' where "loader_start demo_big_bios (demo_regs\<lparr>ram := mem demo_loading\<rparr>) = Inr r'"
    "rd_disk_m_32 (demo_disk demo_sectors) 9 0x70000 200 (ram r') (\<lambda>_. 0, 0, 0) = Inr (demo_image, d')" "loader_gdt demo_loading"
proof -
  obtain r' where r': "loader_start demo_big_bios (demo_regs\<lparr>ram := mem demo_loading\<rparr>) = Inr r'" "ram r' = (\<lambda>_. 0)"
    using demo_size_told by (auto simp: demo_loading_def demo_regs_def)
  obtain d' where "rd_disk_m_32 (demo_disk demo_sectors) 9 0x70000 200 (ram r') (\<lambda>_. 0, 0, 0) = Inr (demo_image, d')"
    using demo_image_read by (auto simp: r'(2))
  moreover have "loader_gdt demo_loading" by (simp add: loader_gdt_def GDT_BASE_def demo_loading_def)
  ultimately show thesis by (rule that [OF r'(1)])
qed

lemma demo_loaded:
  "\<exists>d' b' s'. loader demo_big_bios (demo_disk demo_sectors) demo_regs (\<lambda>_. 0, 0, 0) demo_boot_cpu demo_loading = Inr (d', b', s')"
proof -
  obtain r' d' where r: "loader_start demo_big_bios (demo_regs\<lparr>ram := mem demo_loading\<rparr>) = Inr r'"
    "rd_disk_m_32 (demo_disk demo_sectors) 9 0x70000 200 (ram r') (\<lambda>_. 0, 0, 0) = Inr (demo_image, d')"
    by (rule demo_told)
  have "rd_disk_m_32 (demo_disk demo_sectors) 9 0x70000 200 (mem (demo_loading\<lparr>mem := ram r'\<rparr>)) (\<lambda>_. 0, 0, 0) = Inr (demo_image, d')"
    using r(2) by simp
  from loader_runs [OF this, of demo_boot_cpu] obtain b' s' where
    "(case enter_protected_mode demo_boot_cpu (demo_loading\<lparr>mem := ram r'\<rparr>) of
       (b, s) \<Rightarrow> p_mode_start (demo_disk demo_sectors) (\<lambda>_. 0, 0, 0) b s) = Inr (d', b', s')"
    by metis
  then have "loader demo_big_bios (demo_disk demo_sectors) demo_regs (\<lambda>_. 0, 0, 0) demo_boot_cpu demo_loading = Inr (d', b', s')"
    using r(1) by (simp add: loader_def)
  then show ?thesis by blast
qed


end
