(* ===== verification/Usermode.thy ===== *)
theory Usermode
  imports Loader Entry
begin

text \<open>
  The programs of \<^verbatim>\<open>src/kernel/main.c\<close> as the processor runs them: in user mode and in the address space
  of their process. What the processor checks when a segment register is loaded and when a port is
  used, and how it finds the handler of an interrupt through the register that \<^verbatim>\<open>lidt\<close> loads, are the
  steps of the Intel manual. The lemmas show that the programs may not print, and that in the
  address space of a process the processor does not find the interrupt table, since \<^verbatim>\<open>idt_init\<close> loads
  its address without the upper half, which only the kernel's page directory makes good.
\<close>

section \<open>Privileges\<close>

text \<open>
  The privilege level of a descriptor; whether a data segment may be loaded; and whether ports may be
  used, the task state segment having no map of permitted ports.
\<close>

definition dpl :: "gdt_desc \<Rightarrow> nat" where
  "dpl d = unat (drop_bit 5 (attr_low_byte d) AND 3)"

definition segment_loads :: "cpu \<Rightarrow> u16 \<Rightarrow> gdt_desc \<Rightarrow> bool" where
  "segment_loads c sel d \<longleftrightarrow> unat (cpl c) \<le> dpl d \<and> unat (sel AND 3) \<le> dpl d"

definition ports_allowed :: "cpu \<Rightarrow> bool" where
  "ports_allowed c \<longleftrightarrow> unat (cpl c) \<le> unat (drop_bit 12 (r_eflags c) AND 3)"

text \<open>
  \<^verbatim>\<open>put_char\<close> by whoever runs it: it loads \<^verbatim>\<open>gs\<close> and uses the ports of the cursor, or else the processor
  raises exception 13, a general protection fault. An exception is the left value.
\<close>

definition put_char_by :: "cpu \<Rightarrow> u8 \<Rightarrow> 'a tss_machine_scheme \<Rightarrow> nat + 'a tss_machine_scheme" where
  "put_char_by c cl s =
     (let d = gdt s (desc_addr_of (table_base (gdtr s)) (ucast SELECTOR_VIDEO))
      in if \<not> segment_loads c SELECTOR_VIDEO d then Inl 13
         else if \<not> ports_allowed c then Inl 13
         else Inr (s\<lparr>screen := put_char cl (screen s)\<rparr>))"

fun put_str_by :: "cpu \<Rightarrow> u8 list \<Rightarrow> 'a tss_machine_scheme \<Rightarrow> nat + 'a tss_machine_scheme" where
  "put_str_by c [] s = Inr s"
| "put_str_by c (cl # cs) s = (if cl = 0 then Inr s else sbind (put_char_by c cl s) (put_str_by c cs))"

section \<open>main.c: the user programs\<close>

text \<open>The programs after \<open>n\<close> rounds of their endless loops.\<close>

fun u_prog_a :: "cpu \<Rightarrow> nat \<Rightarrow> 'a kernel_machine_scheme \<Rightarrow> nat + 'a kernel_machine_scheme" where
  "u_prog_a c 0 s = put_str_by c (lit ''start _prog_a...'' @ [10]) s"
| "u_prog_a c (Suc n) s = sbind (u_prog_a c n s) (\<lambda>s. Inr (s\<lparr>test_var_a := test_var_a s + 1\<rparr>))"

fun u_prog_b :: "cpu \<Rightarrow> nat \<Rightarrow> 'a kernel_machine_scheme \<Rightarrow> nat + 'a kernel_machine_scheme" where
  "u_prog_b c 0 s = put_str_by c (lit ''start _prog_b...'' @ [10]) s"
| "u_prog_b c (Suc n) s = sbind (u_prog_b c n s) (\<lambda>s. Inr (s\<lparr>test_var_b := test_var_b s + 1\<rparr>))"

section \<open>Finding the handler of an interrupt\<close>

text \<open>
  The processor reads the eight bytes of the gate through the page tables. When it cannot, it takes the
  page fault, then the double fault; when there is no gate for that either, it shuts down.
\<close>

datatype delivery = Handler nat | Shutdown

definition gate_mapped :: "u64 \<Rightarrow> u32 \<Rightarrow> (u32 \<Rightarrow> u32) \<Rightarrow> nat \<Rightarrow> bool" where
  "gate_mapped operand dir ph v \<longleftrightarrow>
     list_all (\<lambda>i. translate dir ph (table_base operand + of_nat (8 * v + i)) \<noteq> None) [0..<8]"

definition deliver :: "u64 \<Rightarrow> u32 \<Rightarrow> (u32 \<Rightarrow> u32) \<Rightarrow> nat \<Rightarrow> delivery" where
  "deliver operand dir ph v =
     (if gate_mapped operand dir ph v then Handler v
      else if v \<noteq> 14 \<and> v \<noteq> 8 \<and> gate_mapped operand dir ph 14 then Handler 14
      else if v \<noteq> 8 \<and> gate_mapped operand dir ph 8 then Handler 8
      else Shutdown)"

text \<open>The operand with the whole address of the table, as \<^verbatim>\<open>tss_init\<close> builds that of \<^verbatim>\<open>lgdt\<close>.\<close>

definition whole_operand :: "u32 \<Rightarrow> u64" where
  "whole_operand idt_addr = (of_nat (8 * IDT_DESC_CNT) - 1) OR push_bit 16 (ucast idt_addr)"

section \<open>The programs fault\<close>

text \<open>The loader's video segment belongs to privilege level 0.\<close>

lemma loader_video:
  fixes s :: "'a thread_machine_scheme"
  assumes "loader_gdt s" "loader int15 dk r d b s = Inr (d', b', s')"
  shows "dpl (gdt (tss_init a s') (desc_addr_of (table_base (gdtr (tss_init a s'))) (ucast SELECTOR_VIDEO))) = 0"
proof -
  obtain r' m d1 where "loader_start int15 (r\<lparr>ram := mem s\<rparr>) = Inr r'"
    "rd_disk_m_32 dk 9 0x70000 200 (mem (s\<lparr>mem := ram r'\<rparr>)) d = Inr (m, d1)"
    and run: "(case enter_protected_mode b (s\<lparr>mem := ram r'\<rparr>) of (b, s) \<Rightarrow> p_mode_start dk d b s) = Inr (d', b', s')"
    using assms(2)
    by (auto simp: loader_def sbind_Inr_iff enter_protected_mode_def p_mode_start_def Let_def show_at_def
        KERNEL_START_SECTOR_def KERNEL_BIN_BASE_ADDR_def)
  from loader_runs [OF this(2), of b] run
  have "gdt s' = (gdt s)(0xc000091b := (gdt s 0xc000091b)\<lparr>base_high_byte := base_high_byte (gdt s 0xc000091b) OR 0xc0\<rparr>)"
    by auto
  moreover have "gdt s 0xc000091b = desc_of 0x80000007 DESC_VIDEO_HIGH4"
    using assms(1) by (simp add: loader_gdt_def GDT_BASE_def)
  moreover have "desc_addr_of (table_base (gdtr (tss_init a s'))) (ucast SELECTOR_VIDEO) = 0xc000091b"
    by (simp add: tss_init_def Let_def gdt_operand_def table_base_def desc_addr_of_def SELECTOR_VIDEO_def put_str_def)
  moreover have "gdt (tss_init a s') 0xc000091b = gdt s' 0xc000091b"
    by (simp add: tss_init_def Let_def put_str_def)
  ultimately show ?thesis by (simp add: dpl_def desc_of_def DESC_VIDEO_HIGH4_def)
qed

lemma put_str_by_kernel:
  "cpl c = 0 \<Longrightarrow> put_str_by c cs s = Inr (put_str cs s)"
  by (induction cs arbitrary: s)
     (simp_all add: put_str_def put_char_by_def segment_loads_def ports_allowed_def SELECTOR_VIDEO_def)

lemma u_prog_kernel:
  assumes "cpl c = 0"
  shows "u_prog_a c n s = Inr ((put_str (lit ''start _prog_a...'' @ [10]) s)\<lparr>test_var_a := test_var_a s + of_nat n\<rparr>)"
    "u_prog_b c n s = Inr ((put_str (lit ''start _prog_b...'' @ [10]) s)\<lparr>test_var_b := test_var_b s + of_nat n\<rparr>)"
  by (induction n) (simp_all add: put_str_by_kernel [OF assms] put_str_def algebra_simps)

lemma u_prog_user:
  assumes "cpl c = 3" "dpl (gdt s (desc_addr_of (table_base (gdtr s)) (ucast SELECTOR_VIDEO))) = 0"
  shows "u_prog_a c n s = Inl 13" "u_prog_b c n s = Inl 13"
proof -
  have "put_str_by c (cl # cs) s = Inl 13" if "cl \<noteq> 0" for cl cs
    using assms that by (simp add: put_char_by_def segment_loads_def)
  then show "u_prog_a c n s = Inl 13" "u_prog_b c n s = Inl 13"
    by (induction n) (simp_all add: lit_def)
qed

text \<open>
  C17: with the descriptor table that the loader and \<^verbatim>\<open>tss_init\<close> leave, both user programs, with the registers that
  \<^verbatim>\<open>start_process\<close> gives them, raise a general protection fault before they have printed a character or
  counted once, for any number of rounds; in the kernel's mode they would print their line and count
  the rounds.
\<close>

theorem user_programs_fault:
  fixes s0 :: "'a thread_machine_scheme" and s :: "'b kernel_machine_scheme"
  assumes "loader_gdt s0" "loader int15 dk r d b s0 = Inr (d', b', s1)"
    "gdt s = gdt (tss_init a s1)" "gdtr s = gdtr (tss_init a s1)"
  shows "u_prog_a (user_start filename c) n s = Inl 13 \<and> u_prog_b (user_start filename c) n s = Inl 13 \<and>
    (cpl c = 0 \<longrightarrow>
      u_prog_a c n s = Inr ((put_str (lit ''start _prog_a...'' @ [10]) s)\<lparr>test_var_a := test_var_a s + of_nat n\<rparr>) \<and>
      u_prog_b c n s = Inr ((put_str (lit ''start _prog_b...'' @ [10]) s)\<lparr>test_var_b := test_var_b s + of_nat n\<rparr>))"
proof -
  have "cpl (user_start filename c) = 3" by (simp add: cpl_def user_start_def)
  note user = u_prog_user [OF this, of s n]
  then show ?thesis using loader_video [OF assms(1,2), of a] assms(3,4) u_prog_kernel [of c n s] by simp
qed

section \<open>Processes have no interrupt table\<close>

text \<open>The address that \<^verbatim>\<open>idt_init\<close> loads is in the first 64 KB, so all gates are in the first 4 MB.\<close>

lemma idt_base_low:
  assumes "k < 0x408"
  shows "unat (table_base (idt_operand a) + of_nat k) = unat (a AND 0xffff) + k" "unat (a AND 0xffff) + k < 0x20000"
proof -
  have "a AND 0xffff \<le> 0xffff" by (rule word_and_le1)
  then have lt: "unat (a AND 0xffff) \<le> 0xffff" by (simp add: word_le_nat_alt)
  then show "unat (a AND 0xffff) + k < 0x20000" using assms by simp
  moreover have "unat (of_nat k :: u32) = k" using assms by (intro unat_of_nat_u32) simp
  ultimately show "unat (table_base (idt_operand a) + of_nat k) = unat (a AND 0xffff) + k"
    using conjunct1 [OF conjunct2 [OF lidt_base_truncated [of a]]] unat_add_lem [of "a AND 0xffff" "of_nat k :: u32"] by simp
qed

lemma idt_base_pde: "k < 0x408 \<Longrightarrow> unat (PDE_IDX (table_base (idt_operand a) + of_nat k)) = 0"
  using idt_base_low [of k a] by (simp add: unat_PDE_IDX)

text \<open>The kernel's directory maps the first megabyte to itself, and there the table is found.\<close>

lemma unat_PTE_IDX: "unat (PTE_IDX v) = unat v div 2 ^ 12 mod 2 ^ 10"
proof -
  have "PTE_IDX v = take_bit 10 (drop_bit 12 v)" by (rule bit_word_eqI) (auto simp: bit_simps)
  then show ?thesis by (simp add: take_bit_eq_mod drop_bit_eq_div unat_mod unat_div)
qed

lemma setup_page_identity:
  assumes "unat v < 0x100000"
  shows "translate PAGE_DIR_TABLE_POS (setup_page ph) v = Some v"
proof -
  define x where "x = push_bit 12 (PTE_IDX v)"
  have k: "unat (PTE_IDX v) < 256" and "unat (PDE_IDX v) = 0"
    using assms by (simp_all add: unat_PTE_IDX unat_PDE_IDX less_mult_imp_div_less)
  then have "pde_addr PAGE_DIR_TABLE_POS v = dir_slot 0"
    by (simp add: pde_addr_def dir_slot_def frame_def PAGE_DIR_TABLE_POS_def unat_eq_0)
  then have pde: "setup_page ph (pde_addr PAGE_DIR_TABLE_POS v) = 0x101007" by (simp add: setup_page_slot)
  then have "pte_addr PAGE_DIR_TABLE_POS (setup_page ph) v = dir_slot (1024 + unat (PTE_IDX v))"
    by (simp add: pte_addr_def frame_def dir_slot_def PAGE_DIR_TABLE_POS_def algebra_simps)
  then have pte: "setup_page ph (pte_addr PAGE_DIR_TABLE_POS (setup_page ph) v) = 7 + x"
    using k by (simp add: setup_page_slot x_def push_bit_eq_mult algebra_simps)
  have bx: "bit x n \<longleftrightarrow> bit v n \<and> 12 \<le> n" for n
  proof -
    have "take_bit 20 v = v" using assms by (simp add: take_bit_eq_mod word_unat_eq_iff unat_mod)
    then have "bit v n \<Longrightarrow> n < 20" by (metis bit_take_bit_iff)
    then show ?thesis by (auto simp: x_def bit_simps)
  qed
  have "7 + x = 7 OR x" by (rule disjunctive_add) (auto simp: bx mask_bits)
  then have "present (7 + x)" "frame (7 + x) = x"
    by (simp_all add: present_iff bit_simps) (rule bit_word_eqI, auto simp: frame_def bit_simps bx mask_bits)
  moreover have "x + (v AND 0xfff) = x OR (v AND 0xfff)"
    by (rule disjunctive_add) (auto simp: bx bit_simps mask_bits)
  moreover have "x OR (v AND 0xfff) = v" by (rule bit_word_eqI) (auto simp: bx bit_simps mask_bits)
  moreover have "present 0x101007" by (simp add: present_def)
  ultimately show ?thesis by (simp add: translate_def pde pte)
qed

lemma deliver_shutdown:
  assumes "\<And>k. k < 0x408 \<Longrightarrow> translate dir ph (table_base operand + of_nat k) = None" "v \<le> 0x80"
  shows "deliver operand dir ph v = Shutdown"
proof -
  have "\<not> gate_mapped operand dir ph w" if "w \<le> 0x80" for w
    using assms(1) [of "8 * w"] that by (simp add: gate_mapped_def upt_conv_Cons)
  then show ?thesis using assms(2) by (simp add: deliver_def)
qed

lemma deliver_found:
  assumes "\<And>k. k < 0x408 \<Longrightarrow> translate dir ph (table_base operand + of_nat k) \<noteq> None" "v \<le> 0x80"
  shows "deliver operand dir ph v = Handler v"
proof -
  have "translate dir ph (table_base operand + of_nat (8 * v + i)) \<noteq> None" if "i < 8" for i
    by (rule assms(1)) (use assms(2) that in linarith)
  then have "gate_mapped operand dir ph v" unfolding gate_mapped_def list_all_iff by auto
  then show ?thesis by (simp add: deliver_def)
qed

lemma kernel_finds_table:
  assumes "v \<le> 0x80"
  shows "deliver (idt_operand a) PAGE_DIR_TABLE_POS (setup_page ph) v = Handler v"
proof (rule deliver_found [OF _ assms])
  fix k :: nat
  assume "k < 0x408"
  then have "unat (table_base (idt_operand a) + of_nat k) < 0x100000" using idt_base_low [of k a] by simp
  then show "translate PAGE_DIR_TABLE_POS (setup_page ph) (table_base (idt_operand a) + of_nat k) \<noteq> None"
    by (simp add: setup_page_identity)
qed

lemma whole_base: "table_base (whole_operand a) = a"
  unfolding table_base_def whole_operand_def
  by (rule bit_word_eqI) (auto simp: bit_simps IDT_DESC_CNT_def)

text \<open>A new process's address space, once it is activated.\<close>

lemma process_activated:
  fixes s :: "'a process_machine_scheme"
  assumes "system_at s i (25 + n) ts as" "length nm < 16"
  obtains s' s'' where "process_execute filename nm s = Ret s' ()" "process_activate (heap_page s i) s' = Inr s''"
    "phys s'' = phys s'" "\<And>v. unat (PDE_IDX v) < 768 \<Longrightarrow> translate (cr3 s'') (phys s') v = None"
    "\<And>v. 768 \<le> unat (PDE_IDX v) \<Longrightarrow> unat (PDE_IDX v) < 1023 \<Longrightarrow> translate (cr3 s'') (phys s') v = maps s' v"
proof -
  let ?p = "heap_page s i" and ?d = "heap_page s (i + 24)"
  obtain s' f where s': "process_execute filename nm s = Ret s' ()" "system_at s' (i + 25) n (ts @ [?p]) (as @ [?p])"
    "same_setting s s'" "tasks s' = (tasks s)(?p := fresh_process ?p nm (next_pid s + 1) (heap_page s (i + 1)) ?d)"
    "maps s' ?d = Some f"
    "\<forall>v. 768 \<le> unat (PDE_IDX v) \<and> unat (PDE_IDX v) < 1023 \<longrightarrow> translate f (phys s') v = maps s' v"
    "\<forall>v. unat (PDE_IDX v) < 768 \<longrightarrow> translate f (phys s') v = None"
    using process_execute_system [OF assms, of filename] by blast
  note h = system_atD(1) [OF s'(2)]
  have "i < bm_cap (heap_bits s')" "i + 24 < bm_cap (heap_bits s')" using heap_atD(2) [OF h] by simp_all
  note pages = this [THEN heap_pageD(1) [OF heap_atD(1) [OF h]]] this(2) [THEN heap_pageD(2) [OF heap_atD(1) [OF h]]]
  have eq: "heap_page s' j = heap_page s j" for j using same_settingD(2) [OF s'(3)] .
  have "page_at s' ?d f" using s'(5) pages(3) frame_and_fff [OF pages(3)] by (auto simp: page_at_def translate_def eq split: if_splits)
  moreover have "self_mapped (cr3 s') (phys s')" using heap_atD(1) [OF h] by (simp add: heap_ok_def tables_ok_def)
  ultimately have "addr_v2p ?d s' = Inr f" by (intro addr_v2p_page)
  then have f: "space_of s' ?p = Inr f" using pages(2) by (simp add: space_of_def s'(4) fresh_process_def eq)
  have "?p \<noteq> 0" using pages(1) by (simp add: eq)
  from that [OF s'(1) process_activate_eq [OF this f]] show thesis using s'(6,7) by simp
qed


section \<open>The boot of a machine\<close>

text \<open>The kernel's state after the loader's descriptor table has been extended.\<close>

theorem user_programs_fault_witness:
  "\<exists>s :: kernel_machine. u_prog_a (user_start 0xc0001a00 demo_cpu) 5 s = Inl 13"
proof -
  obtain d' b' s' where l: "loader demo_big_bios (demo_disk demo_sectors) demo_regs (\<lambda>_. 0, 0, 0) demo_boot_cpu demo_loading =
      Inr (d', b', s')"
    using demo_loaded by blast
  have g: "loader_gdt demo_loading" by (simp add: loader_gdt_def GDT_BASE_def demo_loading_def)
  define s where "s = demo_kernel\<lparr>gdt := gdt (tss_init 0xc0008000 s'), gdtr := gdtr (tss_init 0xc0008000 s')\<rparr>"
  have "gdt s = gdt (tss_init 0xc0008000 s')" "gdtr s = gdtr (tss_init 0xc0008000 s')" by (simp_all add: s_def)
  from user_programs_fault [OF g l this, of "0xc0001a00" demo_cpu 5] show ?thesis by blast
qed


end
