(* ===== verification/Input.thy ===== *)
theory Input
  imports Keyboard
begin

text \<open>
  From a key to the thread that waits for it: \<^verbatim>\<open>ioq_getchar\<close> of \<^verbatim>\<open>src/device/ioqueue.c\<close> blocks on the empty
  buffer of the keyboard under the buffer's lock, \<^verbatim>\<open>intr_keyboard_handler\<close> of \<^verbatim>\<open>src/device/keyboard.c\<close>
  stores the character and wakes the thread, \<^verbatim>\<open>schedule\<close> of \<^verbatim>\<open>src/thread/thread.c\<close> switches back to it,
  and the rest of \<^verbatim>\<open>ioq_getchar\<close> returns the character and gives the lock back. The lemmas carry the
  scheduler's queues and the waiters of the lock through a blocking and a waking thread.
\<close>

section \<open>Blocking and waking beside the waiters of a lock\<close>

lemma waitq_block:
  assumes w: "waitq W (n # ns) ws s" and st: "blocked_status st" and n: "n \<noteq> 0" "space_of s n = Inr d"
  obtains s' where "thread_block st s = Inr (intr_get_status s, s')" "waitq W ns ws s'" "running_thread s' = n"
    "tasks s' = switched_tasks (running_thread s) n (esp s) (tasks (blocked_state st s))"
    "thread_ready_list s' = thread_ready_list s" "intr_get_status s' = INTR_OFF" "cr3 s' = d" "phys s' = phys s"
    "thread_machine.more s' = thread_machine.more s"
proof -
  let ?b = "blocked_state st s"
  have inv: "sched_inv s (n # ns)" using w by (simp add: waitq_def)
  obtain s' where s': "thread_block st s = Inr (intr_get_status s, s')" "schedule ?b = Inr s'" "running_thread s' = n"
    "sched_inv s' ns" "tasks s' = switched_tasks (running_thread s) n (esp s) (tasks ?b)"
    "thread_machine.more s' = thread_machine.more s" "intr_get_status s' = INTR_OFF"
    by (rule thread_block_switches [OF inv st n])
  have b: "sched_inv ?b (n # ns)" "intr_get_status ?b = INTR_OFF" "runnable ?b (n # ns) = n # ns" "space_of ?b n = Inr d"
    using sched_inv_blocked_state [OF inv] runnable_blocked_state [OF st] n(2) space_of_cong [of ?b s n] inv
    by (auto simp: sched_inv_def foot_def)
  note turn = schedule_invariant [OF b(1-3) n(1) b(4) s'(2)] schedule_keeps [OF b(1-3) n(1) b(4) s'(2)]
  have "dlist (lnk s') W (map general_tag ws)"
    using w by (intro schedule_frame [OF b(1-3) n(1) b(4) s'(2)]) (simp_all add: waitq_def b(3))
  moreover have "tasks s' u = tasks s u" if "u \<in> set ws" for u
  proof -
    have "u \<noteq> running_thread s" "u \<noteq> n" using that waitq_running_apart [OF w] waitq_apart [OF w] by auto
    then show ?thesis by (simp add: s'(5) switched_tasks_other)
  qed
  moreover have "general_tag n \<notin> foot W (map general_tag ws)" using w by (auto simp: waitq_def)
  moreover have "foot W (map general_tag ws) \<inter> foot (thread_ready_list s) (map general_tag ns) = {}"
    using w by (auto simp: waitq_def)
  ultimately have "waitq W ns ws s'"
    using w s'(3,4) turn by (simp add: waitq_def)
  then show thesis using that s'(1,3,5,6,7) turn by simp
qed

lemma waitq_woken:
  assumes w: "waitq W ts ws s" and t: "status (tasks s t) = TASK_BLOCKED" "resumable (tasks s t) t"
    "t \<noteq> running_thread s" "general_tag t \<notin> foot (thread_ready_list s) (map general_tag ts)"
    "general_tag t \<notin> foot W (map general_tag ws)"
  shows "waitq W (t # ts) ws (woken t s)"
proof -
  have inv: "sched_inv s ts" "dlist (lnk s) (thread_ready_list s) (map general_tag ts)"
    using w by (auto simp: waitq_def sched_inv_def)
  have b: "blocked_status (status (tasks s t))" using t(1) by (simp add: blocked_status_def)
  note un = thread_unblock_front [OF inv(1) b t(2-4)]
  have keep: "lnk (woken t s) = ins_lnk (elem_next (lnk s (thread_ready_list s))) (general_tag t) (lnk s)"
    "thread_ready_list (woken t s) = thread_ready_list s"
    "tasks (woken t s) = (tasks s)(t := (tasks s t)\<lparr>status := TASK_READY\<rparr>)"
    by (simp_all add: woken_def upd_task_def list_op_eqs)
  have "dlist (lnk (woken t s)) W (map general_tag ws) \<longleftrightarrow> dlist (lnk s) W (map general_tag ws)"
    unfolding keep using w t(4,5) by (intro dlist_cong push_outside [OF inv(2)]) (auto simp: waitq_def)
  moreover have "t \<notin> set ws" using t(5) by (auto simp: foot_def)
  ultimately show ?thesis
    using w t(3,5) un(2,3) by (auto simp: waitq_def keep)
qed

section \<open>Waiting for a key\<close>

text \<open>The keyboard's buffer is empty, its lock free, and no thread waits for either.\<close>

definition input_idle :: "'a keyboard_machine_scheme \<Rightarrow> u32 list \<Rightarrow> bool" where
  "input_idle s ts \<longleftrightarrow> waitq (lock_waiters (kbd_buf s)) ts [] s \<and> lock_free (kbd_buf s) s \<and> running_thread s \<noteq> 0 \<and>
     ioq_idle (kbd_buf s) s \<and> contents (ioqs s (kbd_buf s)) = []"

text \<open>A thread \<open>r\<close> waits for the empty buffer and holds its lock.\<close>

definition reader_waits :: "u32 \<Rightarrow> 'a keyboard_machine_scheme \<Rightarrow> u32 list \<Rightarrow> bool" where
  "reader_waits r s ts \<longleftrightarrow> waitq (lock_waiters (kbd_buf s)) ts [] s \<and> intr_get_status s = INTR_OFF \<and>
     lock_held (kbd_buf s) r s \<and> lock_repeat s (kbd_buf s) = 1 \<and> r \<noteq> 0 \<and>
     ring_ok (ioqs s (kbd_buf s)) \<and> contents (ioqs s (kbd_buf s)) = [] \<and>
     consumer (ioqs s (kbd_buf s)) = r \<and> producer (ioqs s (kbd_buf s)) = 0 \<and>
     status (tasks s r) = TASK_BLOCKED \<and> resumable (tasks s r) r \<and> r \<noteq> running_thread s \<and>
     general_tag r \<notin> foot (thread_ready_list s) (map general_tag ts) \<and> general_tag r \<notin> foot (lock_waiters (kbd_buf s)) []"

lemma input_fields_of_more:
  assumes "thread_machine.more s' = thread_machine.more (s :: 'a keyboard_machine_scheme)"
  shows "ioqs s' = ioqs s" "kbd s' = kbd s" "kbd_buf s' = kbd_buf s" "sema_value s' = sema_value s"
    "lock_holder s' = lock_holder s" "lock_repeat s' = lock_repeat s"
  using assms by (cases s; cases s'; simp)+

lemma contents_consumer [simp]:
  "contents (q\<lparr>consumer := v\<rparr>) = contents q" "ring_ok (q\<lparr>consumer := v\<rparr>) \<longleftrightarrow> ring_ok q"
  by (simp_all add: contents_def ring_len_def ring_ok_def)

lemma getchar_blocks:
  fixes s :: "'a keyboard_machine_scheme"
  assumes idle: "input_idle s (n # ns)" and n: "n \<noteq> 0" "space_of s n = Inr d"
  obtains s' where "ioq_getchar (kbd_buf s) s = Switched s' (In_wait INTR_OFF)"
    "reader_waits (running_thread s) s' ns" "running_thread s' = n" "kbd s' = kbd s" "kbd_buf s' = kbd_buf s"
    "cr3 s' = d" "phys s' = phys s" "\<And>t. pgdir (tasks s' t) = pgdir (tasks s t)"
proof -
  let ?L = "kbd_buf s" and ?r = "running_thread s"
  let ?a = "set_repeat ?L 1 (set_holder ?L ?r (set_value (lock_semaphore ?L) 0 s))"
  let ?b = "upd_ioq ?L (set_waiter Consumer ?r) ?a"
  have w: "waitq (lock_waiters ?L) (n # ns) [] s" and r: "?r \<noteq> 0" "lock_free ?L s"
    and q: "intr_get_status s = INTR_OFF" "ring_ok (ioqs s ?L)" "producer (ioqs s ?L) = 0" "consumer (ioqs s ?L) = 0"
      "contents (ioqs s ?L) = []"
    using idle by (simp_all add: input_idle_def ioq_idle_def)
  have keep: "lnk ?b = lnk s" "thread_ready_list ?b = thread_ready_list s" "tasks ?b = tasks s" "esp ?b = esp s"
    "running_thread ?b = ?r" "intr_get_status ?b = INTR_OFF" "cr3 ?b = cr3 s" "phys ?b = phys s" "kbd ?b = kbd s" "kbd_buf ?b = ?L"
    "ioqs ?b ?L = set_waiter Consumer ?r (ioqs s ?L)"
    using q(1) by (simp_all add: upd_ioq_def set_repeat_def set_holder_def set_value_def running_thread_def intr_get_status_def)
  have wb: "waitq (lock_waiters ?L) (n # ns) [] ?b" using w waitq_cong [OF keep(1-4)] by simp
  have nb: "space_of ?b n = Inr d" using n(2) space_of_cong [of ?b s n] keep by simp
  have st: "blocked_status TASK_BLOCKED" by (simp add: blocked_status_def)
  obtain s' where s': "thread_block TASK_BLOCKED ?b = Inr (intr_get_status ?b, s')" "waitq (lock_waiters ?L) ns [] s'"
    "running_thread s' = n" "tasks s' = switched_tasks (running_thread ?b) n (esp ?b) (tasks (blocked_state TASK_BLOCKED ?b))"
    "thread_ready_list s' = thread_ready_list ?b" "intr_get_status s' = INTR_OFF" "cr3 s' = d" "phys s' = phys ?b"
    "thread_machine.more s' = thread_machine.more ?b"
    by (rule waitq_block [OF wb st n(1) nb])
  note more = input_fields_of_more [OF s'(9)]
  have ws: "general_tag ?r \<notin> foot (thread_ready_list s) (map general_tag (n # ns))" "general_tag ?r \<notin> foot (lock_waiters ?L) []"
    using w by (simp_all add: waitq_def sched_inv_def)
  then have "?r \<noteq> n" by (auto simp: foot_def)
  have "ioq_getchar ?L s = Switched s' (In_wait INTR_OFF)"
    using q s'(1) keep lock_acquire_free [OF r(2,1)]
    by (simp add: ioq_getchar_def getchar_loop_def ioq_empty_eq ioq_locked_def ioq_block_def ioq_wait_def Let_def)
      (simp add: set_repeat_def set_holder_def set_value_def running_thread_def)
  moreover have "reader_waits ?r s' ns"
    unfolding reader_waits_def
    using s'(2,3,5,6) more keep q ws \<open>?r \<noteq> n\<close> r(1)
    by (simp add: s'(4) turn_fields lock_held_def resumable_def)
      (simp add: upd_ioq_def set_repeat_def set_holder_def set_value_def running_thread_def)
  moreover have "pgdir (tasks s' t) = pgdir (tasks s t)" for t
    by (simp add: s'(4) turn_fields) (simp add: set_repeat_def set_holder_def set_value_def)
  ultimately show thesis using that s'(3,7,8) more keep by simp
qed

text \<open>A key while a thread waits.\<close>

definition char_ready :: "u32 \<Rightarrow> u8 \<Rightarrow> 'a keyboard_machine_scheme \<Rightarrow> u32 list \<Rightarrow> bool" where
  "char_ready r b s ts \<longleftrightarrow> waitq (lock_waiters (kbd_buf s)) ts [] s \<and> intr_get_status s = INTR_OFF \<and>
     lock_held (kbd_buf s) r s \<and> lock_repeat s (kbd_buf s) = 1 \<and>
     ring_ok (ioqs s (kbd_buf s)) \<and> contents (ioqs s (kbd_buf s)) = [b] \<and>
     consumer (ioqs s (kbd_buf s)) = 0 \<and> producer (ioqs s (kbd_buf s)) = 0"

lemma read_woken_fields:
  "lnk (read_woken ioq b t s) = lnk (woken t s)" "thread_ready_list (read_woken ioq b t s) = thread_ready_list (woken t s)"
  "tasks (read_woken ioq b t s) = tasks (woken t s)" "esp (read_woken ioq b t s) = esp (woken t s)"
  "ioqs (read_woken ioq b t s) = (ioqs s)(ioq := (ring_put_q b (ioqs s ioq))\<lparr>consumer := 0\<rparr>)"
  "cr3 (read_woken ioq b t s) = cr3 s" "phys (read_woken ioq b t s) = phys s" "eflags (read_woken ioq b t s) = eflags s"
  "lock_holder (read_woken ioq b t s) = lock_holder s" "lock_repeat (read_woken ioq b t s) = lock_repeat s"
  "sema_value (read_woken ioq b t s) = sema_value s" "pgdir (tasks (woken t s) u) = pgdir (tasks s u)"
  by (simp_all add: read_woken_def woken_def upd_ioq_def upd_task_def list_op_eqs)

lemma key_wakes:
  fixes s :: "'a keyboard_machine_scheme"
  defines "k c \<equiv> key_char c (shift_status (kbd s)) (caps_lock_status (kbd s))"
  assumes r: "reader_waits r s ts" and c: "0 < c" "c < 0x3b" "\<not> ext_scancode (kbd s)" "k c \<noteq> 0" "inb dev KBD_BUF_PORT = c"
  obtains s' where "intr_keyboard_handler dev s = Ret s' ()" "char_ready r (k c) s' (r # ts)" "running_thread s' = running_thread s"
    "kbd s' = kbd s" "kbd_buf s' = kbd_buf s" "cr3 s' = cr3 s" "phys s' = phys s" "\<And>t. pgdir (tasks s' t) = pgdir (tasks s t)"
proof -
  let ?L = "kbd_buf s" and ?s = "read_woken (kbd_buf s) (k c) r s"
  have w: "waitq (lock_waiters ?L) ts [] s" and off: "intr_get_status s = INTR_OFF"
    and l: "lock_held ?L r s" "lock_repeat s ?L = 1" "r \<noteq> 0"
    and q: "ring_ok (ioqs s ?L)" "contents (ioqs s ?L) = []" "consumer (ioqs s ?L) = r" "producer (ioqs s ?L) = 0"
    and t: "status (tasks s r) = TASK_BLOCKED" "resumable (tasks s r) r" "r \<noteq> running_thread s"
      "general_tag r \<notin> foot (thread_ready_list s) (map general_tag ts)" "general_tag r \<notin> foot (lock_waiters ?L) (map general_tag [])"
    using r by (simp_all add: reader_waits_def)
  have inv: "sched_inv s ts" using w by (simp add: waitq_def)
  have len: "length (contents (ioqs s ?L)) \<noteq> 1023" by (simp only: q(2)) simp
  note put = putchar_wakes [OF off q(1-3) l(3) inv t(1-4), of "k c"]
  have "scancode_handler c s = Ret ?s ()" using key_code [OF c(1-3) c(4) [unfolded k_def] off q(1)] len put(1) by (simp add: k_def)
  moreover have "ring_ok (ring_put_q (k c) (ioqs s ?L))" using q(1,2) by (intro ring.put_ok) (simp_all only: q(2), simp)
  moreover have "waitq (lock_waiters ?L) (r # ts) [] ?s"
    using waitq_woken [OF w t] waitq_cong [OF read_woken_fields(1-4) [of ?L "k c" r s]] by simp
  moreover have "kbd ?s = kbd s" "kbd_buf ?s = ?L" "intr_get_status ?s = INTR_OFF"
    using off by (simp_all add: read_woken_def upd_ioq_def woken_def upd_task_def list_op_eqs intr_get_status_def)
  ultimately show thesis
    using that [of ?s] put(2,4) l q c(5)
    by (simp add: intr_keyboard_handler_def char_ready_def read_woken_fields lock_held_def)
qed

lemma turn_to_front:
  assumes "char_ready r b s (r # ts)" "r \<noteq> 0" "space_of s r = Inr d"
  obtains s' where "schedule s = Inr s'" "running_thread s' = r" "char_ready r b s' (ts @ [running_thread s])" "kbd_buf s' = kbd_buf s"
proof -
  have w: "waitq (lock_waiters (kbd_buf s)) (r # ts) [] s" and off: "intr_get_status s = INTR_OFF"
    using assms(1) by (simp_all add: char_ready_def)
  then have inv: "sched_inv s (r # ts)" and run: "runnable s (r # ts) = r # ts @ [running_thread s]"
    by (simp_all add: waitq_def runnable_def)
  obtain s' where s': "schedule s = Inr s'" using schedule_eq [OF inv off run assms(2,3)] by blast
  note turn = waitq_schedule [OF w s'] schedule_keeps [OF inv off run assms(2,3) s']
  note more = input_fields_of_more [OF turn(8)]
  have "intr_get_status s' = INTR_OFF" using off turn(3) by (simp add: intr_get_status_def)
  then show thesis using that [OF s'] turn(1) more assms(1) by (simp add: char_ready_def lock_held_def)
qed

lemma getchar_ends:
  assumes "char_ready (running_thread s) b s ts" "running_thread s \<noteq> 0"
  shows "\<exists>s'. ioq_getchar_resume (kbd_buf s) (In_wait INTR_OFF) s = Ret s' b \<and> input_idle s' ts \<and>
    running_thread s' = running_thread s"
proof -
  let ?L = "kbd_buf s" and ?r = "running_thread s"
  let ?f = "set_value (lock_semaphore ?L) 1 (set_repeat ?L 0 (set_holder ?L 0 s))"
  let ?q = "ioqs s ?L" and ?e = "upd_ioq ?L (\<lambda>q. snd (ring_get_q q)) ?f"
  have w: "waitq (lock_waiters ?L) ts [] s" and off: "intr_get_status s = INTR_OFF"
    and l: "lock_held ?L ?r s" "lock_repeat s ?L = 1"
    and q: "ring_ok ?q" "contents ?q = [b]" "consumer ?q = 0" "producer ?q = 0"
    using assms(1) by (simp_all add: char_ready_def)
  have rel: "lock_release ?L s = Inr ?f" using w by (intro lock_release_alone [OF l]) (simp add: waitq_def)
  have f: "ioqs ?f = ioqs s" "intr_get_status ?f = INTR_OFF" "kbd_buf ?f = ?L"
    using off by (simp_all add: set_repeat_def set_holder_def set_value_def intr_get_status_def)
  have "ioq_idle ?L ?f" using f q by (simp add: ioq_idle_def)
  from ioq_getchar_eq [OF this] have "getchar_loop ?L ?f = Ret ?e b"
    using f q by (simp add: ioq_getchar_def)
  moreover have "thread_block_resume INTR_OFF s = s"
    using off by (simp add: thread_block_resume_def intr_set_status_def intr_disable_def)
  ultimately have "ioq_getchar_resume ?L (In_wait INTR_OFF) s = Ret ?e b" using rel by (simp add: after_wait_def)
  moreover have "contents (snd (ring_get_q ?q)) = []" "ring_ok (snd (ring_get_q ?q))"
    using ring.rep_get [of ?q] ring.get_ok [of ?q] q by simp_all
  moreover have "waitq (lock_waiters ?L) ts [] ?e"
    using w waitq_cong [of ?e s] by (simp add: set_repeat_def set_holder_def set_value_def)
  moreover have "running_thread ?e = ?r" "ioqs ?e ?L = snd (ring_get_q ?q)" "kbd_buf ?e = ?L" "lock_free ?L ?e"
    by (simp_all add: set_repeat_def set_holder_def set_value_def running_thread_def upd_ioq_def lock_free_def)
  ultimately show ?thesis
    using assms(2) f(2) q(3,4) by (intro exI [of _ ?e]) (simp add: input_idle_def ioq_idle_def)
qed

section \<open>From the key to the thread\<close>

text \<open>
  C10: a thread that reads from the keyboard's empty buffer while another thread is ready gives up the processor with the
  buffer's lock in its hands. When a key with a character is pressed, the handler stores the character,
  does not run into the lock, and puts the thread at the front of the ready queue; at the next turn of the scheduler
  the thread goes on where it was, and \<^verbatim>\<open>ioq_getchar\<close> returns that character, with the buffer empty
  and its lock free as in the beginning, and the other threads ready in their order.
\<close>

theorem key_reaches_reader:
  fixes s :: "'a keyboard_machine_scheme"
  assumes "input_idle s (n # ns)" "n \<noteq> 0" "spaces_ok s dir [running_thread s, n]"
    and "0 < c" "c < 0x3b" "\<not> ext_scancode (kbd s)" "inb dev KBD_BUF_PORT = c"
    and "key_char c (shift_status (kbd s)) (caps_lock_status (kbd s)) \<noteq> 0"
  shows "\<exists>s1 s2 s3 s4. ioq_getchar (kbd_buf s) s = Switched s1 (In_wait INTR_OFF) \<and> running_thread s1 = n \<and>
    status (tasks s1 (running_thread s)) = TASK_BLOCKED \<and>
    intr_keyboard_handler dev s1 = Ret s2 () \<and> running_thread s2 = n \<and> sched_inv s2 (running_thread s # ns) \<and>
    schedule s2 = Inr s3 \<and> running_thread s3 = running_thread s \<and>
    ioq_getchar_resume (kbd_buf s) (In_wait INTR_OFF) s3 =
      Ret s4 (key_char c (shift_status (kbd s)) (caps_lock_status (kbd s))) \<and>
    running_thread s4 = running_thread s \<and> input_idle s4 (ns @ [n])"
proof -
  let ?r = "running_thread s" and ?k = "key_char c (shift_status (kbd s)) (caps_lock_status (kbd s))"
  have r: "?r \<noteq> 0" using assms(1) by (simp add: input_idle_def)
  have "space_of s n = Inr (dir n)" by (rule spaces_ok_current [OF assms(3)]) simp
  from getchar_blocks [OF assms(1,2) this] obtain s1 where s1: "ioq_getchar (kbd_buf s) s = Switched s1 (In_wait INTR_OFF)"
    "reader_waits ?r s1 ns" "running_thread s1 = n" "kbd s1 = kbd s" "kbd_buf s1 = kbd_buf s"
    "cr3 s1 = dir n" "phys s1 = phys s" "\<And>t. pgdir (tasks s1 t) = pgdir (tasks s t)"
    by blast
  have "\<not> ext_scancode (kbd s1)" "key_char c (shift_status (kbd s1)) (caps_lock_status (kbd s1)) \<noteq> 0"
    using assms(6,8) s1(4) by simp_all
  from key_wakes [OF s1(2) assms(4,5) this assms(7)] s1(4) obtain s2 where s2: "intr_keyboard_handler dev s1 = Ret s2 ()"
    "char_ready ?r ?k s2 (?r # ns)" "running_thread s2 = n" "kbd_buf s2 = kbd_buf s" "cr3 s2 = dir n" "phys s2 = phys s"
    "\<And>t. pgdir (tasks s2 t) = pgdir (tasks s t)"
    by (metis s1(3,5-8))
  have "space_of s2 ?r = space_of (s\<lparr>cr3 := dir n\<rparr>) ?r" by (rule space_of_cong) (simp_all add: s2)
  moreover have "space_of (s\<lparr>cr3 := dir n\<rparr>) ?r = Inr (dir ?r)" using assms(3) by (simp add: spaces_ok_def)
  ultimately have "space_of s2 ?r = Inr (dir ?r)" by simp
  from turn_to_front [OF s2(2) r this] obtain s3 where s3: "schedule s2 = Inr s3" "running_thread s3 = ?r"
    "char_ready ?r ?k s3 (ns @ [n])" "kbd_buf s3 = kbd_buf s"
    by (metis s2(3,4))
  obtain s4 where s4: "ioq_getchar_resume (kbd_buf s) (In_wait INTR_OFF) s3 = Ret s4 ?k" "input_idle s4 (ns @ [n])"
    "running_thread s4 = ?r"
    using getchar_ends [of s3 ?k "ns @ [n]"] s3 r by auto
  have "status (tasks s1 ?r) = TASK_BLOCKED" "sched_inv s2 (?r # ns)"
    using s1(2) s2(2) by (simp_all add: reader_waits_def char_ready_def waitq_def)
  then show ?thesis using s1(1,3) s2(1,3) s3(1,2) s4 by blast
qed

text \<open>The main thread reads while two more threads are ready; then the key of the letter A is pressed, with shift held.\<close>

definition demo_input :: keyboard_machine where
  "demo_input = lock_init 0xc0007000 demo_keyboard"

lemma demo_input_fields:
  "lnk demo_input = init_lnk (lock_waiters 0xc0007000) (lnk demo_threads)" "tasks demo_input = tasks demo_threads"
  "esp demo_input = 0xc009ef00" "thread_ready_list demo_input = 0xc0005000" "kbd_buf demo_input = 0xc0007000"
  "eflags demo_input = 2" "ioqs demo_input = ioqs demo_keyboard" "kbd demo_input = kbd demo_keyboard" "lock_free 0xc0007000 demo_input"
  by (simp_all add: demo_input_def lock_init_def sema_init_def set_holder_def set_repeat_def set_value_def Let_def
      list_init_eq demo_keyboard_def ioq_machine.defs lock_free_def)

lemma demo_input_idle: "input_idle demo_input [0xc0100000, 0xc0101000]"
proof -
  have run: "running_thread demo_input = 0xc009e000" by (simp add: running_thread_def demo_input_fields)
  have "dlist (lnk demo_input) 0xc0005000 (map general_tag [0xc0100000, 0xc0101000])"
    unfolding demo_input_fields
    by (subst dlist_init_keeps) (use demo_threads_dlist in \<open>simp_all add: in_foot_iff sema_waiters_def lock_semaphore_def
        list_tail_def general_tag_def general_tag_offset_def\<close>)
  then have "sched_inv demo_input [0xc0100000, 0xc0101000]"
    using demo_threads_inv by (simp add: sched_inv_def demo_input_fields run)
  moreover have "dlist (lnk demo_input) (lock_waiters 0xc0007000) []" by (simp add: demo_input_fields dlist_init_lnk)
  ultimately have "waitq (lock_waiters 0xc0007000) [0xc0100000, 0xc0101000] [] demo_input"
    by (simp add: waitq_def run demo_input_fields demo_task_def in_foot_iff sema_waiters_def lock_semaphore_def
        list_tail_def general_tag_def general_tag_offset_def)
  moreover have "ioq_idle 0xc0007000 demo_input" "contents (ioqs demo_input 0xc0007000) = []"
    using demo_ioq_ring [of 0 "0xc0007000"]
    by (simp_all add: ioq_idle_def demo_input_fields intr_get_status_def EFLAGS_IF_def)
  ultimately show ?thesis by (simp add: input_idle_def run demo_input_fields)
qed

theorem key_reaches_reader_witness:
  "\<exists>s1 s2 s3 s4. ioq_getchar 0xc0007000 demo_input = Switched s1 (In_wait INTR_OFF) \<and>
     intr_keyboard_handler (\<lambda>_. 0x1e) s1 = Ret s2 () \<and> schedule s2 = Inr s3 \<and>
     ioq_getchar_resume 0xc0007000 (In_wait INTR_OFF) s3 = Ret s4 65"
proof -
  have "key_char 0x1e True False = 65" by (simp add: key_char_def keymap_1e letter_def)
  moreover have "spaces_ok demo_input (\<lambda>_. 0x100000) [running_thread demo_input, 0xc0100000]"
    by (rule spaces_ok_kernel) (simp add: demo_input_fields demo_task_def)
  ultimately show ?thesis
    using key_reaches_reader [OF demo_input_idle, where c = "0x1e" and dev = "\<lambda>_. 0x1e"]
    by (simp add: demo_input_fields inb_def) blast
qed

end
