(* ===== verification/Steps.thy ===== *)
theory Steps
  imports Timer
begin

text \<open>
  The threads of the system as a whole, under any sequence of what \<^verbatim>\<open>src/thread/thread.c\<close> and the clock's
  handler of \<^verbatim>\<open>src/device/timer.c\<close> do to them: a tick of the clock, \<^verbatim>\<open>thread_block\<close>, \<^verbatim>\<open>thread_unblock\<close> and
  changes of the interrupt flag. The steps are a relation, the invariant holds in every reachable
  state by rule induction, and in every such state it says what each operation does next.
\<close>

section \<open>Steps\<close>

text \<open>The handler of the clock runs with interrupts off; the flags otherwise belong to the running thread.\<close>

inductive sched_step :: "u32 set \<Rightarrow> 'a timer_machine_scheme \<Rightarrow> 'a timer_machine_scheme \<Rightarrow> bool"
  for A :: "u32 set" where
  tick: "intr_timer_handler (cli s) = Inr s' \<Longrightarrow> sched_step A s s'"
| block: "thread_block stat s = Inr (old_status, s') \<Longrightarrow> sched_step A s s'"
| unblock: "thread_unblock t s = Inr s' \<Longrightarrow> t \<in> A \<Longrightarrow> sched_step A s s'"
| flags: "sched_step A s (s\<lparr>eflags := e\<rparr>)"

inductive_cases sched_stepE: "sched_step A s s'"

section \<open>The invariant\<close>

text \<open>A thread that waits: blocked in one of three ways, and able to go on when it is switched to.\<close>

definition asleep :: "'a thread_machine_scheme \<Rightarrow> u32 \<Rightarrow> bool" where
  "asleep s t \<longleftrightarrow> blocked_status (status (tasks s t)) \<and> resumable (tasks s t) t"

text \<open>What holds of the threads \<open>A\<close> whoever runs.\<close>

definition threads_ok :: "u32 set \<Rightarrow> (u32 \<Rightarrow> u32) \<Rightarrow> 'a thread_machine_scheme \<Rightarrow> bool" where
  "threads_ok A dir s \<longleftrightarrow> 0 \<notin> A \<and>
     (\<forall>t \<in> A. stack_magic (tasks s t) = 0x20040207 \<and> general_tag t \<notin> foot (thread_ready_list s) [] \<and>
       (\<forall>d \<in> insert (cr3 s) (dir ` A). space_of (s\<lparr>cr3 := d\<rparr>) t = Inr (dir t)))"

text \<open>One thread runs, the threads \<open>ts\<close> are ready, and every other one is asleep.\<close>

definition all_placed :: "u32 set \<Rightarrow> 'a thread_machine_scheme \<Rightarrow> u32 list \<Rightarrow> bool" where
  "all_placed A s ts \<longleftrightarrow> sched_inv s ts \<and> insert (running_thread s) (set ts) \<subseteq> A \<and>
     status (tasks s (running_thread s)) = TASK_RUNNING \<and>
     (\<forall>t \<in> A - insert (running_thread s) (set ts). asleep s t)"

lemma threads_ok_cong:
  fixes s :: "'a thread_machine_scheme" and s' :: "'b thread_machine_scheme"
  assumes "threads_ok A dir s" "cr3 s' \<in> insert (cr3 s) (dir ` A)" "phys s' = phys s" "thread_ready_list s' = thread_ready_list s"
    and "\<And>t. pgdir (tasks s' t) = pgdir (tasks s t) \<and> stack_magic (tasks s' t) = stack_magic (tasks s t)"
  shows "threads_ok A dir s'"
proof -
  have "space_of (s'\<lparr>cr3 := d\<rparr>) t = space_of (s\<lparr>cr3 := d\<rparr>) t" for d t
    by (rule space_of_cong) (simp_all add: assms)
  then show ?thesis using assms by (auto simp: threads_ok_def)
qed

lemma all_placed_cong:
  fixes s :: "'a thread_machine_scheme" and s' :: "'b thread_machine_scheme"
  assumes "lnk s' = lnk s" "thread_ready_list s' = thread_ready_list s" "esp s' = esp s"
    and "\<And>t. status (tasks s' t) = status (tasks s t) \<and> self_kstack (tasks s' t) = self_kstack (tasks s t)"
  shows "all_placed A s' ts \<longleftrightarrow> all_placed A s ts"
  using assms by (simp add: all_placed_def sched_inv_def running_thread_def asleep_def resumable_def)

lemma threads_ok_space: "threads_ok A dir s \<Longrightarrow> t \<in> A \<Longrightarrow> t \<noteq> 0 \<and> space_of s t = Inr (dir t)"
proof -
  assume *: "threads_ok A dir s" "t \<in> A"
  then have "space_of (s\<lparr>cr3 := cr3 s\<rparr>) t = Inr (dir t)" unfolding threads_ok_def by blast
  with * show ?thesis by (auto simp: threads_ok_def)
qed

text \<open>
  A turn of the scheduler, with the running thread either still running or just put to sleep: the
  front of the queue runs and everybody has a place again.
\<close>

lemma turn_places:
  fixes s :: "'a thread_machine_scheme"
  assumes ok: "threads_ok A dir s" and inv: "sched_inv s ts" and off: "intr_get_status s = INTR_OFF"
    and run: "runnable s ts = n # ns" and A: "set (n # ns) \<subseteq> A" "running_thread s \<in> A"
    and rest: "\<And>t. t \<in> A \<Longrightarrow> t \<notin> set ts \<Longrightarrow> t \<noteq> running_thread s \<Longrightarrow> asleep s t"
    and cur: "status (tasks s (running_thread s)) = TASK_RUNNING \<or> blocked_status (status (tasks s (running_thread s)))"
  shows "\<exists>s'. schedule s = Inr s' \<and> all_placed A s' ns \<and> threads_ok A dir s' \<and> running_thread s' = n"
proof -
  have n: "n \<noteq> 0" "space_of s n = Inr (dir n)" "n \<in> A" using threads_ok_space [OF ok] A(1) by auto
  obtain s' where s': "schedule s = Inr s'" using schedule_eq [OF inv off run n(1,2)] by blast
  note turn = schedule_invariant [OF inv off run n(1,2) s'] schedule_keeps [OF inv off run n(1,2) s']
  have "threads_ok A dir s'" using turn n(3) by (intro threads_ok_cong [OF ok]) (simp_all add: turn_fields)
  moreover have "asleep s' t" if t: "t \<in> A" "t \<noteq> n" "t \<notin> set ns" for t
  proof (cases "t = running_thread s")
    case True
    have "t \<notin> set (runnable s ts)" using t(2,3) by (simp add: run)
    with True have "status (tasks s t) \<noteq> TASK_RUNNING" by (auto simp: runnable_def)
    with True cur t(2) show ?thesis by (auto simp: asleep_def turn turn_fields resumable_def running_thread_def)
  next
    case False
    have "t \<notin> set (runnable s ts)" using t(2,3) by (simp add: run)
    then have "t \<notin> set ts" by (simp add: runnable_def)
    from rest [OF t(1) this False] False t(2) show ?thesis by (simp add: asleep_def turn resumable_def turn_fields)
  qed
  ultimately show ?thesis using s' turn A(1) by (auto simp: all_placed_def)
qed

section \<open>What each operation does\<close>

text \<open>The system in order, with the threads \<open>ts\<close> ready.\<close>

definition in_order :: "u32 set \<Rightarrow> (u32 \<Rightarrow> u32) \<Rightarrow> 'a timer_machine_scheme \<Rightarrow> u32 list \<Rightarrow> bool" where
  "in_order A dir s ts \<longleftrightarrow> threads_ok A dir s \<and> all_placed A s ts"

lemma in_order_cong:
  fixes s s' :: "'a timer_machine_scheme"
  assumes "lnk s' = lnk s" "thread_ready_list s' = thread_ready_list s" "esp s' = esp s" "cr3 s' = cr3 s" "phys s' = phys s"
    and "\<And>t. status (tasks s' t) = status (tasks s t) \<and> self_kstack (tasks s' t) = self_kstack (tasks s t) \<and>
      pgdir (tasks s' t) = pgdir (tasks s t) \<and> stack_magic (tasks s' t) = stack_magic (tasks s t)"
  shows "in_order A dir s' ts \<longleftrightarrow> in_order A dir s ts"
proof -
  have "threads_ok A dir s' \<longleftrightarrow> threads_ok A dir s"
    using threads_ok_cong [of A dir s s'] threads_ok_cong [of A dir s' s] assms by auto
  then show ?thesis using all_placed_cong [of s' s A ts] assms by (simp add: in_order_def)
qed

lemma in_order_flags [simp]: "in_order A dir (s\<lparr>eflags := e\<rparr>) ts \<longleftrightarrow> in_order A dir s ts"
  by (rule in_order_cong) simp_all

lemma tick_in_order:
  assumes "in_order A dir s ts"
  shows "\<exists>s'. intr_timer_handler (cli s) = Inr s' \<and>
    (if ticks (tasks s (running_thread s)) = 0 then in_order A dir s' (tl (ts @ [running_thread s])) \<and> running_thread s' = hd (ts @ [running_thread s])
     else in_order A dir s' ts \<and> running_thread s' = running_thread s)"
proof -
  let ?r = "running_thread s" and ?c = "charged (cli s)"
  have ok: "threads_ok A dir s" "all_placed A s ts" using assms by (simp_all add: in_order_def)
  have c: "cli s = s\<lparr>eflags := eflags s AND NOT EFLAGS_IF\<rparr>" "running_thread (cli s) = ?r" "tasks (cli s) = tasks s"
    by (simp_all add: cli_def running_thread_def)
  have r: "?r \<in> A" "stack_magic (tasks s ?r) = 0x20040207" using ok by (auto simp: all_placed_def threads_ok_def)
  have handler: "intr_timer_handler (cli s) = (if ticks (tasks s ?r) = 0 then schedule ?c
      else Inr (upd_task ?r (\<lambda>t. t\<lparr>ticks := ticks t - 1\<rparr>) ?c))"
    using r(2) by (simp add: intr_timer_handler_def Let_def charged_def upd_task_def c(2,3))
  have ch: "in_order A dir ?c ts" "in_order A dir (upd_task ?r (\<lambda>t. t\<lparr>ticks := ticks t - 1\<rparr>) ?c) ts"
    using assms in_order_cong [of ?c s A dir ts] in_order_cong [of "upd_task ?r (\<lambda>t. t\<lparr>ticks := ticks t - 1\<rparr>) ?c" s A dir ts]
    by (simp_all add: charged_def cli_def upd_task_def running_thread_def)
  show ?thesis
  proof (cases "ticks (tasks s ?r) = 0")
    case True
    obtain n ns where q: "ts @ [?r] = n # ns" by (cases "ts @ [?r]") auto
    have ok': "threads_ok A dir ?c" "all_placed A ?c ts" using ch(1) by (simp_all add: in_order_def)
    have off: "intr_get_status ?c = INTR_OFF" by (simp add: intr_get_status_OFF charged_def upd_task_def cli_def)
    have run: "running_thread ?c = ?r" "runnable ?c ts = n # ns"
      using ok'(2) q c(2) by (simp_all add: runnable_def all_placed_def)
    have "set (n # ns) = insert ?r (set ts)" using q by (metis Un_insert_right list.simps(15) set_append sup_bot_right empty_set)
    then have "set (n # ns) \<subseteq> A" using ok(2) by (simp add: all_placed_def)
    with turn_places [OF ok'(1) _ off run(2)] ok'(2) run(1) r(1) True handler q show ?thesis
      by (auto simp: all_placed_def in_order_def)
  next
    case False
    then show ?thesis using handler ch(2) by (simp add: upd_task_def c(2)) (simp add: running_thread_def charged_def upd_task_def cli_def)
  qed
qed

lemma block_in_order:
  assumes o: "in_order A dir s ts"
  shows "if \<not> blocked_status stat then thread_block stat s = Inl (Panic ''thread/thread.c'' 156)
    else if ts = [] then thread_block stat s = Inl (Panic ''thread/thread.c'' 129)
    else \<exists>s'. thread_block stat s = Inr (intr_get_status s, s') \<and> in_order A dir s' (tl ts) \<and> running_thread s' = hd ts \<and>
      asleep s' (running_thread s)"
proof (cases "blocked_status stat \<and> ts \<noteq> []")
  case True
  then obtain n ns where ts: "ts = n # ns" by (cases ts) auto
  let ?b = "blocked_state stat s" and ?r = "running_thread s"
  have ok: "threads_ok A dir s" "all_placed A s ts" using o by (simp_all add: in_order_def)
  have inv: "sched_inv s ts" "?r \<in> A" "set ts \<subseteq> A" "\<And>t. t \<in> A \<Longrightarrow> t \<notin> set ts \<Longrightarrow> t \<noteq> ?r \<Longrightarrow> asleep s t"
    using ok(2) by (auto simp: all_placed_def)
  have apart: "?r \<notin> set ts" using inv(1) by (auto simp: sched_inv_def foot_def)
  have b: "threads_ok A dir ?b" "sched_inv ?b ts" "runnable ?b ts = n # ns"
    using threads_ok_cong [OF ok(1), of ?b] sched_inv_blocked_state [OF inv(1)] runnable_blocked_state [of stat s ts] True ts
    by auto
  have "asleep ?b t" if "t \<in> A" "t \<notin> set ts" "t \<noteq> ?r" for t
    using inv(4) [OF that] that(3) by (simp add: asleep_def)
  with turn_places [OF b(1,2) _ b(3)] inv(2,3) True ts obtain s' where
    "schedule ?b = Inr s'" "all_placed A s' ns" "threads_ok A dir s'" "running_thread s' = n" by auto
  moreover from this(2,4) inv(2) apart have "asleep s' ?r" by (auto simp: all_placed_def ts)
  ultimately show ?thesis using True by (simp add: thread_block_eq ts in_order_def)
next
  case False
  then show ?thesis
    using thread_block_alone [of s stat] o by (auto simp: thread_block_eq in_order_def all_placed_def)
qed

lemma unblock_in_order:
  assumes o: "in_order A dir s ts" and t: "t \<in> A"
  shows "if t \<in> insert (running_thread s) (set ts) then thread_unblock t s = Inl (Panic ''thread/thread.c'' 166)
    else \<exists>s'. thread_unblock t s = Inr s' \<and> in_order A dir s' (t # ts) \<and> running_thread s' = running_thread s"
proof (cases "t \<in> insert (running_thread s) (set ts)")
  case True
  then have "status (tasks s t) = TASK_RUNNING \<or> status (tasks s t) = TASK_READY"
    using o by (auto simp: in_order_def all_placed_def sched_inv_def)
  then show ?thesis using True by (auto simp: thread_unblock_def bracket_case Let_def ASSERT_def)
next
  case False
  have ok: "threads_ok A dir s" "all_placed A s ts" using o by (simp_all add: in_order_def)
  then have inv: "sched_inv s ts" and sl: "asleep s t" using False t by (auto simp: all_placed_def)
  have "general_tag t \<notin> foot (thread_ready_list s) (map general_tag ts)"
    using ok(1) t False by (auto simp: threads_ok_def foot_def)
  note un = thread_unblock_front [OF inv _ _ _ this]
  have w: "thread_unblock t s = Inr (woken t s)" "sched_inv (woken t s) (t # ts)" "running_thread (woken t s) = running_thread s"
    using un sl False by (simp_all add: asleep_def)
  have f: "tasks (woken t s) = (tasks s)(t := (tasks s t)\<lparr>status := TASK_READY\<rparr>)"
    by (simp add: woken_def upd_task_def list_op_eqs)
  have "threads_ok A dir (woken t s)"
    by (rule threads_ok_cong [OF ok(1)]) (simp_all add: woken_def upd_task_def list_op_eqs)
  moreover have "all_placed A (woken t s) (t # ts)"
    using ok(2) w(2,3) False t by (auto simp: all_placed_def asleep_def f)
  ultimately show ?thesis using False w(1,3) by (simp add: in_order_def)
qed

section \<open>Every sequence of steps\<close>

lemma step_in_order:
  assumes "sched_step A s s'" "in_order A dir s ts"
  shows "\<exists>ts'. in_order A dir s' ts'"
  using assms(1)
proof cases
  case tick
  then show ?thesis using tick_in_order [OF assms(2)] by (auto split: if_splits)
next
  case (block stat)
  then show ?thesis using block_in_order [OF assms(2), of stat] by (auto split: if_splits)
next
  case (unblock t)
  then show ?thesis using unblock_in_order [OF assms(2), of t] by (auto split: if_splits)
next
  case (flags e)
  then show ?thesis using assms(2) by auto
qed

lemma steps_in_order: "(sched_step A)\<^sup>*\<^sup>* s s' \<Longrightarrow> in_order A dir s ts \<Longrightarrow> \<exists>ts'. in_order A dir s' ts'"
  by (induction arbitrary: ts rule: converse_rtranclp_induct) (blast dest: step_in_order)+

lemma ring_in_order:
  assumes "timed_ring s ring"
  obtains dir where "in_order (set ring) dir s (tl ring)"
proof -
  obtain c ts where ring: "ring = c # ts" using assms by (cases ring) (auto simp: timed_ring_def thread_ring_def)
  obtain dir where "spaces_ok s dir ring" using assms by (auto simp: timed_ring_def thread_ring_def)
  moreover have tags: "general_tag c \<notin> foot (thread_ready_list s) (map general_tag ts)"
    "dlist (lnk s) (thread_ready_list s) (map general_tag ts)"
    using assms by (auto simp: timed_ring_def thread_ring_def sched_inv_def ring)
  moreover have "general_tag t \<notin> foot (thread_ready_list s) []" if "t \<in> set ring" for t
  proof -
    have "general_tag t \<in> set (map general_tag ts) \<or> t = c" using that by (auto simp: ring)
    moreover have "x \<notin> foot (thread_ready_list s) []" if "x \<in> set (map general_tag ts)" for x
      using that dlist_distinct [OF tags(2)] by (auto simp del: set_map simp: foot_def)
    ultimately show ?thesis using tags(1) by (auto simp del: set_map simp: foot_def)
  qed
  ultimately have "threads_ok (set ring) dir s"
    using assms unfolding threads_ok_def spaces_ok_def timed_ring_def thread_ring_def list_all_iff by blast
  moreover have "all_placed (set ring) s ts"
    using assms by (auto simp: all_placed_def timed_ring_def thread_ring_def ring)
  ultimately show thesis using that by (simp add: in_order_def ring)
qed

lemma in_order_places:
  assumes "in_order A dir s ts"
  shows "distinct (running_thread s # ts)" "dlist (lnk s) (thread_ready_list s) (map general_tag ts)"
    "t \<in> A \<Longrightarrow> status (tasks s t) = TASK_RUNNING \<longleftrightarrow> t = running_thread s"
    "t \<in> A \<Longrightarrow> status (tasks s t) = TASK_READY \<longleftrightarrow> t \<in> set ts"
    "t \<in> A \<Longrightarrow> blocked_status (status (tasks s t)) \<longleftrightarrow> t \<noteq> running_thread s \<and> t \<notin> set ts"
proof -
  have inv: "sched_inv s ts" "status (tasks s (running_thread s)) = TASK_RUNNING"
    "\<And>t. t \<in> A \<Longrightarrow> t \<noteq> running_thread s \<Longrightarrow> t \<notin> set ts \<Longrightarrow> asleep s t"
    using assms by (auto simp: in_order_def all_placed_def)
  then show "dlist (lnk s) (thread_ready_list s) (map general_tag ts)" by (simp add: sched_inv_def)
  from dlist_distinct [OF this] have "distinct ts" by (simp add: distinct_map)
  moreover have notin: "running_thread s \<notin> set ts" using inv(1) by (auto simp: sched_inv_def foot_def)
  ultimately show "distinct (running_thread s # ts)" by simp
  have "t \<in> A \<Longrightarrow> t = running_thread s \<and> status (tasks s t) = TASK_RUNNING \<or> t \<in> set ts \<and> status (tasks s t) = TASK_READY \<or>
      t \<noteq> running_thread s \<and> t \<notin> set ts \<and> blocked_status (status (tasks s t))"
    using inv by (auto simp: sched_inv_def asleep_def)
  then show "t \<in> A \<Longrightarrow> status (tasks s t) = TASK_RUNNING \<longleftrightarrow> t = running_thread s"
    "t \<in> A \<Longrightarrow> status (tasks s t) = TASK_READY \<longleftrightarrow> t \<in> set ts"
    "t \<in> A \<Longrightarrow> blocked_status (status (tasks s t)) \<longleftrightarrow> t \<noteq> running_thread s \<and> t \<notin> set ts"
    using notin by (auto simp: blocked_status_def)
qed

text \<open>
  C3: from a ring of threads, as \<^verbatim>\<open>main\<close> leaves it, whatever sequence of clock ticks, \<^verbatim>\<open>thread_block\<close>,
  \<^verbatim>\<open>thread_unblock\<close> and changes of the interrupt flag follows: every thread has exactly one place, and its
  status says which: it is the running thread, or once in the ready queue, or blocked; no thread is
  lost. In every state that is reached the clock's handler returns; the running thread can block
  exactly when another thread is ready, and the kernel stops in \<^verbatim>\<open>schedule\<close> otherwise, since there is
  no idle thread; a blocked thread can be woken, and waking any other stops the kernel.
\<close>

theorem every_thread_has_its_place:
  assumes "timed_ring (cli s) ring" "(sched_step (set ring))\<^sup>*\<^sup>* s s'"
  shows "\<exists>ts. distinct (running_thread s' # ts) \<and> running_thread s' \<in> set ring \<and> set ts \<subseteq> set ring \<and>
    dlist (lnk s') (thread_ready_list s') (map general_tag ts) \<and>
    (\<forall>t \<in> set ring. (status (tasks s' t) = TASK_RUNNING \<longleftrightarrow> t = running_thread s') \<and>
       (status (tasks s' t) = TASK_READY \<longleftrightarrow> t \<in> set ts) \<and>
       (blocked_status (status (tasks s' t)) \<longleftrightarrow> t \<noteq> running_thread s' \<and> t \<notin> set ts)) \<and>
    (\<exists>s''. intr_timer_handler (cli s') = Inr s'') \<and>
    (if ts = [] then thread_block TASK_BLOCKED s' = Inl (Panic ''thread/thread.c'' 129)
     else \<exists>s''. thread_block TASK_BLOCKED s' = Inr (intr_get_status s', s'') \<and> running_thread s'' = hd ts) \<and>
    (\<forall>t \<in> set ring. if blocked_status (status (tasks s' t)) then \<exists>s''. thread_unblock t s' = Inr s''
       else thread_unblock t s' = Inl (Panic ''thread/thread.c'' 166))"
proof -
  obtain dir where "in_order (set ring) dir (cli s) (tl ring)" by (rule ring_in_order [OF assms(1)])
  then have "in_order (set ring) dir s (tl ring)" by (simp add: cli_def)
  with steps_in_order [OF assms(2)] obtain ts where o: "in_order (set ring) dir s' ts" by blast
  note place = in_order_places [OF o]
  have "\<exists>s''. intr_timer_handler (cli s') = Inr s''" using tick_in_order [OF o] by blast
  moreover have "if ts = [] then thread_block TASK_BLOCKED s' = Inl (Panic ''thread/thread.c'' 129)
     else \<exists>s''. thread_block TASK_BLOCKED s' = Inr (intr_get_status s', s'') \<and> running_thread s'' = hd ts"
    using block_in_order [OF o, of TASK_BLOCKED] by (auto simp: blocked_status_def)
  moreover have "if blocked_status (status (tasks s' t)) then \<exists>s''. thread_unblock t s' = Inr s''
       else thread_unblock t s' = Inl (Panic ''thread/thread.c'' 166)" if "t \<in> set ring" for t
    using unblock_in_order [OF o that] place(5) [OF that] by (auto split: if_splits)
  moreover have "running_thread s' \<in> set ring" "set ts \<subseteq> set ring" using o by (auto simp: in_order_def all_placed_def)
  ultimately show ?thesis using place by (intro exI [of _ ts]) blast
qed

theorem every_thread_has_its_place_witness:
  "(\<exists>s''. thread_block TASK_BLOCKED (demo_timer\<lparr>eflags := 0x202\<rparr>) = Inr (INTR_ON, s'')) \<and>
   thread_unblock 0xc009e000 (demo_timer\<lparr>eflags := 0x202\<rparr>) = Inl (Panic ''thread/thread.c'' 166)"
proof -
  let ?ring = "[0xc009e000, 0xc0100000, 0xc0101000]" and ?s = "demo_timer\<lparr>eflags := 0x202\<rparr>"
  have "cli demo_timer = demo_timer" by (simp add: cli_def EFLAGS_IF_def)
  then have ring: "timed_ring (cli demo_timer) ?ring" using demo_timer_ring by simp
  have "(sched_step (set ?ring))\<^sup>*\<^sup>* demo_timer ?s" by (intro r_into_rtranclp sched_step.flags)
  from every_thread_has_its_place [OF ring this] obtain ts where
    "\<forall>t \<in> set ?ring. status (tasks ?s t) = TASK_READY \<longleftrightarrow> t \<in> set ts"
    "if ts = [] then thread_block TASK_BLOCKED ?s = Inl (Panic ''thread/thread.c'' 129)
     else \<exists>s''. thread_block TASK_BLOCKED ?s = Inr (intr_get_status ?s, s'') \<and> running_thread s'' = hd ts"
    "\<forall>t \<in> set ?ring. if blocked_status (status (tasks ?s t)) then \<exists>s''. thread_unblock t ?s = Inr s''
       else thread_unblock t ?s = Inl (Panic ''thread/thread.c'' 166)"
    by blast
  moreover have "status (tasks ?s 0xc0100000) = TASK_READY" "status (tasks ?s 0xc009e000) = TASK_RUNNING"
    by (simp_all add: demo_task_def)
  moreover have "intr_get_status ?s = INTR_ON" by (simp add: intr_get_status_def EFLAGS_IF_def)
  ultimately show ?thesis by (auto simp: blocked_status_def split: if_splits)
qed

end
