(* ===== verification/Kthreads.thy ===== *)
theory Kthreads
  imports Kernel
begin

text \<open>
  The two kernel threads of \<^verbatim>\<open>src/kernel/main.c\<close> over any number of rounds of their loops: as long as the
  console's lock is free and nobody waits for it, as \<^verbatim>\<open>init_all\<close> leaves it, a round goes through the three
  locked calls without being switched out and leaves the lock free for the next.
\<close>

section \<open>The loops\<close>

text \<open>\<^verbatim>\<open>while (1)\<close> up to the end of round \<open>n\<close>, and what a round prints.\<close>

fun rounds :: "nat \<Rightarrow> ('s \<Rightarrow> ('s, 'k, unit) outcome) \<Rightarrow> 's \<Rightarrow> ('s, 'k, unit) outcome" where
  "rounds 0 f s = Ret s ()"
| "rounds (Suc n) f s = obind (f s) (\<lambda>_. rounds n f)"

definition k_line :: "u8 list \<Rightarrow> u32 \<Rightarrow> 'a machine_scheme \<Rightarrow> 'a machine_scheme" where
  "k_line label x s = put_str (lit '' '') (put_int x (put_str label s))"

lemma k_line_frame:
  fixes s :: "'a kernel_machine_scheme"
  shows "eflags (k_line l x s) = eflags s" "esp (k_line l x s) = esp s" "lnk (k_line l x s) = lnk s"
    "console_lock (k_line l x s) = console_lock s" "sema_value (k_line l x s) = sema_value s"
    "lock_holder (k_line l x s) = lock_holder s" "lock_repeat (k_line l x s) = lock_repeat s"
    "test_var_a (k_line l x s) = test_var_a s" "test_var_b (k_line l x s) = test_var_b s"
    "k_line l x (s\<lparr>eflags := e\<rparr>) = (k_line l x s)\<lparr>eflags := e\<rparr>"
  by (simp_all add: k_line_def put_str_def put_int_def)

text \<open>The console is free for the running thread.\<close>

definition console_idle :: "'a console_machine_scheme \<Rightarrow> bool" where
  "console_idle s \<longleftrightarrow> lock_free (console_lock s) s \<and> running_thread s \<noteq> 0 \<and> dlist (lnk s) (lock_waiters (console_lock s)) []"

lemma console_idle_prints:
  assumes "console_idle s"
  shows "console_put_str cs s = Ret (put_str cs s) ()" "console_put_int n s = Ret (put_int n s) ()"
    "console_idle (put_str cs s)" "console_idle (put_int n s)" "console_idle (s\<lparr>eflags := e\<rparr>)"
proof -
  have a: "lock_free (console_lock s) s" "running_thread s \<noteq> 0" "dlist (lnk s) (lock_waiters (console_lock s)) []"
    using assms by (simp_all add: console_idle_def)
  show "console_put_str cs s = Ret (put_str cs s) ()" "console_put_int n s = Ret (put_int n s) ()"
    using console_print_eq [OF put_str.guarded_code_axioms _ a, of cs] console_print_eq [OF put_int.guarded_code_axioms _ a, of n]
    by (simp_all add: console_put_str_def console_put_int_def) (simp_all add: put_str_def put_int_def)
  show "console_idle (put_str cs s)" "console_idle (put_int n s)" "console_idle (s\<lparr>eflags := e\<rparr>)"
    using a by (simp_all add: console_idle_def put_str_def put_int_def lock_free_def running_thread_def)
qed

lemma bit_set_IF: "(e AND NOT EFLAGS_IF) OR EFLAGS_IF = e OR EFLAGS_IF"
  by (rule bit_word_eqI) (auto simp: bit_simps)

lemma k_thread_round_prints:
  fixes s :: "'a kernel_machine_scheme"
  assumes idle: "console_idle s" and v: "v (put_str l (s\<lparr>eflags := eflags s AND NOT EFLAGS_IF\<rparr>)) = v s"
  shows "k_thread_round l v s = Ret ((k_line l (v s) s)\<lparr>eflags := eflags s OR EFLAGS_IF\<rparr>) ()"
proof -
  let ?d = "s\<lparr>eflags := eflags s AND NOT EFLAGS_IF\<rparr>"
  note d = console_idle_prints(5) [OF idle, of "eflags s AND NOT EFLAGS_IF"]
  note p1 = console_idle_prints(1,3) [OF d, of l]
  note p2 = console_idle_prints(2,4) [OF p1(2), of "v s"]
  note p3 = console_idle_prints(1) [OF p2(2), of "lit '' ''"]
  let ?k = "k_line l (v s) ?d"
  have "intr_get_status ?k = INTR_OFF" by (simp add: intr_get_status_OFF k_line_frame)
  then have "snd (intr_enable ?k) = (k_line l (v s) s)\<lparr>eflags := eflags s OR EFLAGS_IF\<rparr>"
    using bit_set_IF [of "eflags s"] by (simp add: intr_enable_def sti_def k_line_frame)
  moreover have "k_thread_round l v s = Ret (snd (intr_enable ?k)) ()"
    using p1(1) p2(1) p3 v
    by (simp add: k_thread_round_def k_thread_number_def k_thread_space_def snd_intr_disable Let_def k_line_def)
  ultimately show ?thesis by simp
qed

lemma rounds_print:
  fixes s :: "'a kernel_machine_scheme"
  assumes idle: "console_idle s"
    and v: "\<And>cs e t. v (put_str cs (t\<lparr>eflags := e\<rparr>)) = v t" "\<And>l x t. v (k_line l x t) = v t" "\<And>e t. v (t\<lparr>eflags := e\<rparr>) = v t"
  shows "rounds n (k_thread_round l v) s =
    Ret (((k_line l (v s)) ^^ n) s\<lparr>eflags := if n = 0 then eflags s else eflags s OR EFLAGS_IF\<rparr>) ()"
  using idle
proof (induction n arbitrary: s)
  case (Suc n)
  let ?s = "(k_line l (v s) s)\<lparr>eflags := eflags s OR EFLAGS_IF\<rparr>"
  have "console_idle ?s"
    using Suc.prems by (simp add: console_idle_def k_line_frame lock_free_def running_thread_def)
  moreover have "((k_line l x) ^^ n) (t\<lparr>eflags := e\<rparr>) = ((k_line l x) ^^ n) t\<lparr>eflags := e\<rparr>" for x e and t :: "'a kernel_machine_scheme"
    by (induction n arbitrary: t) (simp_all add: k_line_frame funpow_swap1)
  ultimately show ?case
    using Suc.IH [of ?s] k_thread_round_prints [OF Suc.prems, of v l] v by (simp add: funpow_swap1)
qed simp

text \<open>
  C25: the loops of the two kernel threads: when the console's lock is free and no thread waits for it, any number
  of rounds of either thread return without being switched out, each prints the thread's label, its
  variable in hexadecimal and a space, and leaves the interrupts on; nothing else changes.
\<close>

theorem k_threads_print:
  fixes s :: "'a kernel_machine_scheme" and n :: nat
  assumes "console_idle s"
  defines "e \<equiv> if n = 0 then eflags s else eflags s OR EFLAGS_IF"
  shows "rounds n k_thread_a s = Ret (((k_line (lit ''v_a:0x'') (test_var_a s)) ^^ n) s\<lparr>eflags := e\<rparr>) () \<and>
    rounds n k_thread_b s = Ret (((k_line (lit ''v_b:0x'') (test_var_b s)) ^^ n) s\<lparr>eflags := e\<rparr>) ()"
proof -
  have ab: "k_thread_a = k_thread_round (lit ''v_a:0x'') (test_var_a :: 'a kernel_machine_scheme \<Rightarrow> u32)"
    "k_thread_b = k_thread_round (lit ''v_b:0x'') (test_var_b :: 'a kernel_machine_scheme \<Rightarrow> u32)"
    by (simp_all add: fun_eq_iff k_thread_a_def k_thread_b_def)
  show ?thesis unfolding ab e_def
    by (intro conjI rounds_print [OF assms(1)]) (simp_all add: k_line_frame put_str_def)
qed

theorem k_threads_print_witness:
  "\<exists>s'. rounds 3 k_thread_a (console_init demo_kernel) = Ret s' () \<and> intr_get_status s' = INTR_ON"
proof -
  let ?s = "console_init demo_kernel"
  have "console_idle ?s"
    by (simp add: console_idle_def console_init_def running_thread_def lock_free_def dlist_init_lnk kernel_frame)
  from k_threads_print [OF this, of 3] show ?thesis
    by (simp add: intr_get_status_def) (simp add: EFLAGS_IF_def console_init_def kernel_frame)
qed

end
