(* ===== verification/Spec2Isabelle.thy ===== *)
theory Spec2Isabelle
  imports Kernel_Prelude CString Bitmap DList Interrupt Sync Memory Console Process Spawn Ioqueue Keyboard Timer Heap Kernel Boot Entry Loader Usermode Input Steps Kthreads
begin

text \<open>
  A verification development for the kernel MyOs: a 32-bit x86 kernel with paging, kernel threads
  scheduled round robin by the clock, semaphores and locks, a page allocator, user processes, a
  console, a keyboard driver and one system call.

  \<^bold>\<open>The program and its parts.\<close> The boot code (\<^verbatim>\<open>boot/\<close>) loads the kernel from the disk, enters protected
  mode with paging on and jumps to \<^verbatim>\<open>main\<close> (\<^verbatim>\<open>kernel/main.c\<close>), which calls \<^verbatim>\<open>init_all\<close> (\<^verbatim>\<open>kernel/init.c\<close>) and starts
  two kernel threads and two processes. The interrupt module (\<^verbatim>\<open>kernel/interrupt.c\<close>) owns the
  descriptor table and the interrupt flag; every critical section of the kernel is a pair of
  \<^verbatim>\<open>intr_disable\<close> and \<^verbatim>\<open>intr_set_status\<close>. The scheduler (\<^verbatim>\<open>thread/thread.c\<close>) keeps the ready
  threads in an intrusive list (\<^verbatim>\<open>lib/kernel/list.c\<close>) and is called by the clock handler
  (\<^verbatim>\<open>device/timer.c\<close>) and by threads that block. Semaphores and locks (\<^verbatim>\<open>thread/sync.c\<close>) block and
  wake threads; the console, the pid counter, the pools and the circular buffers are guarded by
  locks. The allocator (\<^verbatim>\<open>kernel/memory.c\<close>) finds pages and frames in bitmaps (\<^verbatim>\<open>lib/bitmap.c\<close>)
  and maps them through the page directory's last entry, which points at the directory itself.

  \<^bold>\<open>The state.\<close> One record, extended component by component in the order of the theories: the flags
  register, byte memory, screen and port log (\<^verbatim>\<open>machine\<close>); the list links by address; \<^verbatim>\<open>cr3\<close> and
  the word memory by physical address; the task state segment and descriptors; the stack pointer
  and the task structures by address; the fields of semaphores and locks by address; the pools; the
  console's lock; the pid counter and the initial stacks; the circular buffers by address; the
  keyboard; the tick counter; the interrupt tables. An operation of a lower layer leaves the fields
  above it as they are by construction. C integers are words of their width; \<^verbatim>\<open>int\<close> where no wrap
  can matter is the integer type. A failed assertion, a page fault, an endless loop and a write past
  the end of a structure are values of the type \<^verbatim>\<open>kerror\<close>, so that a theorem that gives a result
  also says that none of them happens.

  \<^bold>\<open>Blocking.\<close> A routine that can give up the processor returns an \<^verbatim>\<open>outcome\<close>: it failed, it
  returned, or it was switched out, with the state in which the next thread runs and what the thread
  left on its stack; its definition with the suffix \<^verbatim>\<open>_resume\<close> goes on from there.

  \<^bold>\<open>Theories, sources and results.\<close>
  \<^item> \<^verbatim>\<open>Kernel_Prelude\<close>: types, errors, results, masks and byte ranges that all theories share.
  \<^item> \<^verbatim>\<open>CString\<close> (\<^verbatim>\<open>lib/string.c\<close>): the ten string routines over byte memory: what each does, on
    which strings, and that the scans end exactly when there is a terminator.
  \<^item> \<^verbatim>\<open>Bitmap\<close> (\<^verbatim>\<open>lib/bitmap.c\<close>): \<^verbatim>\<open>bitmap_scan\<close> equals a plain first-fit search, for runs too, but
    looks one bit too far; the locale of claims on bits that the allocator uses.
  \<^item> \<^verbatim>\<open>Machine\<close> (\<^verbatim>\<open>kernel/global.h\<close>, \<^verbatim>\<open>kernel/io.h\<close>, \<^verbatim>\<open>lib/kernel/print.S\<close>): the shared state, the
    constants, the port routines, printing and the cursor.
  \<^item> \<^verbatim>\<open>Interrupt\<close> (\<^verbatim>\<open>kernel/interrupt.c\<close>): critical sections, gates, tables, controllers.
  \<^item> \<^verbatim>\<open>DList\<close> (\<^verbatim>\<open>lib/kernel/list.c\<close>): the lists as a separation predicate, and the locale
    \<^verbatim>\<open>intrusive_queue\<close> with its laws and frame rules, interpreted on the pointer updates.
  \<^item> \<^verbatim>\<open>Paging\<close>, \<^verbatim>\<open>Tss\<close> (\<^verbatim>\<open>kernel/memory.c\<close>, \<^verbatim>\<open>userprog/tss.c\<close>): the page walk and the self-map,
    descriptors and the task state segment.
  \<^item> \<^verbatim>\<open>Thread\<close> (\<^verbatim>\<open>thread/thread.c\<close>, \<^verbatim>\<open>thread/switch.S\<close>): the scheduler, blocking and waking, the
    scheduler's invariant and round robin over threads and processes, each in its address space.
  \<^item> \<^verbatim>\<open>Sync\<close> (\<^verbatim>\<open>thread/sync.c\<close>): semaphores and locks; the step relation \<^verbatim>\<open>lock_step\<close> of threads
    interleaved by the scheduler, its invariant, mutual exclusion and no lost wake-up; the locale
    \<^verbatim>\<open>guarded_code\<close> of routines that run one body under a lock, which the console's routines and
    the pid counter interpret.
  \<^item> \<^verbatim>\<open>Memory\<close> (\<^verbatim>\<open>kernel/memory.c\<close>): frames, addresses, mapping a run of pages, well-formed page
    tables, the division of memory.
  \<^item> \<^verbatim>\<open>Console\<close>, \<^verbatim>\<open>Process\<close> (\<^verbatim>\<open>device/console.c\<close>, the rest of \<^verbatim>\<open>thread/thread.c\<close>,
    \<^verbatim>\<open>userprog/process.c\<close>, \<^verbatim>\<open>userprog/syscall-init.c\<close>, \<^verbatim>\<open>lib/user/syscall.c\<close>): printing under a
    lock, new threads, the address space of a process, \<^verbatim>\<open>getpid\<close>.
  \<^item> \<^verbatim>\<open>Heap\<close>: the invariant of the kernel's heap and \<^verbatim>\<open>get_kernel_pages\<close> for any number of pages.
  \<^item> \<^verbatim>\<open>Spawn\<close>: the allocator, the pid lock, the stacks, the page directories and the lists together in
    \<^verbatim>\<open>thread_start\<close> and \<^verbatim>\<open>process_execute\<close>, which keep one invariant of the system (\<^verbatim>\<open>system_at\<close>);
    what happens when memory runs out.
  \<^item> \<^verbatim>\<open>Entry\<close> (\<^verbatim>\<open>kernel/kernel.S\<close>, \<^verbatim>\<open>thread/switch.S\<close>, the macros of \<^verbatim>\<open>lib/user/syscall.c\<close>): the
    assembly over the registers and the stack, instruction by instruction: interrupts and system
    calls come back, a switched-out thread goes on, a new thread and a new process start.
  \<^item> \<^verbatim>\<open>Ioqueue\<close>, \<^verbatim>\<open>Keyboard\<close> (\<^verbatim>\<open>device/ioqueue.c\<close>, \<^verbatim>\<open>device/keyboard.c\<close>): the ring as an instance
    of the locale \<^verbatim>\<open>bounded_fifo\<close>, waking readers, which character a key stores, modifier keys.
  \<^item> \<^verbatim>\<open>Timer\<close> (\<^verbatim>\<open>device/timer.c\<close>): the clock handler refines an abstract scheduler with time
    slices, so that no thread starves.
  \<^item> \<^verbatim>\<open>Kernel\<close> (\<^verbatim>\<open>kernel/debug.c\<close>, \<^verbatim>\<open>kernel/init.c\<close>, \<^verbatim>\<open>kernel/main.c\<close>): \<^verbatim>\<open>init_all\<close> as the
    composition of all components and the state it leaves, from which the clock's theorem applies.
  \<^item> \<^verbatim>\<open>Boot\<close> (\<^verbatim>\<open>boot/loader.S\<close>, \<^verbatim>\<open>kernel/main.c\<close>): the page tables of \<^verbatim>\<open>setup_page\<close>, the heap after
    \<^verbatim>\<open>mem_init\<close>, and \<^verbatim>\<open>main\<close> from there to its endless loop with the clock switching between the five
    threads.
  \<^item> \<^verbatim>\<open>Loader\<close> (\<^verbatim>\<open>boot/mbr.S\<close>, \<^verbatim>\<open>boot/loader.S\<close>, \<^verbatim>\<open>include/boot.inc\<close>): reading sectors, finding the size
    of the memory, the way into protected mode, copying the kernel's ELF segments, and the state that the
    loader hands over, from which the results of \<^verbatim>\<open>Boot\<close> go on; the size that it finds is wrong on every
    machine whose BIOS reports a memory map.
  \<^item> \<^verbatim>\<open>Usermode\<close> (\<^verbatim>\<open>kernel/main.c\<close>, \<^verbatim>\<open>lib/kernel/print.S\<close>, \<^verbatim>\<open>kernel/interrupt.c\<close>): the two programs under
    the processor's checks of privilege, and how it finds the handler of an interrupt: the programs fault
    when they print, and the interrupt table is not in the address space of a process.
  \<^item> \<^verbatim>\<open>Input\<close> (\<^verbatim>\<open>device/keyboard.c\<close>, \<^verbatim>\<open>device/ioqueue.c\<close>, \<^verbatim>\<open>thread/thread.c\<close>): a key on its way to the
    thread that waits for it, through the handler, the buffer, its lock and the scheduler.
  \<^item> \<^verbatim>\<open>Steps\<close> (\<^verbatim>\<open>thread/thread.c\<close>, \<^verbatim>\<open>device/timer.c\<close>): clock ticks, blocking and waking in any order as a
    step relation; in every reachable state each thread is running, ready once, or blocked.
  \<^item> \<^verbatim>\<open>Kthreads\<close> (\<^verbatim>\<open>kernel/main.c\<close>): any number of rounds of the two kernel threads on a free console.

  \<^bold>\<open>Loops.\<close> No definition uses fuel. Loops with a counter are structural recursions or have a
  termination proof; the scans of lists and strings, which do not end on malformed data, are partial
  functions into an option, and theorems say when they return.

  \<^bold>\<open>Assumptions.\<close> Addresses fixed by the linker are fields or arguments; theorems that need two static
  structures to be apart say so (\<^verbatim>\<open>boot_state\<close>, \<^verbatim>\<open>boot_layout\<close>, \<^verbatim>\<open>thread_lists\<close>). The memory behind the
  first page table is zero when the loader starts, since the loader does not clear it (\<^verbatim>\<open>boot_tables\<close>).
  An interrupt handler runs with interrupts off, since its gate is an interrupt gate; theorems about a
  handler say what it does once the processor has found it, which \<^verbatim>\<open>Usermode\<close> shows to fail in a process. Of a C routine that
  the assembly calls, only what the calling convention promises is used (\<^verbatim>\<open>returned\<close>). The BIOS and the
  disk are arguments of the loader's definitions, and what is relied on are \<^verbatim>\<open>e820_bios\<close> and
  \<^verbatim>\<open>ata_disk\<close>. Every theorem with a hypothesis has an instance on a concrete small system.

  \<^bold>\<open>Not modelled.\<close> The translation buffer; preemption inside a routine that runs with interrupts on (atomic steps are the
  routines and their parts between switches), blocking in the middle of \<^verbatim>\<open>main\<close> included; the
  agreement of the byte and word views of memory beyond the regions cleared through both, and of the
  registers' stack with the structures by address, which theorems of \<^verbatim>\<open>Entry\<close> have as hypotheses;
  functions with empty bodies.
\<close>

end
